(* ===== verification/Prelude.thy ===== *)
theory Prelude
  imports Main "HOL-Library.AList" "HOL-Library.Word"
begin

text \<open>
  Shared vocabulary of the development: the collections of hints the component
  theories fill, the containers of the Rust standard library and of the
  \<open>indexmap\<close> crate as association lists, and the transition-system interface
  on which the protocol theories rest.
\<close>

section \<open>Hint collections\<close>

named_theorems pool_ops \<open>unfolding equations of the pool operations\<close>
named_theorems sys_simps \<open>simplification rules of the slot protocol\<close>

section \<open>Errors as values\<close>

text \<open>A Rust \<open>Result<T, E>\<close> is \<open>'e + 'a\<close>: \<open>Inl\<close> the error, \<open>Inr\<close> the value.\<close>

definition bind_result :: "'e + 'a \<Rightarrow> ('a \<Rightarrow> 'e + 'b) \<Rightarrow> 'e + 'b" where
  "bind_result r k = (case r of Inl e \<Rightarrow> Inl e | Inr x \<Rightarrow> k x)"

lemma bind_result_simps [simp]:
  "bind_result (Inl e) k = Inl e"
  "bind_result (Inr x) k = k x"
  by (simp_all add: bind_result_def)

lemma bind_result_Inr_iff:
  "bind_result r k = Inr y \<longleftrightarrow> (\<exists>x. r = Inr x \<and> k x = Inr y)"
  by (cases r) auto

lemma bind_result_split:
  "P (bind_result r k) \<longleftrightarrow> (\<forall>e. r = Inl e \<longrightarrow> P (Inl e)) \<and> (\<forall>x. r = Inr x \<longrightarrow> P (k x))"
  by (cases r) auto

section \<open>Maps with insertion order\<close>

text \<open>
  \<open>IndexMap::insert\<close> replaces the value in place when the key is present and
  appends otherwise: this is \<open>AList.update\<close>.  \<open>shift_remove\<close> deletes and keeps the
  order of the rest, \<open>shift_remove_index(0)\<close> takes the oldest entry.  The
  \<open>HashMap\<close> containers use the same two functions; the code never iterates over
  them, so their order is not observable.
\<close>

type_synonym ('k, 'v) index_map = "('k \<times> 'v) list"

definition keys :: "('k, 'v) index_map \<Rightarrow> 'k list" where
  "keys m = map fst m"

fun shift_remove_index0 :: "('k, 'v) index_map \<Rightarrow> (('k \<times> 'v) \<times> ('k, 'v) index_map) option" where
  "shift_remove_index0 [] = None"
| "shift_remove_index0 (p # m) = Some (p, m)"

definition shift_remove :: "'k \<Rightarrow> ('k, 'v) index_map \<Rightarrow> ('v \<times> ('k, 'v) index_map) option" where
  "shift_remove k m = (case map_of m k of None \<Rightarrow> None | Some v \<Rightarrow> Some (v, AList.delete k m))"

lemma keys_simps [simp]:
  "keys [] = []"
  "keys (p # m) = fst p # keys m"
  "keys (m @ m') = keys m @ keys m'"
  "length (keys m) = length m"
  by (simp_all add: keys_def)

lemma set_keys: "set (keys m) = dom (map_of m)"
  by (simp add: keys_def dom_map_of_conv_image_fst)

lemma keys_update_fresh:
  "k \<notin> set (keys m) \<Longrightarrow> AList.update k v m = m @ [(k, v)]"
  by (induction m) auto

lemma keys_delete: "keys (AList.delete k m) = filter (\<lambda>x. x \<noteq> k) (keys m)"
  by (induction m) (auto simp: AList.delete_eq)

lemma set_keys_delete [simp]: "set (keys (AList.delete k m)) = set (keys m) - {k}"
  by (auto simp: keys_delete)

lemma set_keys_update [simp]: "set (keys (AList.update k v m)) = insert k (set (keys m))"
  by (induction m) auto

lemma distinct_keys_delete [intro, simp]: "distinct (keys m) \<Longrightarrow> distinct (keys (AList.delete k m))"
  by (simp add: keys_delete)

lemma distinct_keys_update [intro, simp]:
  "distinct (keys m) \<Longrightarrow> distinct (keys (AList.update k v m))"
  unfolding keys_def by (rule distinct_update)

lemma length_delete:
  "distinct (keys m) \<Longrightarrow> k \<in> set (keys m) \<Longrightarrow> length (AList.delete k m) = length m - 1"
proof (induction m)
  case (Cons p m)
  show ?case
  proof (cases "fst p = k")
    case True
    with Cons.prems have "AList.delete k m = m"
      by (intro delete_id) (auto simp: keys_def)
    with True show ?thesis by (cases p) (simp add: AList.delete_eq)
  next
    case False
    with Cons have "length (AList.delete k m) = length m - 1" "m \<noteq> []" by auto
    with False show ?thesis by (cases p) (auto simp: AList.delete_eq)
  qed
qed simp

lemma map_of_None_keys: "map_of m k = None \<longleftrightarrow> k \<notin> set (keys m)"
  by (simp add: set_keys domIff)

lemma map_of_Some_keys: "map_of m k = Some v \<Longrightarrow> k \<in> set (keys m)"
  by (auto simp: set_keys)

lemma shift_remove_None: "shift_remove k m = None \<longleftrightarrow> k \<notin> set (keys m)"
  by (simp add: shift_remove_def flip: map_of_None_keys split: option.split)

lemma shift_remove_absent [simp]: "k \<notin> set (keys m) \<Longrightarrow> shift_remove k m = None"
  by (simp add: shift_remove_None)

lemma shift_remove_cases [case_names absent present]:
  assumes "k \<notin> set (keys m) \<Longrightarrow> shift_remove k m = None \<Longrightarrow> P"
    and "\<And>v. k \<in> set (keys m) \<Longrightarrow> map_of m k = Some v
           \<Longrightarrow> shift_remove k m = Some (v, AList.delete k m) \<Longrightarrow> P"
  shows P
  using assms by (cases "map_of m k") (auto simp: shift_remove_def map_of_None_keys dest: map_of_Some_keys)

lemma shift_remove_Some:
  "shift_remove k m = Some (v, m') \<longleftrightarrow> map_of m k = Some v \<and> m' = AList.delete k m"
  by (auto simp: shift_remove_def split: option.splits)

end
