(* ===== verification/Fd_Pass.thy ===== *)
theory Fd_Pass
  imports Prelude
begin

text \<open>
  \<open>backend/fd_pass.rs\<close>: the control plane of the Unix-domain socket between the
  frontend worker (FE) and a slot worker (BE).  A message is one opcode byte and
  the control messages (\<open>cmsg\<close>) attached to it.  System calls are environment:
  their result (return value, \<open>errno\<close>, buffers) is an argument of the model.
\<close>

section \<open>Errors of the standard library\<close>

datatype io_kind =
    Not_Found | Connection_Refused | Would_Block | Invalid_Data | Unexpected_Eof
  | Other_Kind | Os_Error nat

type_synonym io_error = "io_kind \<times> string"

text \<open>\<open>io::Error::last_os_error()\<close>: the kind is the one of \<open>errno\<close>, no message of its own.\<close>

definition last_os_error :: "io_kind \<Rightarrow> io_error" where
  "last_os_error errno = (errno, [])"

section \<open>Opcodes and messages\<close>

type_synonym byte = "8 word"
type_synonym c_int = "32 word"
type_synonym raw_fd = c_int

definition OP_FD_HANDOFF :: byte where "OP_FD_HANDOFF = 0"
definition OP_DRAIN_REQUEST :: byte where "OP_DRAIN_REQUEST = 0x58"
definition OP_READY :: byte where "OP_READY = 0x52"
definition OP_DRAIN_ACK :: byte where "OP_DRAIN_ACK = 0x41"

lemmas opcode_defs = OP_FD_HANDOFF_def OP_DRAIN_REQUEST_def OP_READY_def OP_DRAIN_ACK_def

lemma opcodes_distinct [simp]:
  "OP_FD_HANDOFF \<noteq> OP_DRAIN_REQUEST" "OP_DRAIN_REQUEST \<noteq> OP_FD_HANDOFF"
  "OP_READY \<noteq> OP_DRAIN_ACK" "OP_DRAIN_ACK \<noteq> OP_READY"
  "OP_FD_HANDOFF \<noteq> OP_READY" "OP_FD_HANDOFF \<noteq> OP_DRAIN_ACK"
  "OP_DRAIN_REQUEST \<noteq> OP_READY" "OP_DRAIN_REQUEST \<noteq> OP_DRAIN_ACK"
  by (simp_all add: opcode_defs)

datatype ctrl_msg = FdHandoff raw_fd | DrainRequest | Ctrl_Eof

text \<open>Linux values of \<open>libc::SOL_SOCKET\<close> and \<open>libc::SCM_RIGHTS\<close>.\<close>

definition SOL_SOCKET :: c_int where "SOL_SOCKET = 1"
definition SCM_RIGHTS :: c_int where "SCM_RIGHTS = 1"

record cmsg =
  cmsg_level :: c_int
  cmsg_type :: c_int
  cmsg_fd :: c_int

record uds_msg =
  um_byte :: byte
  um_cmsgs :: "cmsg list"

section \<open>Sending\<close>

text \<open>What \<open>sendmsg\<close>/\<open>send\<close> reported: a negative count carries \<open>errno\<close>.\<close>

record send_outcome =
  snd_n :: int
  snd_errno :: io_kind

text \<open>
  \<open>send_fd_nonblocking\<close>: on success the value is the message the kernel queued.
  \<open>first_hdr_null\<close> is the outcome of \<open>CMSG_FIRSTHDR\<close> on the 64-byte buffer.
\<close>

definition send_fd_nonblocking :: "bool \<Rightarrow> raw_fd \<Rightarrow> send_outcome \<Rightarrow> io_error + uds_msg" where
  "send_fd_nonblocking first_hdr_null fd_to_send r =
    (if first_hdr_null
     then Inl (Other_Kind, ''CMSG_FIRSTHDR returned null'')
     else if snd_n r < 0 then Inl (last_os_error (snd_errno r))
     else Inr \<lparr>um_byte = OP_FD_HANDOFF,
               um_cmsgs = [\<lparr>cmsg_level = SOL_SOCKET, cmsg_type = SCM_RIGHTS,
                            cmsg_fd = fd_to_send\<rparr>]\<rparr>)"

definition write_opcode :: "byte \<Rightarrow> send_outcome \<Rightarrow> io_error + uds_msg" where
  "write_opcode opcode r =
    (if snd_n r < 0 then Inl (last_os_error (snd_errno r))
     else Inr \<lparr>um_byte = opcode, um_cmsgs = []\<rparr>)"

definition send_drain_request_nonblocking :: "send_outcome \<Rightarrow> io_error + uds_msg" where
  "send_drain_request_nonblocking = write_opcode OP_DRAIN_REQUEST"

definition send_ready_byte_nonblocking :: "send_outcome \<Rightarrow> io_error + uds_msg" where
  "send_ready_byte_nonblocking = write_opcode OP_READY"

definition send_drain_ack_nonblocking :: "send_outcome \<Rightarrow> io_error + uds_msg" where
  "send_drain_ack_nonblocking = write_opcode OP_DRAIN_ACK"

section \<open>Receiving\<close>

text \<open>What \<open>recvmsg\<close>/\<open>recv\<close> reported for a one-byte buffer.\<close>

record recv_outcome =
  rcv_n :: int
  rcv_errno :: io_kind
  rcv_msg :: uds_msg

definition from_raw_fd_checked :: "raw_fd \<Rightarrow> io_error + raw_fd" where
  "from_raw_fd_checked fd =
    (if sint fd < 0 then Inl (Invalid_Data, ''SCM_RIGHTS cmsg carried a negative fd'') else Inr fd)"

text \<open>The walk over \<open>CMSG_FIRSTHDR\<close>/\<open>CMSG_NXTHDR\<close>: the first \<open>SCM_RIGHTS\<close> entry decides.\<close>

fun find_scm_rights :: "cmsg list \<Rightarrow> io_error + ctrl_msg" where
  "find_scm_rights [] = Inl (Invalid_Data, ''OP_FD_HANDOFF without SCM_RIGHTS cmsg'')"
| "find_scm_rights (c # cs) =
    (if cmsg_level c = SOL_SOCKET \<and> cmsg_type c = SCM_RIGHTS
     then bind_result (from_raw_fd_checked (cmsg_fd c)) (\<lambda>fd. Inr (FdHandoff fd))
     else find_scm_rights cs)"

definition recv_ctrl_nonblocking :: "recv_outcome \<Rightarrow> io_error + ctrl_msg" where
  "recv_ctrl_nonblocking r =
    (if rcv_n r < 0 then Inl (last_os_error (rcv_errno r))
     else if rcv_n r = 0 then Inr Ctrl_Eof
     else if um_byte (rcv_msg r) = OP_FD_HANDOFF then find_scm_rights (um_cmsgs (rcv_msg r))
     else if um_byte (rcv_msg r) = OP_DRAIN_REQUEST then Inr DrainRequest
     else Inl (Invalid_Data, ''unknown control opcode''))"

section \<open>The asynchronous wrappers\<close>

text \<open>
  All wrappers are one loop: wait for readiness (which may fail), run the
  non-blocking call, and start over when it would have blocked.  The environment
  is the list of the attempts so far; \<open>None\<close> means the future is still pending
  after them, otherwise the result comes with the attempts it did not need.
\<close>

fun async_io :: "('o \<Rightarrow> io_error + 'a) \<Rightarrow> (io_error + 'o) list
                 \<Rightarrow> ((io_error + 'a) \<times> (io_error + 'o) list) option" where
  "async_io call [] = None"
| "async_io call (Inl e # env) = Some (Inl e, env)"
| "async_io call (Inr o1 # env) =
    (case call o1 of
       Inl e \<Rightarrow> if fst e = Would_Block then async_io call env else Some (Inl e, env)
     | Inr x \<Rightarrow> Some (Inr x, env))"

definition recv_ctrl_async where
  "recv_ctrl_async = async_io recv_ctrl_nonblocking"

definition send_fd_async where
  "send_fd_async null fd_to_send = async_io (send_fd_nonblocking null fd_to_send)"

definition write_opcode_async where
  "write_opcode_async opcode = async_io (write_opcode opcode)"

definition send_ready_byte_async where
  "send_ready_byte_async = write_opcode_async OP_READY"

definition send_drain_request_async where
  "send_drain_request_async = write_opcode_async OP_DRAIN_REQUEST"

definition send_drain_ack_async where
  "send_drain_ack_async = write_opcode_async OP_DRAIN_ACK"

lemmas async_defs = recv_ctrl_async_def send_fd_async_def write_opcode_async_def
  send_ready_byte_async_def send_drain_request_async_def send_drain_ack_async_def

lemma async_io_never_would_block:
  "async_io call env = Some (Inl (Would_Block, m), env') \<Longrightarrow> Inl (Would_Block, m) \<in> set env"
  by (induction call env rule: async_io.induct) (auto split: sum.splits if_splits)

text \<open>Spurious wake-ups are invisible: only the first decisive attempt counts.\<close>

lemma async_io_skip:
  assumes "\<forall>a \<in> set blocked. \<exists>o1 m. a = Inr o1 \<and> call o1 = Inl (Would_Block, m)"
  shows "async_io call (blocked @ env) = async_io call env"
  using assms by (induction blocked) auto

section \<open>The two ends agree\<close>

definition delivered :: "uds_msg \<Rightarrow> recv_outcome" where
  "delivered m = \<lparr>rcv_n = 1, rcv_errno = Os_Error 0, rcv_msg = m\<rparr>"

lemma recv_send_fd:
  assumes "send_fd_nonblocking null fd r = Inr m" and "0 \<le> sint fd"
  shows "recv_ctrl_nonblocking (delivered m) = Inr (FdHandoff fd)"
  using assms
  by (auto simp: send_fd_nonblocking_def recv_ctrl_nonblocking_def delivered_def
      from_raw_fd_checked_def split: if_splits)

lemma recv_send_drain:
  assumes "send_drain_request_nonblocking r = Inr m"
  shows "recv_ctrl_nonblocking (delivered m) = Inr DrainRequest"
  using assms
  by (auto simp: send_drain_request_nonblocking_def write_opcode_def recv_ctrl_nonblocking_def
      delivered_def split: if_splits)

lemma recv_ctrl_FdHandoff_iff:
  "recv_ctrl_nonblocking r = Inr (FdHandoff fd) \<longleftrightarrow>
     0 < rcv_n r \<and> um_byte (rcv_msg r) = OP_FD_HANDOFF
     \<and> find_scm_rights (um_cmsgs (rcv_msg r)) = Inr (FdHandoff fd)"
  by (auto simp: recv_ctrl_nonblocking_def)

lemma find_scm_rights_Inr:
  "find_scm_rights cs = Inr m \<Longrightarrow>
    \<exists>c \<in> set cs. cmsg_level c = SOL_SOCKET \<and> cmsg_type c = SCM_RIGHTS
      \<and> 0 \<le> sint (cmsg_fd c) \<and> m = FdHandoff (cmsg_fd c)"
  by (induction cs)
    (auto simp: from_raw_fd_checked_def bind_result_Inr_iff split: if_splits)

end
