(* ===== verification/Slot_Pool_Interface.thy ===== *)
theory Slot_Pool_Interface
  imports Prelude
begin

text \<open>
  The contract between the pool and everything that drives it (the per-slot
  readers, the dispatcher, the reaper): a slot is in one of three places, and
  each operation moves at most one slot, along the life cycle
  \<open>in_flight \<longrightarrow> ready \<longrightarrow> in_flight\<close> and \<open>ready \<longrightarrow> draining \<longrightarrow> gone\<close>.
\<close>

datatype slot_loc = In_Flight | In_Ready | In_Draining

text \<open>The moves of one slot that the life cycle allows; \<open>None\<close> is "not in the pool".\<close>

fun legal_move :: "slot_loc option \<Rightarrow> slot_loc option \<Rightarrow> bool" where
  "legal_move None (Some In_Flight) = True"
| "legal_move (Some In_Flight) (Some In_Ready) = True"
| "legal_move (Some In_Ready) (Some In_Flight) = True"
| "legal_move (Some In_Ready) (Some In_Draining) = True"
| "legal_move (Some _) None = True"
| "legal_move a b = (a = b)"

lemma legal_move_refl [simp]: "legal_move a a"
  by (cases a; (cases "the a")?) auto

lemma legal_move_to_None [simp]: "legal_move a None"
  by (cases a; (cases "the a")?) auto

lemma legal_move_from_draining: "legal_move (Some In_Draining) b \<Longrightarrow> b = Some In_Draining \<or> b = None"
  by (cases b; (cases "the b")?) auto

text \<open>The operations a driver of the pool can call.\<close>

datatype ('i, 't) pool_op = P_Accept 't | P_Ready 't 'i | P_Pop | P_Drain 'i | P_Ack 'i | P_Cleanup 'i

locale slot_pool =
  fixes wf :: "'p \<Rightarrow> bool"
    and room :: "'p \<Rightarrow> bool"
    and loc :: "'p \<Rightarrow> 'i \<Rightarrow> slot_loc option"
    and queue :: "'p \<Rightarrow> 'i list"
    and fresh :: "'p \<Rightarrow> 'i"
    and accept :: "'t \<Rightarrow> 'p \<Rightarrow> 'p"
    and make_ready :: "'t \<Rightarrow> 'i \<Rightarrow> 'p \<Rightarrow> 'p"
    and pop :: "'p \<Rightarrow> 'p option"
    and drain :: "'i \<Rightarrow> 'p \<Rightarrow> 'p"
    and ack :: "'i \<Rightarrow> 'p \<Rightarrow> 'p"
    and cleanup :: "'i \<Rightarrow> 'p \<Rightarrow> 'p"
  assumes queue_loc: "wf p \<Longrightarrow> set (queue p) = {i. loc p i = Some In_Ready}"
    and queue_distinct: "wf p \<Longrightarrow> distinct (queue p)"
    and accept_wf: "wf p \<Longrightarrow> room p \<Longrightarrow> wf (accept t p)"
    and accept_fresh: "wf p \<Longrightarrow> room p \<Longrightarrow> loc p (fresh p) = None"
    and accept_loc: "wf p \<Longrightarrow> room p \<Longrightarrow> loc (accept t p) = (loc p)(fresh p \<mapsto> In_Flight)"
    and accept_queue: "queue (accept t p) = queue p"
    and ready_wf: "wf p \<Longrightarrow> wf (make_ready t i p)"
    and ready_loc: "wf p \<Longrightarrow> loc (make_ready t i p) =
                      (if loc p i = Some In_Flight then (loc p)(i \<mapsto> In_Ready) else loc p)"
    and ready_queue: "wf p \<Longrightarrow> queue (make_ready t i p) =
                      (if loc p i = Some In_Flight then queue p @ [i] else queue p)"
    and pop_None: "pop p = None \<longleftrightarrow> queue p = []"
    and pop_wf: "wf p \<Longrightarrow> pop p = Some p' \<Longrightarrow> wf p'"
    and pop_loc: "wf p \<Longrightarrow> pop p = Some p' \<Longrightarrow> loc p' = (loc p)(hd (queue p) \<mapsto> In_Flight)"
    and pop_queue: "wf p \<Longrightarrow> pop p = Some p' \<Longrightarrow> queue p' = tl (queue p)"
    and drain_wf: "wf p \<Longrightarrow> wf (drain i p)"
    and drain_loc: "wf p \<Longrightarrow> loc (drain i p) =
                      (if loc p i = Some In_Ready then (loc p)(i \<mapsto> In_Draining) else loc p)"
    and drain_queue: "wf p \<Longrightarrow> queue (drain i p) = filter (\<lambda>j. j \<noteq> i) (queue p)"
    and ack_wf: "wf p \<Longrightarrow> wf (ack i p)"
    and ack_loc: "wf p \<Longrightarrow> loc (ack i p) =
                      (if loc p i = Some In_Draining then (loc p)(i := None) else loc p)"
    and ack_queue: "queue (ack i p) = queue p"
    and cleanup_wf: "wf p \<Longrightarrow> wf (cleanup i p)"
    and cleanup_loc: "wf p \<Longrightarrow> loc (cleanup i p) = (loc p)(i := None)"
    and cleanup_queue: "wf p \<Longrightarrow> queue (cleanup i p) = filter (\<lambda>j. j \<noteq> i) (queue p)"
begin

fun exec :: "('i, 't) pool_op \<Rightarrow> 'p \<Rightarrow> 'p" where
  "exec (P_Accept t) p = accept t p"
| "exec (P_Ready t i) p = make_ready t i p"
| "exec P_Pop p = (case pop p of None \<Rightarrow> p | Some p' \<Rightarrow> p')"
| "exec (P_Drain i) p = drain i p"
| "exec (P_Ack i) p = ack i p"
| "exec (P_Cleanup i) p = cleanup i p"

lemma queue_hd_ready: "wf p \<Longrightarrow> queue p \<noteq> [] \<Longrightarrow> loc p (hd (queue p)) = Some In_Ready"
  using queue_loc by fastforce

lemma exec_wf: "wf p \<Longrightarrow> (\<And>t. x = P_Accept t \<Longrightarrow> room p) \<Longrightarrow> wf (exec x p)"
  by (cases x) (auto simp: accept_wf ready_wf drain_wf ack_wf cleanup_wf split: option.split dest: pop_wf)

text \<open>Every operation moves every slot along the life cycle only.\<close>

lemma exec_legal:
  assumes wf: "wf p" and room: "\<And>t. x = P_Accept t \<Longrightarrow> room p"
  shows "legal_move (loc p j) (loc (exec x p) j)"
proof (cases x)
  case (P_Accept t)
  then show ?thesis using wf room by (auto simp: accept_loc accept_fresh)
next
  case P_Pop
  show ?thesis
  proof (cases "pop p")
    case (Some p')
    then have "queue p \<noteq> []" using pop_None by (metis option.distinct(1))
    then show ?thesis using P_Pop Some wf by (auto simp: pop_loc queue_hd_ready)
  qed (use P_Pop in simp)
qed (use wf in \<open>auto simp: ready_loc drain_loc ack_loc cleanup_loc\<close>)

lemma exec_other_slot:
  assumes "wf p" and "x = P_Ready t i \<or> x = P_Drain i \<or> x = P_Ack i \<or> x = P_Cleanup i" and "j \<noteq> i"
  shows "loc (exec x p) j = loc p j"
  using assms by (auto simp: ready_loc drain_loc ack_loc cleanup_loc)

text \<open>
  First come, first served: a slot enters the queue at the back and leaves it at
  the front, or from the middle when it is drained or its reader dies.
\<close>

lemma exec_queue_fifo:
  assumes "wf p" and "\<And>t. x = P_Accept t \<Longrightarrow> room p"
  shows "\<exists>gone. queue (exec x p) = filter (\<lambda>j. j \<notin> gone) (queue p)
              \<or> (\<exists>i. loc p i = Some In_Flight \<and> queue (exec x p) = queue p @ [i])"
proof -
  have keep: "queue p = filter (\<lambda>j. j \<notin> {}) (queue p)" by simp
  show ?thesis
  proof (cases x)
    case P_Pop
    show ?thesis
    proof (cases "pop p")
      case None then show ?thesis using P_Pop keep by (metis exec.simps(3) option.simps(4))
    next
      case (Some p')
      have "distinct (queue p)" using assms queue_distinct by blast
      moreover have "queue p' = tl (queue p)" using Some assms pop_queue by blast
      ultimately have "queue p' = filter (\<lambda>j. j \<notin> {hd (queue p)}) (queue p)"
        by (cases "queue p") (auto simp: filter_id_conv intro!: sym[OF filter_True])
      then show ?thesis using P_Pop Some by (intro exI[of _ "{hd (queue p)}"]) simp
    qed
  next
    case (P_Ready t i)
    then show ?thesis using assms keep
      by (cases "loc p i = Some In_Flight") (auto simp: ready_queue intro!: exI[of _ "{}"])
  next
    case (P_Drain i)
    then show ?thesis using assms by (intro exI[of _ "{i}"]) (auto simp: drain_queue)
  next
    case (P_Cleanup i)
    then show ?thesis using assms by (intro exI[of _ "{i}"]) (auto simp: cleanup_queue)
  qed (use keep in \<open>metis accept_queue ack_queue exec.simps(1,5)\<close>)+
qed

end

end
