(* ===== verification/Pool.thy ===== *)
theory Pool
  imports Fd_Pass Slot_Pool_Interface
begin

text \<open>
  \<open>backend/pool.rs\<close>: the frontend's pool of slot workers.  The pool lives on one
  thread, so the code between two \<open>await\<close> points is one atomic operation here:
  each operation takes the pool state (and the results of the system calls it
  makes) to a new state and the list of its effects, in order.  Instants are
  milliseconds.
\<close>

section \<open>Tunables\<close>

definition IDLE_REAP_AFTER :: nat where "IDLE_REAP_AFTER = 60 * 1000"
definition IDLE_REAPER_TICK :: nat where "IDLE_REAPER_TICK = 10 * 1000"
definition MIN_WARM_SLOTS :: "32 word" where "MIN_WARM_SLOTS = 0"
definition HANDOFF_WAIT :: nat where "HANDOFF_WAIT = 5 * 1000"
definition DRAIN_ACK_TIMEOUT :: nat where "DRAIN_ACK_TIMEOUT = 60 * 1000"

section \<open>State\<close>

type_synonym slot_id = "64 word"
type_synonym instant = nat

record 'st slot_peer =
  sp_slot_id :: slot_id
  sp_stream :: 'st
  sp_last_ready_at :: instant

record 'st pool_state =
  ready :: "(slot_id, 'st slot_peer) index_map"
  in_flight :: "(slot_id, 'st slot_peer) index_map"
  draining :: "(slot_id, 'st slot_peer) index_map"
  slot_id_counter :: slot_id
  growing :: bool

datatype 'st pool_effect =
    Notify_One
  | Spawn_Reader slot_id 'st
  | Load_Dynamic
  | Send_Drain 'st
  | Spawn_Watchdog slot_id 'st
  | Shutdown_RDWR 'st
  | Shutdown_WR 'st

definition pool_new :: "'st pool_state" where
  "pool_new = \<lparr>ready = [], in_flight = [], draining = [], slot_id_counter = 0, growing = False\<rparr>"

text \<open>\<open>self.slot_id_counter += 1\<close> in a release build wraps at \<open>2 ^ 64\<close>.\<close>

definition next_slot_id :: "'st pool_state \<Rightarrow> slot_id \<times> 'st pool_state" where
  "next_slot_id st = (slot_id_counter st, st\<lparr>slot_id_counter := slot_id_counter st + 1\<rparr>)"

definition total :: "'st pool_state \<Rightarrow> nat" where
  "total st = length (ready st) + length (in_flight st) + length (draining st)"

section \<open>Accepting slot workers\<close>

text \<open>What the steps of one iteration of the accept loop returned.\<close>

datatype 'st accept_outcome = Accept_Error | Into_Std_Error | Wrap_Error | Accepted 'st

text \<open>The tail of one accepted connection: park the slot in \<open>in_flight\<close> under a new id.\<close>

definition accept_slot :: "instant \<Rightarrow> 'st \<Rightarrow> 'st pool_state \<Rightarrow> 'st pool_state \<times> 'st pool_effect list" where
  "accept_slot now stream st =
    (let (sid, st1) = next_slot_id st;
         peer = \<lparr>sp_slot_id = sid, sp_stream = stream, sp_last_ready_at = now\<rparr>
     in (st1\<lparr>in_flight := AList.update sid peer (in_flight st1)\<rparr>, [Spawn_Reader sid stream]))"

fun accept_loop_turn :: "instant \<Rightarrow> 'st accept_outcome \<Rightarrow> 'st pool_state
                          \<Rightarrow> 'st pool_state \<times> 'st pool_effect list" where
  "accept_loop_turn now (Accepted stream) st = accept_slot now stream st"
| "accept_loop_turn now _ st = (st, [])"

section \<open>The reader of one slot\<close>

definition on_ready :: "instant \<Rightarrow> slot_id \<Rightarrow> 'st pool_state \<Rightarrow> 'st pool_state \<times> 'st pool_effect list" where
  "on_ready now sid st =
    (case shift_remove sid (in_flight st) of
       None \<Rightarrow> (st, [])
     | Some (peer, rest) \<Rightarrow>
         (st\<lparr>in_flight := rest,
             ready := AList.update sid (peer\<lparr>sp_last_ready_at := now\<rparr>) (ready st)\<rparr>,
          [Notify_One]))"

definition on_drain_ack :: "slot_id \<Rightarrow> 'st pool_state \<Rightarrow> 'st pool_state" where
  "on_drain_ack sid st =
    (case shift_remove sid (draining st) of
       None \<Rightarrow> st
     | Some (_, rest) \<Rightarrow> st\<lparr>draining := rest\<rparr>)"

definition cleanup_orphaned :: "slot_id \<Rightarrow> 'st \<Rightarrow> 'st pool_state \<Rightarrow> 'st pool_state \<times> 'st pool_effect list" where
  "cleanup_orphaned sid stream st =
    (case shift_remove sid (ready st) of
       Some (_, rest) \<Rightarrow> (st\<lparr>ready := rest\<rparr>, [Shutdown_RDWR stream])
     | None \<Rightarrow> (case shift_remove sid (in_flight st) of
         Some (_, rest) \<Rightarrow> (st\<lparr>in_flight := rest\<rparr>, [Shutdown_RDWR stream])
       | None \<Rightarrow> (case shift_remove sid (draining st) of
           Some (_, rest) \<Rightarrow> (st\<lparr>draining := rest\<rparr>, [Shutdown_RDWR stream])
         | None \<Rightarrow> (st, [Shutdown_RDWR stream]))))"

text \<open>One non-blocking \<open>recv\<close> of one byte; the retry loop is the one of the wrappers.\<close>

definition recv_be_opcode :: "recv_outcome \<Rightarrow> io_error + byte" where
  "recv_be_opcode r =
    (if rcv_n r < 0 then Inl (last_os_error (rcv_errno r))
     else if rcv_n r = 0 then Inl (Unexpected_Eof, [])
     else Inr (um_byte (rcv_msg r)))"

definition read_one_be_opcode where
  "read_one_be_opcode = async_io recv_be_opcode"

text \<open>One turn of \<open>slot_reader\<close>: the flag says whether the reader goes on.\<close>

definition slot_reader_turn :: "instant \<Rightarrow> slot_id \<Rightarrow> io_error + byte \<Rightarrow> 'st pool_state
                                 \<Rightarrow> bool \<times> 'st pool_state \<times> 'st pool_effect list" where
  "slot_reader_turn now sid r st =
    (case r of
       Inr op \<Rightarrow>
         if op = OP_READY then (True, on_ready now sid st)
         else if op = OP_DRAIN_ACK then (False, on_drain_ack sid st, [])
         else (False, st, [])
     | Inl e \<Rightarrow> (False, st, []))"

text \<open>
  The wrapper: whatever ends the reader, a panic (\<open>None\<close>) included, the slot is
  cleaned up.
\<close>

definition slot_reader_wrapper_turn :: "instant \<Rightarrow> slot_id \<Rightarrow> 'st \<Rightarrow> (io_error + byte) option
      \<Rightarrow> 'st pool_state \<Rightarrow> bool \<times> 'st pool_state \<times> 'st pool_effect list" where
  "slot_reader_wrapper_turn now sid stream r st =
    (case r of
       None \<Rightarrow> (False, cleanup_orphaned sid stream st)
     | Some r \<Rightarrow>
         (let (go, st1, es1) = slot_reader_turn now sid r st
          in if go then (True, st1, es1)
             else let (st2, es2) = cleanup_orphaned sid stream st1 in (False, st2, es1 @ es2)))"

section \<open>Dispatch\<close>

definition try_pop_ready :: "'st pool_state \<Rightarrow> ('st \<times> 'st pool_state) option" where
  "try_pop_ready st =
    (case shift_remove_index0 (ready st) of
       None \<Rightarrow> None
     | Some ((sid, peer), rest) \<Rightarrow>
         Some (sp_stream peer,
               st\<lparr>ready := rest, in_flight := AList.update sid peer (in_flight st)\<rparr>))"

datatype grow_outcome = Grow_Ok | Grow_Table_Full | Grow_Panic

definition grow_one :: "grow_outcome \<Rightarrow> (string + unit) \<times> 'st pool_effect list" where
  "grow_one g = (case g of
     Grow_Ok \<Rightarrow> (Inr (), [Load_Dynamic])
   | _ \<Rightarrow> (Inl ''bgworker table full (raise max_worker_processes)'', []))"

text \<open>
  The control state of one \<open>handoff\<close> future: it is sending the client socket to a
  slot, waits for \<open>has_ready\<close> until its deadline, has returned, or unwound.
\<close>

datatype ('st, 'fd) handoff_pc =
    H_Sending 'st 'fd string
  | H_Waiting instant 'fd
  | H_Returned "string + unit"
  | H_Panicked

text \<open>\<open>GrowGuard\<close>: dropping it clears the flag, on a return and on an unwind alike.\<close>

definition grow_guard_drop :: "'st pool_state \<Rightarrow> 'st pool_state" where
  "grow_guard_drop st = st\<lparr>growing := False\<rparr>"

definition should_grow :: "32 word \<Rightarrow> 'st pool_state \<Rightarrow> bool" where
  "should_grow max_size st \<longleftrightarrow> total st < unat max_size \<and> \<not> growing st"

text \<open>The first poll of \<open>handoff\<close>, up to its first \<open>await\<close>.\<close>

definition handoff_start :: "32 word \<Rightarrow> instant \<Rightarrow> 'fd \<Rightarrow> grow_outcome \<Rightarrow> 'st pool_state
      \<Rightarrow> ('st, 'fd) handoff_pc \<times> 'st pool_state \<times> 'st pool_effect list" where
  "handoff_start max_size now fd g st =
    (case try_pop_ready st of
       Some (stream, st1) \<Rightarrow> (H_Sending stream fd ''fast-path'', st1, [])
     | None \<Rightarrow>
         if should_grow max_size st
         then let st1 = st\<lparr>growing := True\<rparr>;
                  (r, es) = grow_one g;
                  st2 = grow_guard_drop st1
              in (if g = Grow_Panic then H_Panicked else H_Waiting (now + HANDOFF_WAIT) fd, st2, es)
         else (H_Waiting (now + HANDOFF_WAIT) fd, st, []))"

text \<open>A wake-up of a waiting \<open>handoff\<close>: \<open>Inr ()\<close> is a notification, \<open>Inl ()\<close> the deadline.\<close>

fun handoff_wake :: "unit + unit \<Rightarrow> ('st, 'fd) handoff_pc \<Rightarrow> 'st pool_state \<Rightarrow> ('st, 'fd) handoff_pc \<times> 'st pool_state" where
  "handoff_wake (Inr _) (H_Waiting dl fd) st =
    (case try_pop_ready st of
       Some (stream, st1) \<Rightarrow> (H_Sending stream fd ''slow-path'', st1)
     | None \<Rightarrow> (H_Waiting dl fd, st))"
| "handoff_wake (Inl _) (H_Waiting dl fd) st =
    (H_Returned (Inl ''pg_transport pool: no slot became ready within 5s''), st)"
| "handoff_wake _ pc st = (pc, st)"

text \<open>\<open>send_fd_to\<close>: the result of \<open>send_fd_async\<close>; the local descriptor is closed either way.\<close>

definition send_fd_to :: "string \<Rightarrow> io_error + uds_msg \<Rightarrow> string + unit" where
  "send_fd_to path_label r =
    (case r of Inl e \<Rightarrow> Inl (''pg_transport pool ('' @ path_label @ ''): send_fd: '' @ snd e)
     | Inr _ \<Rightarrow> Inr ())"

fun handoff_sent :: "io_error + uds_msg \<Rightarrow> ('st, 'fd) handoff_pc \<Rightarrow> ('st, 'fd) handoff_pc" where
  "handoff_sent r (H_Sending stream fd lbl) = H_Returned (send_fd_to lbl r)"
| "handoff_sent r pc = pc"

section \<open>Shrinking\<close>

definition request_drain :: "bool \<Rightarrow> slot_id \<Rightarrow> 'st pool_state \<Rightarrow> 'st pool_state \<times> 'st pool_effect list" where
  "request_drain send_ok sid st =
    (case shift_remove sid (ready st) of
       None \<Rightarrow> (st, [])
     | Some (peer, rest) \<Rightarrow>
         (st\<lparr>ready := rest, draining := AList.update sid peer (draining st)\<rparr>,
          (if send_ok then [Send_Drain (sp_stream peer)] else [])
          @ [Spawn_Watchdog sid (sp_stream peer)]))"

definition watchdog_fire :: "slot_id \<Rightarrow> 'st \<Rightarrow> 'st pool_state \<Rightarrow> 'st pool_state \<times> 'st pool_effect list" where
  "watchdog_fire sid stream st =
    (case shift_remove sid (draining st) of
       None \<Rightarrow> (st, [])
     | Some (_, rest) \<Rightarrow> (st\<lparr>draining := rest\<rparr>, [Shutdown_WR stream]))"

definition reap_candidates :: "instant \<Rightarrow> 'st pool_state \<Rightarrow> slot_id list" where
  "reap_candidates now st =
    map fst (filter (\<lambda>(_, p). now > sp_last_ready_at p \<and> now - sp_last_ready_at p > IDLE_REAP_AFTER)
               (ready st))"

text \<open>\<open>saturating_sub\<close> on \<open>usize\<close> is the subtraction of \<open>nat\<close>; skipping the first \<open>keep\<close> is \<open>drop\<close>.\<close>

definition reap_victims :: "instant \<Rightarrow> 'st pool_state \<Rightarrow> slot_id list" where
  "reap_victims now st =
    (let candidates = reap_candidates now st;
         post_reap = length (ready st) - length candidates;
         keep = unat MIN_WARM_SLOTS - post_reap
     in drop keep candidates)"

fun drain_all :: "(slot_id \<Rightarrow> bool) \<Rightarrow> slot_id list \<Rightarrow> 'st pool_state \<Rightarrow> 'st pool_state \<times> 'st pool_effect list" where
  "drain_all ok [] st = (st, [])"
| "drain_all ok (sid # sids) st =
    (let (st1, es1) = request_drain (ok sid) sid st; (st2, es2) = drain_all ok sids st1
     in (st2, es1 @ es2))"

definition reap_once :: "instant \<Rightarrow> (slot_id \<Rightarrow> bool) \<Rightarrow> 'st pool_state \<Rightarrow> 'st pool_state \<times> 'st pool_effect list" where
  "reap_once now ok st = drain_all ok (reap_victims now st) st"

definition sighup_victims :: "32 word \<Rightarrow> 'st pool_state \<Rightarrow> slot_id list" where
  "sighup_victims max_size st =
    (if total st \<le> unat max_size then [] else take (total st - unat max_size) (keys (ready st)))"

definition sighup_reconcile :: "32 word \<Rightarrow> (slot_id \<Rightarrow> bool) \<Rightarrow> 'st pool_state
      \<Rightarrow> 'st pool_state \<times> 'st pool_effect list" where
  "sighup_reconcile max_size ok st = drain_all ok (sighup_victims max_size st) st"

text \<open>\<open>pre_warm\<close> issues \<open>MIN_WARM_SLOTS\<close> grows; a failed one is only logged.\<close>

definition pre_warm :: "(nat \<Rightarrow> grow_outcome) \<Rightarrow> 'st pool_effect list" where
  "pre_warm g = concat (map (\<lambda>i. snd (grow_one (g i))) [0..<unat MIN_WARM_SLOTS])"

section \<open>Well-formed pools\<close>

definition all_keys :: "'st pool_state \<Rightarrow> slot_id list" where
  "all_keys st = keys (ready st) @ keys (in_flight st) @ keys (draining st)"

definition peers_ok :: "(slot_id, 'st slot_peer) index_map \<Rightarrow> bool" where
  "peers_ok m \<longleftrightarrow> (\<forall>(k, p) \<in> set m. sp_slot_id p = k)"

text \<open>
  No slot is in two containers, every peer carries its own id, every id in use
  was issued by the counter, and the grow flag is down between two operations.
\<close>

definition pool_wf :: "'st pool_state \<Rightarrow> bool" where
  "pool_wf st \<longleftrightarrow> distinct (all_keys st)
     \<and> peers_ok (ready st) \<and> peers_ok (in_flight st) \<and> peers_ok (draining st)
     \<and> (\<forall>k \<in> set (all_keys st). k < slot_id_counter st)
     \<and> \<not> growing st"

definition where_is :: "'st pool_state \<Rightarrow> slot_id \<Rightarrow> slot_loc option" where
  "where_is st k =
    (if k \<in> set (keys (ready st)) then Some In_Ready
     else if k \<in> set (keys (in_flight st)) then Some In_Flight
     else if k \<in> set (keys (draining st)) then Some In_Draining else None)"

definition ready_ids :: "'st pool_state \<Rightarrow> slot_id list" where
  "ready_ids st = keys (ready st)"

definition ids_left :: "'st pool_state \<Rightarrow> bool" where
  "ids_left st \<longleftrightarrow> unat (slot_id_counter st) + 1 < 2 ^ 64"

lemmas pool_simps = pool_wf_def all_keys_def where_is_def ready_ids_def

lemma peers_ok_simps [simp]:
  "peers_ok []"
  "peers_ok ((k, p) # m) \<longleftrightarrow> sp_slot_id p = k \<and> peers_ok m"
  by (simp_all add: peers_ok_def)

lemma peers_ok_delete [simp, intro]: "peers_ok m \<Longrightarrow> peers_ok (AList.delete k m)"
  by (auto simp: peers_ok_def AList.delete_eq)

lemma peers_ok_update [simp, intro]: "peers_ok m \<Longrightarrow> sp_slot_id p = k \<Longrightarrow> peers_ok (AList.update k p m)"
  by (induction m) (auto simp: peers_ok_def split: if_splits)

lemma peers_ok_map_of: "peers_ok m \<Longrightarrow> map_of m k = Some p \<Longrightarrow> sp_slot_id p = k"
  by (auto simp: peers_ok_def dest: map_of_SomeD)

lemmas pool_op_defs = next_slot_id_def accept_slot_def on_ready_def on_drain_ack_def
  cleanup_orphaned_def try_pop_ready_def request_drain_def watchdog_fire_def grow_guard_drop_def

lemma counter_step:
  assumes "ids_left st"
  shows "slot_id_counter st < slot_id_counter st + 1"
    and "k < slot_id_counter st \<Longrightarrow> k < slot_id_counter st + 1"
proof -
  have "unat (slot_id_counter st + 1) = unat (slot_id_counter st) + 1"
    using assms by (simp add: ids_left_def unat_word_ariths)
  then show "slot_id_counter st < slot_id_counter st + 1"
    by (simp add: word_less_nat_alt)
  then show "k < slot_id_counter st \<Longrightarrow> k < slot_id_counter st + 1"
    by (rule less_trans[rotated])
qed

lemma wf_fresh: "pool_wf st \<Longrightarrow> where_is st (slot_id_counter st) = None"
  by (auto simp: pool_simps)

lemma accept_wf:
  assumes "pool_wf st" "ids_left st"
  shows "pool_wf (fst (accept_slot now stream st))"
  using assms counter_step[of st]
  by (auto simp: pool_simps pool_op_defs)

lemma accept_where:
  assumes "pool_wf st"
  shows "where_is (fst (accept_slot now stream st)) = (where_is st)(slot_id_counter st \<mapsto> In_Flight)"
  using assms by (auto simp: pool_simps pool_op_defs fun_eq_iff)

text \<open>The step each operation takes on well-formedness and on the place of every slot.\<close>

lemma on_ready_wf: "pool_wf st \<Longrightarrow> pool_wf (fst (on_ready now sid st))"
  by (rule shift_remove_cases[of sid "in_flight st"])
    (auto simp: pool_simps pool_op_defs dest: peers_ok_map_of)

lemma on_ready_where:
  assumes "pool_wf st"
  shows "where_is (fst (on_ready now sid st)) =
    (if where_is st sid = Some In_Flight then (where_is st)(sid \<mapsto> In_Ready) else where_is st)"
  using assms by (rule_tac shift_remove_cases[of sid "in_flight st"])
    (auto simp: pool_simps on_ready_def)

lemma on_ready_queue:
  assumes "pool_wf st"
  shows "ready_ids (fst (on_ready now sid st)) =
    (if where_is st sid = Some In_Flight then ready_ids st @ [sid] else ready_ids st)"
  using assms by (rule_tac shift_remove_cases[of sid "in_flight st"])
    (auto simp: pool_simps on_ready_def keys_update_fresh)

lemma pop_wf: "pool_wf st \<Longrightarrow> try_pop_ready st = Some (stream, st') \<Longrightarrow> pool_wf st'"
  by (cases "ready st") (auto simp: pool_simps try_pop_ready_def)

lemma pop_where:
  assumes "pool_wf st" "try_pop_ready st = Some (stream, st')"
  shows "where_is st' = (where_is st)(hd (ready_ids st) \<mapsto> In_Flight)"
  using assms by (cases "ready st") (auto simp: pool_simps try_pop_ready_def)

lemma pop_queue:
  assumes "try_pop_ready st = Some (stream, st')"
  shows "ready_ids st = hd (ready_ids st) # ready_ids st'" "draining st' = draining st"
  using assms by (cases "ready st"; auto simp: ready_ids_def try_pop_ready_def)+

lemma pop_tl: "try_pop_ready st = Some (stream, st') \<Longrightarrow> ready_ids st' = tl (ready_ids st)"
  by (drule pop_queue(1)) (metis list.sel(3))

lemma pop_None: "try_pop_ready st = None \<longleftrightarrow> ready_ids st = []"
  by (cases "ready st") (auto simp: ready_ids_def try_pop_ready_def)

lemma drain_wf: "pool_wf st \<Longrightarrow> pool_wf (fst (request_drain ok sid st))"
  by (rule shift_remove_cases[of sid "ready st"])
    (auto simp: pool_simps request_drain_def dest: peers_ok_map_of)

lemma drain_where:
  assumes "pool_wf st"
  shows "where_is (fst (request_drain ok sid st)) =
    (if where_is st sid = Some In_Ready then (where_is st)(sid \<mapsto> In_Draining) else where_is st)"
  using assms by (rule_tac shift_remove_cases[of sid "ready st"])
    (auto simp: pool_simps request_drain_def fun_eq_iff)

lemma drain_queue: "ready_ids (fst (request_drain ok sid st)) = filter (\<lambda>j. j \<noteq> sid) (ready_ids st)"
  by (rule shift_remove_cases[of sid "ready st"])
    (auto simp: ready_ids_def request_drain_def keys_delete intro!: sym[OF filter_True])

lemma ack_wf: "pool_wf st \<Longrightarrow> pool_wf (on_drain_ack sid st)"
  by (rule shift_remove_cases[of sid "draining st"]) (auto simp: pool_simps on_drain_ack_def)

lemma ack_where:
  assumes "pool_wf st"
  shows "where_is (on_drain_ack sid st) =
    (if where_is st sid = Some In_Draining then (where_is st)(sid := None) else where_is st)"
  using assms by (rule_tac shift_remove_cases[of sid "draining st"])
    (auto simp: pool_simps on_drain_ack_def)

lemma ack_queue: "ready_ids (on_drain_ack sid st) = ready_ids st"
  by (auto simp: ready_ids_def on_drain_ack_def split: option.split)

lemma watchdog_ack: "fst (watchdog_fire sid stream st) = on_drain_ack sid st"
  by (auto simp: watchdog_fire_def on_drain_ack_def split: option.split)

lemma cleanup_wf: "pool_wf st \<Longrightarrow> pool_wf (fst (cleanup_orphaned sid stream st))"
  by (rule shift_remove_cases[of sid "ready st"]; rule shift_remove_cases[of sid "in_flight st"];
      rule shift_remove_cases[of sid "draining st"]) (auto simp: pool_simps cleanup_orphaned_def)

lemma cleanup_where:
  assumes "pool_wf st"
  shows "where_is (fst (cleanup_orphaned sid stream st)) = (where_is st)(sid := None)"
  using assms
  by (rule_tac shift_remove_cases[of sid "ready st"]; rule_tac shift_remove_cases[of sid "in_flight st"];
      rule_tac shift_remove_cases[of sid "draining st"])
    (auto simp: pool_simps cleanup_orphaned_def fun_eq_iff)

lemma cleanup_queue:
  assumes "pool_wf st"
  shows "ready_ids (fst (cleanup_orphaned sid stream st)) = filter (\<lambda>j. j \<noteq> sid) (ready_ids st)"
proof (cases "sid \<in> set (ready_ids st)")
  case True
  then show ?thesis
    by (rule_tac shift_remove_cases[of sid "ready st"])
      (auto simp: ready_ids_def cleanup_orphaned_def keys_delete)
next
  case False
  then have "filter (\<lambda>j. j \<noteq> sid) (ready_ids st) = ready_ids st" by (auto intro: filter_True)
  moreover have "ready_ids (fst (cleanup_orphaned sid stream st)) = ready_ids st"
    using False by (simp add: ready_ids_def cleanup_orphaned_def split: option.split)
  ultimately show ?thesis by simp
qed

lemma queue_loc: "pool_wf st \<Longrightarrow> set (ready_ids st) = {k. where_is st k = Some In_Ready}"
  by (auto simp: pool_simps)

lemma queue_distinct: "pool_wf st \<Longrightarrow> distinct (ready_ids st)"
  by (simp add: pool_simps)

text \<open>The pool of the code meets the contract of a slot pool.\<close>

interpretation pool: slot_pool
  pool_wf ids_left where_is ready_ids slot_id_counter
  "\<lambda>(now, stream) st. fst (accept_slot now stream st)"
  "\<lambda>(now, _) sid st. fst (on_ready now sid st)"
  "\<lambda>st. map_option snd (try_pop_ready st)"
  "\<lambda>sid st. fst (request_drain send_ok sid st)"
  on_drain_ack
  "\<lambda>sid st. fst (cleanup_orphaned sid sock st)"
  for send_ok :: bool and sock :: 'st
proof (unfold_locales, goal_cases)
  case (6 t st)
  then show ?case by (cases t) (simp add: ready_ids_def accept_slot_def next_slot_id_def)
qed (auto simp: queue_loc queue_distinct accept_wf wf_fresh accept_where on_ready_wf on_ready_where
    on_ready_queue pop_None pop_wf pop_where drain_wf drain_where drain_queue ack_wf ack_where
    ack_queue cleanup_wf cleanup_where cleanup_queue pop_tl split: prod.splits)

end
