(* ===== verification/Pool_Events.thy ===== *)
theory Pool_Events
  imports Pool
begin

text \<open>
  Runs of the pool: every task of the frontend that touches the pool, as one event
  per atomic stretch of its code.  The lemmas lift the contract of the single
  operations to arbitrary interleavings of accepts, readers, dispatchers, the
  reaper, SIGHUP and watchdogs.
\<close>

datatype 'st pool_event =
    E_Accept instant "'st accept_outcome"
  | E_Reader instant slot_id 'st "(io_error + byte) option"
  | E_Handoff "32 word" instant raw_fd grow_outcome
  | E_Wake "unit + unit" "('st, raw_fd) handoff_pc"
  | E_Reap instant "slot_id \<Rightarrow> bool"
  | E_Sighup "32 word" "slot_id \<Rightarrow> bool"
  | E_Watchdog slot_id 'st

fun pool_exec :: "'st pool_event \<Rightarrow> 'st pool_state \<Rightarrow> 'st pool_state \<times> 'st pool_effect list" where
  "pool_exec (E_Accept now r) st = accept_loop_turn now r st"
| "pool_exec (E_Reader now sid stream r) st = snd (slot_reader_wrapper_turn now sid stream r st)"
| "pool_exec (E_Handoff max_size now fd g) st = snd (handoff_start max_size now fd g st)"
| "pool_exec (E_Wake w pc) st = (snd (handoff_wake w pc st), [])"
| "pool_exec (E_Reap now ok) st = reap_once now ok st"
| "pool_exec (E_Sighup max_size ok) st = sighup_reconcile max_size ok st"
| "pool_exec (E_Watchdog sid stream) st = watchdog_fire sid stream st"

fun pool_run :: "'st pool_event list \<Rightarrow> 'st pool_state \<Rightarrow> 'st pool_state \<times> 'st pool_effect list" where
  "pool_run [] st = (st, [])"
| "pool_run (e # es) st =
    (let (st1, fs1) = pool_exec e st; (st2, fs2) = pool_run es st1 in (st2, fs1 @ fs2))"

lemma pool_run_append:
  "pool_run (es @ es') st =
    (let (st1, fs1) = pool_run es st; (st2, fs2) = pool_run es' st1 in (st2, fs1 @ fs2))"
  by (induction es arbitrary: st) (simp_all add: split_def Let_def)

section \<open>Single events\<close>

lemma counter_ops [simp]:
  "slot_id_counter (fst (on_ready now sid st)) = slot_id_counter st"
  "slot_id_counter (on_drain_ack sid st) = slot_id_counter st"
  "slot_id_counter (fst (cleanup_orphaned sid stream st)) = slot_id_counter st"
  "slot_id_counter (fst (request_drain ok sid st)) = slot_id_counter st"
  "slot_id_counter (fst (watchdog_fire sid stream st)) = slot_id_counter st"
  "slot_id_counter (fst (accept_slot now stream st)) = slot_id_counter st + 1"
  by (auto simp: pool_op_defs Let_def split: option.split)

lemma try_pop_counter [simp]:
  "try_pop_ready st = Some (stream, st') \<Longrightarrow> slot_id_counter st' = slot_id_counter st"
  by (auto simp: try_pop_ready_def split: option.splits)

lemma drain_all_counter [simp]: "slot_id_counter (fst (drain_all ok sids st)) = slot_id_counter st"
  by (induction sids arbitrary: st) (simp_all add: split_def Let_def)

lemma drain_all_wf: "pool_wf st \<Longrightarrow> pool_wf (fst (drain_all ok sids st))"
  by (induction sids arbitrary: st) (simp_all add: split_def Let_def drain_wf)

lemma drain_all_where:
  "pool_wf st \<Longrightarrow> where_is (fst (drain_all ok sids st)) k =
    (if k \<in> set sids \<and> where_is st k = Some In_Ready then Some In_Draining else where_is st k)"
  by (induction sids arbitrary: st) (auto simp: split_def Let_def drain_wf drain_where)

lemma drain_all_queue:
  "ready_ids (fst (drain_all ok sids st)) = filter (\<lambda>j. j \<notin> set sids) (ready_ids st)"
  by (induction sids arbitrary: st) (auto simp: split_def Let_def drain_queue intro: filter_cong)

lemma slot_reader_turn_wf:
  "pool_wf st \<Longrightarrow> pool_wf (fst (snd (slot_reader_turn now sid r st)))"
  by (auto simp: slot_reader_turn_def on_ready_wf ack_wf split: sum.split)

lemma reader_wf:
  "pool_wf st \<Longrightarrow> pool_wf (fst (snd (slot_reader_wrapper_turn now sid stream r st)))"
  by (auto simp: slot_reader_wrapper_turn_def split_def Let_def
      split: option.split intro: slot_reader_turn_wf cleanup_wf)

lemma slot_reader_turn_counter [simp]:
  "slot_id_counter (fst (snd (slot_reader_turn now sid r st))) = slot_id_counter st"
  by (auto simp: slot_reader_turn_def split: sum.split)

lemma reader_counter [simp]:
  "slot_id_counter (fst (snd (slot_reader_wrapper_turn now sid stream r st))) = slot_id_counter st"
  by (auto simp: slot_reader_wrapper_turn_def split_def Let_def split: option.split)

lemma handoff_start_state:
  "fst (snd (handoff_start max_size now fd g st)) =
    (case try_pop_ready st of Some (_, st1) \<Rightarrow> st1
     | None \<Rightarrow> if should_grow max_size st then st\<lparr>growing := False\<rparr> else st)"
  by (auto simp: handoff_start_def grow_guard_drop_def Let_def split_def split: option.split)

lemma handoff_wake_state:
  "snd (handoff_wake w pc st) = st \<or> (\<exists>stream. try_pop_ready st = Some (stream, snd (handoff_wake w pc st)))"
  by (induction w pc st rule: handoff_wake.induct) (auto split: option.splits)

lemma pool_wf_growing [simp]: "pool_wf st \<Longrightarrow> st\<lparr>growing := False\<rparr> = st"
  by (simp add: pool_wf_def)

lemma pool_wf_not_growing: "pool_wf st \<Longrightarrow> \<not> growing st"
  by (simp add: pool_wf_def)

lemma handoff_start_wf_state:
  "pool_wf st \<Longrightarrow> fst (snd (handoff_start max_size now fd g st)) =
    (case try_pop_ready st of Some (_, st1) \<Rightarrow> st1 | None \<Rightarrow> st)"
  by (auto simp: handoff_start_state split: option.split)

text \<open>A dispatcher changes the pool by at most one \<open>try_pop_ready\<close>.\<close>

definition dispatch_step :: "'st pool_state \<Rightarrow> 'st pool_state \<Rightarrow> bool" where
  "dispatch_step st st' \<longleftrightarrow> st' = st \<or> (\<exists>stream. try_pop_ready st = Some (stream, st'))"

lemma dispatch_stepE:
  assumes "dispatch_step st st'"
  obtains "st' = st" | stream where "try_pop_ready st = Some (stream, st')"
  using assms unfolding dispatch_step_def by blast

lemma handoff_is_dispatch:
  "pool_wf st \<Longrightarrow> dispatch_step st (fst (snd (handoff_start max_size now fd g st)))"
  by (auto simp: dispatch_step_def handoff_start_wf_state split: option.split)

lemma wake_is_dispatch: "dispatch_step st (snd (handoff_wake w pc st))"
  using handoff_wake_state[of w pc st] by (auto simp: dispatch_step_def)

lemma dispatch_wf: "dispatch_step st st' \<Longrightarrow> pool_wf st \<Longrightarrow> pool_wf st'"
  by (erule dispatch_stepE) (auto dest: pop_wf)

lemma dispatch_counter: "dispatch_step st st' \<Longrightarrow> slot_id_counter st' = slot_id_counter st"
  by (erule dispatch_stepE) auto

end
