(* ===== verification/Pool_Props.thy ===== *)
theory Pool_Props
  imports Pool_Events
begin

text \<open>
  What the pool guarantees under every interleaving of its tasks, and how far its
  size gates reach.
\<close>

section \<open>One event\<close>

fun is_accept :: "'st pool_event \<Rightarrow> bool" where
  "is_accept (E_Accept _ (Accepted _)) = True"
| "is_accept _ = False"

lemma accept_turn_cases:
  "accept_loop_turn now r st = (st, []) \<or> (\<exists>stream. r = Accepted stream \<and>
     accept_loop_turn now r st = accept_slot now stream st)"
  by (cases r) auto

lemma event_wf:
  assumes "pool_wf st" and "is_accept e \<Longrightarrow> ids_left st"
  shows "pool_wf (fst (pool_exec e st))"
proof (cases e)
  case (E_Accept now r)
  then show ?thesis using assms by (cases r) (auto simp: accept_wf)
next
  case (E_Handoff max_size now fd g)
  then show ?thesis using assms handoff_is_dispatch dispatch_wf by fastforce
next
  case (E_Wake w pc)
  then show ?thesis using assms wake_is_dispatch dispatch_wf by fastforce
qed (use assms in \<open>auto simp: reader_wf reap_once_def sighup_reconcile_def drain_all_wf
      watchdog_ack ack_wf\<close>)

lemma event_counter:
  assumes "pool_wf st"
  shows "slot_id_counter (fst (pool_exec e st)) = slot_id_counter st + (if is_accept e then 1 else 0)"
proof (cases e)
  case (E_Accept now r)
  then show ?thesis by (cases r) auto
next
  case (E_Handoff max_size now fd g)
  then show ?thesis using dispatch_counter[OF handoff_is_dispatch[OF assms]] by simp
next
  case (E_Wake w pc)
  then show ?thesis using dispatch_counter[OF wake_is_dispatch] by simp
qed (simp_all add: reap_once_def sighup_reconcile_def)

text \<open>Where an event can take a slot: only along the life cycle.\<close>

lemma dispatch_where:
  assumes "dispatch_step st st'" "pool_wf st"
  shows "where_is st' k = where_is st k \<or> where_is st k = Some In_Ready \<and> where_is st' k = Some In_Flight"
  using assms(1)
proof (cases rule: dispatch_stepE)
  case (2 stream)
  then have "ready_ids st \<noteq> []" using pop_None by (metis option.distinct(1))
  then have "where_is st (hd (ready_ids st)) = Some In_Ready"
    using assms(2) queue_loc by fastforce
  then show ?thesis using pop_where[OF assms(2) 2] by auto
qed simp

lemma slot_reader_turn_where:
  assumes "pool_wf st"
  shows "k \<noteq> sid \<Longrightarrow> where_is (fst (snd (slot_reader_turn now sid r st))) k = where_is st k"
  using assms by (auto simp: slot_reader_turn_def on_ready_where ack_where split: sum.split)

lemma reader_where:
  assumes "pool_wf st" and "slot_reader_wrapper_turn now sid stream r st = (go, st', es)"
  shows "where_is st' = (if go then where_is (fst (on_ready now sid st)) else (where_is st)(sid := None))"
proof (cases r)
  case None
  then show ?thesis using assms cleanup_where[OF assms(1), of sid stream]
    by (auto simp: slot_reader_wrapper_turn_def)
next
  case (Some x)
  let ?t = "slot_reader_turn now sid x st"
  show ?thesis
  proof (cases "fst ?t")
    case True
    then have "?t = (True, on_ready now sid st)"
      by (auto simp: slot_reader_turn_def split: sum.splits if_splits)
    then show ?thesis using assms(2) Some by (auto simp: slot_reader_wrapper_turn_def Let_def split_def)
  next
    case False
    have "where_is st' = (where_is (fst (snd ?t)))(sid := None)"
      using assms Some False cleanup_where[OF slot_reader_turn_wf[OF assms(1)], where sid1 = sid]
      by (auto simp: slot_reader_wrapper_turn_def Let_def split_def)
    then show ?thesis using assms Some False slot_reader_turn_where[OF assms(1)]
      by (auto simp: slot_reader_wrapper_turn_def Let_def split_def fun_eq_iff)
  qed
qed

lemma event_legal:
  assumes wf: "pool_wf st"
  shows "legal_move (where_is st k) (where_is (fst (pool_exec e st)) k)"
proof (cases e)
  case (E_Accept now r)
  then show ?thesis using wf by (cases r) (auto simp: accept_where wf_fresh)
next
  case (E_Reader now sid stream r)
  obtain go st' es where t: "slot_reader_wrapper_turn now sid stream r st = (go, st', es)"
    by (metis prod_cases3)
  then show ?thesis using reader_where[OF wf t] wf E_Reader by (auto simp: on_ready_where)
next
  case (E_Handoff max_size now fd g)
  then show ?thesis using dispatch_where[OF handoff_is_dispatch[OF wf] wf, of max_size now fd g k] by auto
next
  case (E_Wake w pc)
  then show ?thesis using dispatch_where[OF wake_is_dispatch wf, of w pc k] by auto
qed (use wf in \<open>auto simp: reap_once_def sighup_reconcile_def drain_all_where watchdog_ack ack_where\<close>)

section \<open>Runs\<close>

definition accepts :: "'st pool_event list \<Rightarrow> nat" where
  "accepts es = length (filter is_accept es)"

lemma pool_new_wf [simp]: "pool_wf pool_new"
  by (simp add: pool_simps pool_new_def)

lemma run_wf:
  assumes "pool_wf st" and "unat (slot_id_counter st) + accepts es < 2 ^ 64"
  shows "pool_wf (fst (pool_run es st))
       \<and> unat (slot_id_counter (fst (pool_run es st))) = unat (slot_id_counter st) + accepts es"
  using assms
proof (induction es arbitrary: st)
  case (Cons e es)
  let ?st = "fst (pool_exec e st)"
  have left: "is_accept e \<Longrightarrow> ids_left st" using Cons.prems by (simp add: accepts_def ids_left_def)
  have wf: "pool_wf ?st" using event_wf[OF Cons.prems(1) left] .
  have c: "unat (slot_id_counter ?st) = unat (slot_id_counter st) + (if is_accept e then 1 else 0)"
  proof (cases "is_accept e")
    case True
    then show ?thesis using event_counter[OF Cons.prems(1), of e] left
      by (simp add: ids_left_def unat_word_ariths)
  qed (simp add: event_counter[OF Cons.prems(1), of e])
  then have "unat (slot_id_counter ?st) + accepts es < 2 ^ 64"
    using Cons.prems by (simp add: accepts_def split: if_splits)
  from Cons.IH[OF wf this] c show ?case by (simp add: split_def Let_def accepts_def)
qed (simp add: accepts_def)

lemma run_legal_step:
  assumes "pool_wf st" and "unat (slot_id_counter st) + accepts (e # es) < 2 ^ 64"
  shows "pool_wf (fst (pool_exec e st))"
    and "unat (slot_id_counter (fst (pool_exec e st))) + accepts es < 2 ^ 64"
    and "slot_id_counter st \<le> slot_id_counter (fst (pool_exec e st))"
proof -
  have a: "accepts (e # es) = accepts [e] + accepts es" by (simp add: accepts_def)
  have "pool_wf (fst (pool_run [e] st))
      \<and> unat (slot_id_counter (fst (pool_run [e] st))) = unat (slot_id_counter st) + accepts [e]"
    using assms a by (intro run_wf) auto
  then show "pool_wf (fst (pool_exec e st))"
    "unat (slot_id_counter (fst (pool_exec e st))) + accepts es < 2 ^ 64"
    "slot_id_counter st \<le> slot_id_counter (fst (pool_exec e st))"
    using assms(2) a by (auto simp: split_def Let_def word_le_nat_alt)
qed

text \<open>A set of places closed under the life cycle is never left.\<close>

lemma run_closed:
  assumes "pool_wf st" "unat (slot_id_counter st) + accepts es < 2 ^ 64"
    and closed: "\<And>a b. a \<in> S \<Longrightarrow> legal_move a b \<Longrightarrow> b \<in> S"
    and "where_is st k \<in> S"
  shows "where_is (fst (pool_run es st)) k \<in> S"
  using assms(1,2,4)
proof (induction es arbitrary: st)
  case (Cons e es)
  note next_st = run_legal_step[OF Cons.prems(1,2)]
  have "where_is (fst (pool_exec e st)) k \<in> S"
    using closed[OF Cons.prems(3) event_legal[OF Cons.prems(1)]] .
  from Cons.IH[OF next_st(1,2) this] show ?case by (simp add: split_def Let_def)
qed simp

lemma event_gone:
  assumes "pool_wf st" "k < slot_id_counter st" "where_is st k = None"
  shows "where_is (fst (pool_exec e st)) k = None"
proof (cases "is_accept e")
  case True
  then obtain now stream where "e = E_Accept now (Accepted stream)" by (cases e rule: is_accept.cases) auto
  then show ?thesis using assms by (auto simp: accept_where)
next
  case False
  have "where_is (fst (pool_exec e st)) k = None \<or> where_is (fst (pool_exec e st)) k = Some In_Flight"
    using event_legal[OF assms(1), of k e] assms(3)
    by (cases "where_is (fst (pool_exec e st)) k"; cases "the (where_is (fst (pool_exec e st)) k)") auto
  moreover have "where_is (fst (pool_exec e st)) k \<noteq> Some In_Flight"
  proof (cases e)
    case (E_Accept now r)
    then show ?thesis using False assms by (cases r) auto
  next
    case (E_Reader now sid stream r)
    obtain go st' es where t: "slot_reader_wrapper_turn now sid stream r st = (go, st', es)"
      by (metis prod_cases3)
    then show ?thesis using reader_where[OF assms(1) t] assms E_Reader by (auto simp: on_ready_where)
  next
    case (E_Handoff max_size now fd g)
    then show ?thesis
      using dispatch_where[OF handoff_is_dispatch[OF assms(1)] assms(1), of max_size now fd g k] assms(3)
      by auto
  next
    case (E_Wake w pc)
    then show ?thesis using dispatch_where[OF wake_is_dispatch assms(1), of w pc k] assms(3) by auto
  qed (use assms in \<open>auto simp: reap_once_def sighup_reconcile_def drain_all_where watchdog_ack ack_where\<close>)
  ultimately show ?thesis by blast
qed

lemma run_gone:
  assumes "pool_wf st" and "unat (slot_id_counter st) + accepts es < 2 ^ 64"
    and "k < slot_id_counter st" and "where_is st k = None"
  shows "where_is (fst (pool_run es st)) k = None"
  using assms
proof (induction es arbitrary: st)
  case (Cons e es)
  note next_st = run_legal_step[OF Cons.prems(1,2)]
  have "where_is (fst (pool_exec e st)) k = None"
    using event_gone[OF Cons.prems(1,3,4)] .
  moreover have "k < slot_id_counter (fst (pool_exec e st))"
    using Cons.prems(3) next_st(3) by (rule less_le_trans)
  ultimately show ?case using Cons.IH[OF next_st(1,2)] by (simp add: split_def Let_def)
qed simp

lemma where_is_issued: "pool_wf st \<Longrightarrow> where_is st k = Some l \<Longrightarrow> k < slot_id_counter st"
  by (auto simp: pool_simps split: if_splits)

lemma run_draining:
  assumes "pool_wf st" and "unat (slot_id_counter st) + accepts es < 2 ^ 64"
    and "k < slot_id_counter st" and "where_is st k = Some In_Draining"
  shows "where_is (fst (pool_run es st)) k \<in> {Some In_Draining, None}"
  using assms
proof (induction es arbitrary: st)
  case (Cons e es)
  note next_st = run_legal_step[OF Cons.prems(1,2)]
  let ?st = "fst (pool_exec e st)"
  have k': "k < slot_id_counter ?st" using Cons.prems(3) next_st(3) by (rule less_le_trans)
  have "where_is ?st k = Some In_Draining \<or> where_is ?st k = None"
    using event_legal[OF Cons.prems(1), of k e] Cons.prems(4) legal_move_from_draining by auto
  then show ?case
    using Cons.IH[OF next_st(1,2) k'] run_gone[OF next_st(1,2) k'] by (auto simp: split_def Let_def)
qed simp

section \<open>Order of service\<close>

text \<open>The clock of the reader tasks is monotonic: each reading is at least the one before.\<close>

fun clock_from :: "instant \<Rightarrow> 'st pool_event list \<Rightarrow> bool" where
  "clock_from t [] = True"
| "clock_from t (E_Reader now _ _ _ # es) \<longleftrightarrow> t \<le> now \<and> clock_from now es"
| "clock_from t (_ # es) \<longleftrightarrow> clock_from t es"

fun event_clock :: "instant \<Rightarrow> 'st pool_event \<Rightarrow> instant" where
  "event_clock t (E_Reader now _ _ _) = now"
| "event_clock t _ = t"

lemma clock_from_Cons:
  "clock_from t (e # es) \<longleftrightarrow> t \<le> event_clock t e \<and> clock_from (event_clock t e) es"
  by (cases e) auto

definition stamps :: "'st pool_state \<Rightarrow> instant list" where
  "stamps st = map (\<lambda>p. sp_last_ready_at (snd p)) (ready st)"

definition aged :: "instant \<Rightarrow> 'st pool_state \<Rightarrow> bool" where
  "aged t st \<longleftrightarrow> sorted (stamps st) \<and> (\<forall>a \<in> set (stamps st). a \<le> t)"

lemma aged_filter:
  assumes "aged t st" "t \<le> t'" "ready st' = filter P (ready st)"
  shows "aged t' st'"
  using assms by (auto simp: aged_def stamps_def sorted_map sorted_wrt_filter)

lemma aged_same:
  assumes "aged t st" "t \<le> t'" "ready st' = ready st"
  shows "aged t' st'"
  using assms by (auto simp: aged_def stamps_def)

lemma drain_ready: "\<exists>P. ready (fst (request_drain ok sid st)) = filter P (ready st)"
  by (auto simp: request_drain_def shift_remove_def AList.delete_eq split: option.split
      intro: exI[of _ "\<lambda>_. True"])

lemma drain_all_ready: "\<exists>P. ready (fst (drain_all ok sids st)) = filter P (ready st)"
proof (induction sids arbitrary: st)
  case (Cons sid sids)
  obtain P where P: "ready (fst (request_drain (ok sid) sid st)) = filter P (ready st)"
    using drain_ready by blast
  from Cons.IH[of "fst (request_drain (ok sid) sid st)"] P show ?case
    by (auto simp: split_def Let_def)
qed (auto intro: exI[of _ "\<lambda>_. True"])

lemma cleanup_ready: "\<exists>P. ready (fst (cleanup_orphaned sid stream st)) = filter P (ready st)"
  by (auto simp: cleanup_orphaned_def shift_remove_def AList.delete_eq split: option.split
      intro: exI[of _ "\<lambda>_. True"])

lemma ack_ready [simp]: "ready (on_drain_ack sid st) = ready st"
  by (auto simp: on_drain_ack_def split: option.split)

lemma watchdog_ready [simp]: "ready (fst (watchdog_fire sid stream st)) = ready st"
  by (simp add: watchdog_ack)

lemma accept_ready [simp]: "ready (fst (accept_loop_turn now r st)) = ready st"
  by (cases r) (simp_all add: accept_slot_def next_slot_id_def Let_def)

lemma aged_on_ready:
  assumes "pool_wf st" "aged t st" "t \<le> now"
  shows "aged now (fst (on_ready now sid st))"
proof (rule shift_remove_cases[of sid "in_flight st"])
  assume "shift_remove sid (in_flight st) = None"
  then show ?thesis using aged_same[OF assms(2,3)] by (simp add: on_ready_def)
next
  fix p assume a: "sid \<in> set (keys (in_flight st))"
    "shift_remove sid (in_flight st) = Some (p, AList.delete sid (in_flight st))"
  then have "sid \<notin> set (keys (ready st))" using assms(1) by (auto simp: pool_simps)
  then have "stamps (fst (on_ready now sid st)) = stamps st @ [now]"
    using a(2) by (simp add: on_ready_def stamps_def keys_update_fresh)
  then show ?thesis using assms(2,3) by (auto simp: aged_def sorted_append)
qed

lemma aged_dispatch:
  assumes "dispatch_step st st'" "aged t st"
  shows "aged t st'"
  using assms(1)
proof (cases rule: dispatch_stepE)
  case (2 stream)
  then show ?thesis using assms(2)
    by (cases "ready st") (auto simp: try_pop_ready_def aged_def stamps_def)
qed (use assms in simp)

lemma aged_reader:
  assumes "pool_wf st" "aged t st" "t \<le> now"
  shows "aged now (fst (snd (slot_reader_wrapper_turn now sid stream r st)))"
proof -
  have 1: "aged now (fst (cleanup_orphaned sid stream st1))" if "aged t1 st1" "t1 \<le> now" for st1 t1
    using cleanup_ready[of sid stream st1] aged_filter[OF that] by metis
  have 2: "aged now (fst (snd (slot_reader_turn now sid x st)))" for x
    using aged_on_ready[OF assms] aged_same[OF assms(2,3)] by (auto simp: slot_reader_turn_def split: sum.split)
  show ?thesis using 1[OF assms(2,3)] 1[OF 2] 2
    by (auto simp: slot_reader_wrapper_turn_def Let_def split_def split: option.split)
qed

lemma event_aged:
  assumes "pool_wf st" "aged t st" "t \<le> event_clock t e"
  shows "aged (event_clock t e) (fst (pool_exec e st))"
proof (cases e)
  case (E_Accept now r)
  then show ?thesis using assms aged_same by fastforce
next
  case (E_Reader now sid stream r)
  then show ?thesis using assms aged_reader by simp
next
  case (E_Handoff max_size now fd g)
  then show ?thesis using assms aged_dispatch[OF handoff_is_dispatch[OF assms(1)]] by simp
next
  case (E_Wake w pc)
  then show ?thesis using assms aged_dispatch[OF wake_is_dispatch] by simp
next
  case (E_Reap now ok)
  then show ?thesis using assms drain_all_ready[of ok "reap_victims now st" st] aged_filter[OF assms(2,3)]
    by (auto simp: reap_once_def)
next
  case (E_Sighup max_size ok)
  then show ?thesis using assms drain_all_ready[of ok "sighup_victims max_size st" st] aged_filter[OF assms(2,3)]
    by (auto simp: sighup_reconcile_def)
next
  case (E_Watchdog sid stream)
  then show ?thesis using assms aged_same[OF assms(2,3)] by simp
qed

lemma run_aged:
  assumes "pool_wf st" "unat (slot_id_counter st) + accepts es < 2 ^ 64"
    and "aged t st" "clock_from t es"
  shows "\<exists>t'. aged t' (fst (pool_run es st))"
  using assms
proof (induction es arbitrary: st t)
  case (Cons e es)
  note next_st = run_legal_step[OF Cons.prems(1,2)]
  have "aged (event_clock t e) (fst (pool_exec e st))"
    using event_aged[OF Cons.prems(1,3)] Cons.prems(4) clock_from_Cons by blast
  from Cons.IH[OF next_st(1,2) this] Cons.prems(4) show ?case
    by (simp add: split_def Let_def clock_from_Cons)
qed auto

lemma drain_total: "pool_wf st \<Longrightarrow> total (fst (request_drain ok sid st)) = total st"
proof (rule shift_remove_cases[of sid "ready st"])
  fix p assume wf: "pool_wf st" and a: "sid \<in> set (keys (ready st))"
    "shift_remove sid (ready st) = Some (p, AList.delete sid (ready st))"
  have "sid \<notin> set (keys (draining st))" "distinct (keys (ready st))"
    using wf a(1) by (auto simp: pool_simps)
  moreover have "0 < length (ready st)" using a(1) by (cases "ready st") auto
  ultimately show ?thesis
    using a by (simp add: request_drain_def total_def keys_update_fresh length_delete)
qed (simp add: request_drain_def total_def)

lemma drain_all_total: "pool_wf st \<Longrightarrow> total (fst (drain_all ok sids st)) = total st"
  by (induction sids arbitrary: st) (simp_all add: split_def Let_def drain_total drain_wf)

lemma reap_victims_all: "reap_victims now st = reap_candidates now st"
  by (simp add: reap_victims_def MIN_WARM_SLOTS_def Let_def)

lemma reap_candidates_iff:
  assumes "pool_wf st"
  shows "k \<in> set (reap_candidates now st) \<longleftrightarrow>
    (\<exists>p. map_of (ready st) k = Some p \<and> sp_last_ready_at p + 60000 < now)"
proof -
  have "distinct (map fst (ready st))" using assms by (simp add: pool_simps keys_def)
  then have "(k, p) \<in> set (ready st) \<longleftrightarrow> map_of (ready st) k = Some p" for p by simp
  moreover have "k \<in> set (reap_candidates now st) \<longleftrightarrow>
      (\<exists>p. (k, p) \<in> set (ready st) \<and> sp_last_ready_at p + 60000 < now)"
    unfolding reap_candidates_def IDLE_REAP_AFTER_def by force
  ultimately show ?thesis by simp
qed

lemma pool_new_fields [simp]:
  "slot_id_counter pool_new = 0" "ready pool_new = []" "in_flight pool_new = []"
  "draining pool_new = []" "growing pool_new = False"
  by (simp_all add: pool_new_def)

lemma pool_new_aged: "aged t pool_new"
  by (simp add: aged_def stamps_def)

lemma filter_notin_take:
  assumes "distinct xs"
  shows "filter (\<lambda>k. k \<notin> set (take n xs)) xs = drop n xs"
proof -
  let ?P = "\<lambda>k. k \<notin> set (take n xs)"
  have "filter ?P (take n xs) = []" by (simp add: filter_empty_conv)
  moreover have "filter ?P (drop n xs) = drop n xs"
    using set_take_disj_set_drop_if_distinct[OF assms, of n n] by (auto intro: filter_True)
  ultimately show ?thesis by (metis append_Nil append_take_drop_id filter_append)
qed

lemma reader_go_iff:
  "slot_reader_wrapper_turn now sid stream r st = (go, st', fs) \<Longrightarrow> go \<longleftrightarrow> r = Some (Inr OP_READY)"
  by (auto simp: slot_reader_wrapper_turn_def slot_reader_turn_def Let_def split_def
      split: option.splits sum.splits if_splits)

section \<open>Properties\<close>

text \<open>C5. The pool is well-formed after every sequence of events from an empty pool (fewer than
  \<open>2 ^ 64\<close> accepted slots): no slot is in two containers or twice in one, every peer is stored
  under its own id, every id was issued by the counter, and the grow flag is down.\<close>

theorem pool_run_invariant:
  assumes "accepts es < 2 ^ 64"
  shows "pool_wf (fst (pool_run es pool_new))"
  using run_wf[of pool_new es] assms by simp

text \<open>A run for the witnesses: two slots connect and report ready, a client is handed off.\<close>

definition demo_run :: "nat pool_event list" where
  "demo_run = [E_Accept 5 (Accepted 7), E_Accept 6 (Accepted 8),
    E_Reader 10 0 7 (Some (Inr OP_READY)), E_Reader 20 1 8 (Some (Inr OP_READY)),
    E_Handoff 4 30 99 Grow_Ok]"

lemma demo_run_eval:
  "fst (pool_run demo_run pool_new) =
    \<lparr>ready = [(1, \<lparr>sp_slot_id = 1, sp_stream = 8, sp_last_ready_at = 20\<rparr>)],
     in_flight = [(0, \<lparr>sp_slot_id = 0, sp_stream = 7, sp_last_ready_at = 10\<rparr>)],
     draining = [], slot_id_counter = 2, growing = False\<rparr>"
  by (simp add: demo_run_def accept_slot_def next_slot_id_def Let_def split_def pool_new_def
      slot_reader_wrapper_turn_def slot_reader_turn_def on_ready_def shift_remove_def
      handoff_start_def try_pop_ready_def)

lemma demo_run_accepts: "accepts demo_run = 2"
  by (simp add: demo_run_def accepts_def)

theorem pool_run_invariant_witness: "pool_wf (fst (pool_run demo_run pool_new))"
  using pool_run_invariant[of demo_run] by (simp add: demo_run_accepts)

text \<open>C10. A slot id that was issued and has left the pool never comes back, whatever happens
  afterwards: ids are not reused, so a late byte, acknowledgement or watchdog of a dead slot can
  never act on another slot.\<close>

theorem gone_slot_never_returns:
  assumes "pool_wf st" and "unat (slot_id_counter st) + accepts es < 2 ^ 64"
    and "k < slot_id_counter st" and "where_is st k = None"
  shows "where_is (fst (pool_run es st)) k = None"
  using assms by (rule run_gone)

definition demo_gone :: "nat pool_state" where
  "demo_gone = \<lparr>ready = [], in_flight = [], draining = [], slot_id_counter = 3, growing = False\<rparr>"

theorem gone_slot_never_returns_witness:
  "where_is (fst (pool_run demo_run demo_gone)) 1 = None"
  by (rule gone_slot_never_returns)
    (simp_all add: demo_gone_def demo_run_accepts pool_simps)

text \<open>C11. Draining is final: once a drain was requested the slot is never ready or in flight
  again, so no dispatcher can hand a client to it; it can only stay draining or leave.\<close>

theorem draining_is_final:
  assumes "pool_wf st" and "unat (slot_id_counter st) + accepts es < 2 ^ 64"
    and "where_is st k = Some In_Draining"
  shows "where_is (fst (pool_run es st)) k \<in> {Some In_Draining, None}"
  using run_draining[OF assms(1,2) where_is_issued[OF assms(1,3)] assms(3)] .

definition demo_draining :: "nat pool_state" where
  "demo_draining = \<lparr>ready = [], in_flight = [],
     draining = [(0, \<lparr>sp_slot_id = 0, sp_stream = 7, sp_last_ready_at = 1\<rparr>)],
     slot_id_counter = 3, growing = False\<rparr>"

theorem draining_is_final_witness:
  "where_is (fst (pool_run [E_Reader 9 0 7 (Some (Inr OP_READY))] demo_draining)) 0
     \<in> {Some In_Draining, None}"
  by (rule draining_is_final)
    (simp_all add: demo_draining_def pool_simps accepts_def)



text \<open>The grow gate: on a well-formed pool a dispatcher starts a worker exactly when no slot is
  ready and the connected slots are below the ceiling (the grow flag never blocks it), and on every
  outcome, a panic of the spawn included, the flag is down again and no slot has moved.\<close>

theorem handoff_grow_gate:
  assumes "pool_wf st" and "handoff_start max_size now fd g st = (pc, st', fs)"
  shows "(Load_Dynamic \<in> set fs \<longleftrightarrow> ready st = [] \<and> total st < unat max_size \<and> g = Grow_Ok)
       \<and> \<not> growing st' \<and> (ready st = [] \<longrightarrow> st' = st)
       \<and> (pc = H_Panicked \<longleftrightarrow> ready st = [] \<and> total st < unat max_size \<and> g = Grow_Panic)"
proof (cases "ready st")
  case Nil
  then show ?thesis using assms pool_wf_growing[OF assms(1)] pool_wf_not_growing[OF assms(1)]
    by (cases g) (auto simp: handoff_start_def try_pop_ready_def should_grow_def grow_guard_drop_def
        grow_one_def Let_def split: if_splits)
next
  case (Cons x xs)
  then show ?thesis using assms
    by (cases x) (auto simp: handoff_start_def try_pop_ready_def pool_wf_def)
qed

theorem handoff_grow_gate_witness:
  "handoff_start 1 0 99 Grow_Panic (pool_new :: nat pool_state) = (H_Panicked, pool_new, [])
     \<and> \<not> growing (pool_new :: nat pool_state)"
proof -
  have r: "handoff_start 1 0 99 Grow_Panic (pool_new :: nat pool_state) = (H_Panicked, pool_new, [])"
    by (simp add: handoff_start_def try_pop_ready_def should_grow_def grow_guard_drop_def
        grow_one_def Let_def total_def)
  from handoff_grow_gate[OF pool_new_wf r] r show ?thesis by simp
qed

text \<open>C13. The ceiling is not a bound on the pool: the gate counts connected slots only and the flag
  is cleared before the dispatcher first waits, so a burst of \<open>n\<close> clients on an empty pool starts
  \<open>n\<close> workers whatever the ceiling, and once they connect the pool holds \<open>n\<close> slots.\<close>

theorem burst_grows_past_ceiling:
  assumes "0 < unat max_size" and "length fds = length (streams :: 'st list)" and "length streams < 2 ^ 64"
  shows "snd (pool_run (map (\<lambda>fd. E_Handoff max_size now fd Grow_Ok) fds) (pool_new :: 'st pool_state))
           = replicate (length fds) Load_Dynamic
       \<and> total (fst (pool_run (map (\<lambda>fd. E_Handoff max_size now fd Grow_Ok) fds
                               @ map (\<lambda>s. E_Accept now (Accepted s)) streams) pool_new))
           = length fds"
proof -
  have 1: "pool_run (map (\<lambda>fd. E_Handoff max_size now fd Grow_Ok) fds) (pool_new :: 'st pool_state)
      = (pool_new, replicate (length fds) Load_Dynamic)" for fds
    using assms(1)
    by (induction fds) (simp_all add: handoff_start_def try_pop_ready_def should_grow_def
        grow_guard_drop_def grow_one_def Let_def split_def total_def pool_new_def)
  have 2: "total (fst (pool_run (map (\<lambda>s. E_Accept now (Accepted s)) streams) st)) = total st + length streams"
    if "pool_wf st" "unat (slot_id_counter st) + length streams < 2 ^ 64" for st :: "'st pool_state"
    using that
  proof (induction streams arbitrary: st)
    case (Cons s streams)
    let ?st = "fst (accept_slot now s st)"
    have left: "ids_left st" using Cons.prems(2) by (simp add: ids_left_def)
    have "slot_id_counter st \<notin> set (keys (in_flight st))" using Cons.prems(1) by (auto simp: pool_simps)
    then have "total ?st = Suc (total st)"
      by (simp add: accept_slot_def next_slot_id_def Let_def total_def keys_update_fresh)
    moreover have "unat (slot_id_counter ?st) = unat (slot_id_counter st) + 1"
      using left by (simp add: ids_left_def unat_word_ariths)
    ultimately show ?case
      using Cons.IH[OF accept_wf[OF Cons.prems(1) left, of now s]] Cons.prems(2) by (simp add: split_def Let_def)
  qed simp
  show ?thesis
    using 1 2[OF pool_new_wf] assms(2,3) by (simp add: pool_run_append split_def Let_def total_def)
qed

theorem burst_grows_past_ceiling_witness:
  "snd (pool_run (map (\<lambda>fd. E_Handoff 1 0 fd Grow_Ok) [5, 6, 7]) (pool_new :: nat pool_state))
      = replicate (length [5, 6, 7 :: raw_fd]) Load_Dynamic
   \<and> total (fst (pool_run (map (\<lambda>fd. E_Handoff 1 0 fd Grow_Ok) [5, 6, 7]
                           @ map (\<lambda>s. E_Accept 0 (Accepted s)) [10, 11, 12 :: nat]) pool_new))
      = length [5, 6, 7 :: raw_fd]"
  by (rule burst_grows_past_ceiling) simp_all

text \<open>One round of the reaper drains exactly the slots that have been ready for more than 60
  seconds by the current reading: the others keep their place in the queue, no slot that is serving
  a client is touched, and the drained ones stay counted until they acknowledge.\<close>

theorem reap_once_spec:
  assumes "pool_wf st" and "reap_once now ok st = (st', fs)"
  shows "ready_ids st' = filter (\<lambda>k. k \<notin> set (reap_candidates now st)) (ready_ids st)
    \<and> (\<forall>k. where_is st' k = (if k \<in> set (reap_candidates now st) then Some In_Draining else where_is st k))
    \<and> (\<forall>k. k \<in> set (reap_candidates now st) \<longleftrightarrow>
           (\<exists>p. map_of (ready st) k = Some p \<and> sp_last_ready_at p + 60000 < now))
    \<and> total st' = total st"
proof -
  have st': "st' = fst (drain_all ok (reap_candidates now st) st)"
    using assms(2) by (simp add: reap_once_def reap_victims_all)
  have cand: "k \<in> set (reap_candidates now st) \<longleftrightarrow>
      (\<exists>p. map_of (ready st) k = Some p \<and> sp_last_ready_at p + 60000 < now)" for k
    by (rule reap_candidates_iff[OF assms(1)])
  have "where_is st k = Some In_Ready" if k: "k \<in> set (reap_candidates now st)" for k
  proof -
    obtain p where "map_of (ready st) k = Some p" using k cand[of k] by blast
    from map_of_Some_keys[OF this] show ?thesis by (simp add: where_is_def)
  qed
  then have "where_is st' k =
      (if k \<in> set (reap_candidates now st) then Some In_Draining else where_is st k)" for k
    using drain_all_where[OF assms(1), of ok "reap_candidates now st" k] by (simp add: st')
  moreover have "total st' = total st" using drain_all_total[OF assms(1)] by (simp add: st')
  moreover have "ready_ids st' = filter (\<lambda>k. k \<notin> set (reap_candidates now st)) (ready_ids st)"
    by (simp add: st' drain_all_queue)
  ultimately show ?thesis using cand by blast
qed

theorem reap_once_spec_witness:
  "\<exists>st' fs. reap_once 70000 (\<lambda>_. True) (fst (pool_run demo_run pool_new)) = (st', fs)
     \<and> ready_ids st' = []"
proof -
  let ?st = "fst (pool_run demo_run pool_new)"
  obtain st' fs where r: "reap_once 70000 (\<lambda>_. True) ?st = (st', fs)" by fastforce
  have "pool_wf ?st" by (simp add: demo_run_eval pool_simps)
  from reap_once_spec[OF this r] have "ready_ids st' = []"
    by (simp add: demo_run_eval reap_candidates_def ready_ids_def IDLE_REAP_AFTER_def)
  then show ?thesis using r by blast
qed

text \<open>C14. Lowering the ceiling: SIGHUP drains idle slots, oldest first, as many as exceed the new
  ceiling and no busy one; what is left of the connected slots without the ones it drains is either
  within the ceiling or all busy or already draining.\<close>

theorem sighup_reconcile_spec:
  assumes "pool_wf st" and "sighup_reconcile max_size ok st = (st', fs)"
  shows "ready_ids st' = drop (total st - unat max_size) (ready_ids st)
    \<and> (\<forall>k. where_is st k = Some In_Flight \<longrightarrow> where_is st' k = Some In_Flight)
    \<and> total st' = total st
    \<and> (ready_ids st' = [] \<or> total st' - (length (ready_ids st) - length (ready_ids st')) \<le> unat max_size)"
proof -
  let ?v = "take (total st - unat max_size) (ready_ids st)"
  have v: "sighup_victims max_size st = ?v" by (auto simp: sighup_victims_def ready_ids_def)
  have dist: "distinct (ready_ids st)" using queue_distinct[OF assms(1)] .
  have st': "st' = fst (drain_all ok ?v st)" using assms(2) by (simp add: sighup_reconcile_def v)
  have q: "ready_ids st' = drop (total st - unat max_size) (ready_ids st)"
    using dist by (simp add: st' drain_all_queue filter_notin_take)
  moreover have "total st' = total st" using drain_all_total[OF assms(1)] by (simp add: st')
  moreover have "where_is st' k = Some In_Flight" if "where_is st k = Some In_Flight" for k
    using that drain_all_where[OF assms(1), of ok ?v k] by (simp add: st')
  ultimately show ?thesis by auto
qed

definition demo_three_idle :: "nat pool_state" where
  "demo_three_idle = \<lparr>
     ready = [(2, \<lparr>sp_slot_id = 2, sp_stream = 7, sp_last_ready_at = 1\<rparr>),
              (0, \<lparr>sp_slot_id = 0, sp_stream = 8, sp_last_ready_at = 2\<rparr>)],
     in_flight = [(1, \<lparr>sp_slot_id = 1, sp_stream = 9, sp_last_ready_at = 1\<rparr>)],
     draining = [], slot_id_counter = 3, growing = False\<rparr>"

theorem sighup_reconcile_spec_witness:
  "\<exists>st' fs. sighup_reconcile 2 (\<lambda>_. True) demo_three_idle = (st', fs) \<and> ready_ids st' = [0]"
proof -
  obtain st' fs where r: "sighup_reconcile 2 (\<lambda>_. True) demo_three_idle = (st', fs)" by fastforce
  have "pool_wf demo_three_idle" by (simp add: demo_three_idle_def pool_simps)
  from sighup_reconcile_spec[OF this r] have "ready_ids st' = [0]"
    by (simp add: demo_three_idle_def ready_ids_def total_def)
  then show ?thesis using r by blast
qed

text \<open>C15. A reader that stops, on end of file, an error, an acknowledgement, an invalid opcode or a
  panic, leaves its slot in no container and shuts the socket down last; a reader that goes on has
  read the ready opcode, and touches no other slot.\<close>

theorem reader_exit_cleans_up:
  assumes "pool_wf st" and "slot_reader_wrapper_turn now sid stream r st = (go, st', fs)"
  shows "(go \<longleftrightarrow> r = Some (Inr OP_READY))
    \<and> (\<not> go \<longrightarrow> where_is st' = (where_is st)(sid := None) \<and> last fs = Shutdown_RDWR stream)
    \<and> (go \<longrightarrow> where_is st' = (if where_is st sid = Some In_Flight
                               then (where_is st)(sid \<mapsto> In_Ready) else where_is st))"
proof -
  have "last (fs1 @ snd (cleanup_orphaned sid stream st1)) = Shutdown_RDWR stream" for st1 fs1
    by (auto simp: cleanup_orphaned_def split: option.split)
  moreover from this[where ?fs1.0 = "[]"]
  have "last (snd (cleanup_orphaned sid stream st)) = Shutdown_RDWR stream" by simp
  ultimately have "\<not> go \<Longrightarrow> last fs = Shutdown_RDWR stream"
    using assms(2) by (auto simp: slot_reader_wrapper_turn_def Let_def split_def split: option.splits if_splits)
  moreover have "go \<longleftrightarrow> r = Some (Inr OP_READY)"
    by (rule reader_go_iff[OF assms(2)])
  ultimately show ?thesis using reader_where[OF assms] on_ready_where[OF assms(1)] by auto
qed

theorem reader_exit_cleans_up_witness:
  "\<exists>st' fs. slot_reader_wrapper_turn 50 0 7 None (fst (pool_run demo_run pool_new)) = (False, st', fs)
     \<and> where_is st' 0 = None \<and> last fs = Shutdown_RDWR 7"
proof -
  let ?st = "fst (pool_run demo_run pool_new)"
  obtain st' fs where r: "slot_reader_wrapper_turn 50 0 7 None ?st = (False, st', fs)"
    by (cases "cleanup_orphaned 0 7 ?st") (auto simp: slot_reader_wrapper_turn_def)
  have "pool_wf ?st" by (simp add: demo_run_eval pool_simps)
  from reader_exit_cleans_up[OF this r] have "where_is st' 0 = None \<and> last fs = Shutdown_RDWR 7" by simp
  then show ?thesis using r by blast
qed

end
