(* ===== verification/Slot.thy ===== *)
theory Slot
  imports Fd_Pass
begin

text \<open>
  \<open>backend/slot.rs\<close>: the main loop of a slot worker.  The loop is modelled turn by
  turn over what its environment does: the SIGTERM flag, the outcome of the timed
  receive, the wire session, the PostgreSQL calls of the reset and the outcome of
  the sends.
\<close>

section \<open>Connecting\<close>

text \<open>
  \<open>connect_with_retry\<close>: the list is the outcome of \<open>connect\<close> per attempt; a retry
  sleeps 100 ms.  The second component counts the sleeps.
\<close>

definition MAX_RETRIES :: nat where "MAX_RETRIES = 100"

fun connect_attempts :: "string \<Rightarrow> nat \<Rightarrow> (nat \<Rightarrow> io_error + 'st) \<Rightarrow> nat \<Rightarrow> (io_error + 'st) \<times> nat" where
  "connect_attempts path 0 env attempt =
    (Inl (Other_Kind, ''pg_transport slot: FE listener at '' @ path @ '' never appeared''), 0)"
| "connect_attempts path (Suc left) env attempt =
    (case env attempt of
       Inr s \<Rightarrow> (Inr s, 0)
     | Inl e \<Rightarrow>
         if fst e = Not_Found \<or> fst e = Connection_Refused
         then let (r, sleeps) = connect_attempts path left env (Suc attempt) in (r, Suc sleeps)
         else (Inl e, 0))"

definition connect_with_retry :: "string \<Rightarrow> (nat \<Rightarrow> io_error + 'st) \<Rightarrow> (io_error + 'st) \<times> nat" where
  "connect_with_retry path env = connect_attempts path MAX_RETRIES env 0"

section \<open>The reset between two clients\<close>

datatype reset_call = AbortOutOfAnyTransaction | DropAllPreparedStatements | ResetAllOptions

text \<open>
  Each call returns or raises an error, which unwinds out of the slot (the worker
  exits).  The result is the calls made and whether all of them returned.
\<close>

fun run_calls :: "(reset_call \<Rightarrow> bool) \<Rightarrow> reset_call list \<Rightarrow> reset_call list \<times> bool" where
  "run_calls returns [] = ([], True)"
| "run_calls returns (c # cs) =
    (if returns c then let (done, ok) = run_calls returns cs in (c # done, ok) else ([c], False))"

definition reset_per_handoff_state :: "(reset_call \<Rightarrow> bool) \<Rightarrow> reset_call list \<times> bool" where
  "reset_per_handoff_state returns =
    run_calls returns [AbortOutOfAnyTransaction, DropAllPreparedStatements, ResetAllOptions]"

section \<open>The main loop\<close>

datatype slot_effect =
    Sent_Ready
  | Sent_Drain_Ack
  | Wire_Run raw_fd
  | Reset_Call reset_call
  | Closed_Uds

text \<open>What one turn of the loop meets.\<close>

record turn_env =
  sigterm_received :: bool
  timed_recv :: "(io_error + ctrl_msg) option"   \<comment> \<open>\<open>None\<close>: the 100 ms timeout\<close>
  wire_result :: "string + unit"
  wire_panics :: bool
  reset_returns :: "reset_call \<Rightarrow> bool"
  send_result :: "io_error + unit"

datatype slot_exit = Exit_Ok | Exit_Err string | Exit_Panic

text \<open>One turn: the effects and either the next turn (\<open>None\<close>) or the exit.\<close>

definition slot_turn :: "turn_env \<Rightarrow> slot_effect list \<times> slot_exit option" where
  "slot_turn env =
    (if sigterm_received env then ([], Some Exit_Ok)
     else case timed_recv env of
       None \<Rightarrow> ([], None)
     | Some (Inl e) \<Rightarrow> ([], Some (Exit_Err (''recv_ctrl: '' @ snd e)))
     | Some (Inr (FdHandoff fd)) \<Rightarrow>
         if wire_panics env then ([Wire_Run fd], Some Exit_Panic)
         else (let (calls, ok) = reset_per_handoff_state (reset_returns env);
                   fx = Wire_Run fd # map Reset_Call calls
               in if \<not> ok then (fx, Some Exit_Panic)
                  else case send_result env of
                    Inl e \<Rightarrow> (fx, Some (Exit_Err (''send_ready_byte: '' @ snd e)))
                  | Inr _ \<Rightarrow> (fx @ [Sent_Ready], None))
     | Some (Inr DrainRequest) \<Rightarrow>
         (case send_result env of Inl _ \<Rightarrow> ([], Some Exit_Ok) | Inr _ \<Rightarrow> ([Sent_Drain_Ack], Some Exit_Ok))
     | Some (Inr Ctrl_Eof) \<Rightarrow> ([], Some Exit_Ok))"

text \<open>
  The loop over the turns the environment offers; \<open>None\<close> as exit means the loop is
  still running.  Dropping the stream closes the socket on every exit.
\<close>

fun slot_loop :: "turn_env list \<Rightarrow> slot_effect list \<times> slot_exit option" where
  "slot_loop [] = ([], None)"
| "slot_loop (env # envs) =
    (case slot_turn env of
       (fx, Some x) \<Rightarrow> (fx @ [Closed_Uds], Some x)
     | (fx, None) \<Rightarrow> let (fx', x) = slot_loop envs in (fx @ fx', x))"

text \<open>
  \<open>run_slot\<close>: connect to the frontend's socket at \<open>slot_path\<close>, set up, announce readiness, loop.
  The setup is the calls between them, each of which may fail: the socket's mode, the runtime,
  the TLS acceptor, the registration with the reactor.
\<close>

record boot_env =
  slot_path :: string
  connect_result :: "nat \<Rightarrow> io_error + unit"
  nonblocking_result :: "io_error + unit"
  runtime_result :: "io_error + unit"
  tls_result :: "io_error + unit"
  wrap_result :: "io_error + unit"
  first_ready_result :: "io_error + unit"

definition slot_setup :: "boot_env \<Rightarrow> string + unit" where
  "slot_setup boot =
    (case nonblocking_result boot of
       Inl e \<Rightarrow> Inl (snd e)
     | Inr _ \<Rightarrow> (case runtime_result boot of
         Inl e \<Rightarrow> Inl (''tokio runtime: '' @ snd e)
       | Inr _ \<Rightarrow> (case tls_result boot of
           Inl e \<Rightarrow> Inl (snd e)
         | Inr _ \<Rightarrow> (case wrap_result boot of Inl e \<Rightarrow> Inl (snd e) | Inr _ \<Rightarrow> Inr ()))))"

definition run_slot :: "boot_env \<Rightarrow> turn_env list \<Rightarrow> slot_effect list \<times> slot_exit option" where
  "run_slot boot envs =
    (case fst (connect_with_retry (slot_path boot) (connect_result boot)) of
       Inl e \<Rightarrow> ([], Some (Exit_Err (snd e)))
     | Inr _ \<Rightarrow> (case slot_setup boot of
         Inl e \<Rightarrow> ([Closed_Uds], Some (Exit_Err e))
       | Inr _ \<Rightarrow> (case first_ready_result boot of
           Inl e \<Rightarrow> ([Closed_Uds], Some (Exit_Err (''send_ready_byte: '' @ snd e)))
         | Inr _ \<Rightarrow> let (fx, x) = slot_loop envs in (Sent_Ready # fx, x))))"

section \<open>The protocol of a slot\<close>

text \<open>
  The order of effects a slot owes the frontend and its clients, as an automaton:
  one readiness byte per client at most, and a client only on a session that was
  rolled back, without prepared statements and with default settings.
\<close>

datatype slot_phase =
    P_Boot | P_Idle | P_Dirty | P_Aborted | P_Dropped | P_Clean | P_Acked | P_Closed

fun slot_proto :: "slot_phase \<Rightarrow> slot_effect \<Rightarrow> slot_phase option" where
  "slot_proto P_Boot Sent_Ready = Some P_Idle"
| "slot_proto P_Idle (Wire_Run fd) = Some P_Dirty"
| "slot_proto P_Dirty (Reset_Call AbortOutOfAnyTransaction) = Some P_Aborted"
| "slot_proto P_Aborted (Reset_Call DropAllPreparedStatements) = Some P_Dropped"
| "slot_proto P_Dropped (Reset_Call ResetAllOptions) = Some P_Clean"
| "slot_proto P_Clean Sent_Ready = Some P_Idle"
| "slot_proto P_Idle Sent_Drain_Ack = Some P_Acked"
| "slot_proto P_Closed fx = None"
| "slot_proto ph Closed_Uds = Some P_Closed"
| "slot_proto ph fx = None"

fun proto_run :: "slot_phase \<Rightarrow> slot_effect list \<Rightarrow> slot_phase option" where
  "proto_run ph [] = Some ph"
| "proto_run ph (fx # fxs) = (case slot_proto ph fx of None \<Rightarrow> None | Some ph' \<Rightarrow> proto_run ph' fxs)"

lemma proto_run_append:
  "proto_run ph (fxs @ fxs') =
    (case proto_run ph fxs of None \<Rightarrow> None | Some ph' \<Rightarrow> proto_run ph' fxs')"
  by (induction ph fxs rule: proto_run.induct) (auto split: option.split)

text \<open>One turn keeps the protocol: from idle to idle, or to a phase that can still be closed.\<close>

lemma reset_protocol:
  assumes "reset_per_handoff_state returns = (calls, ok)"
  shows "ok \<Longrightarrow> calls = [AbortOutOfAnyTransaction, DropAllPreparedStatements, ResetAllOptions]"
    and "\<exists>ph. proto_run P_Dirty (map Reset_Call calls) = Some ph \<and> ph \<noteq> P_Closed"
  using assms
  by (auto simp: reset_per_handoff_state_def Let_def split_def split: if_splits)

lemma slot_proto_close [simp]: "ph \<noteq> P_Closed \<Longrightarrow> slot_proto ph Closed_Uds = Some P_Closed"
  by (cases ph) auto

lemma session_protocol:
  assumes "timed_recv env = Some (Inr (FdHandoff fd))" "\<not> sigterm_received env"
    and "slot_turn env = (fx, x)"
  shows "case x of None \<Rightarrow> proto_run P_Idle fx = Some P_Idle
         | Some _ \<Rightarrow> \<exists>ph. proto_run P_Idle fx = Some ph \<and> ph \<noteq> P_Closed"
proof (cases "wire_panics env")
  case True
  then show ?thesis using assms by (auto simp: slot_turn_def)
next
  case False
  obtain calls ok where reset: "reset_per_handoff_state (reset_returns env) = (calls, ok)" by fastforce
  note r = reset_protocol[OF reset]
  obtain ph where ph: "proto_run P_Dirty (map Reset_Call calls) = Some ph" "ph \<noteq> P_Closed"
    using r(2) by blast
  then have ok_ph: "ok \<Longrightarrow> ph = P_Clean" using r(1) by simp
  show ?thesis
    using False assms reset ph ok_ph
    by (cases ok; cases "send_result env") (auto simp: slot_turn_def Let_def proto_run_append)
qed

lemma slot_turn_protocol:
  assumes "slot_turn env = (fx, x)"
  shows "case x of None \<Rightarrow> proto_run P_Idle fx = Some P_Idle
         | Some _ \<Rightarrow> proto_run P_Idle (fx @ [Closed_Uds]) = Some P_Closed"
proof (cases "\<exists>fd. timed_recv env = Some (Inr (FdHandoff fd)) \<and> \<not> sigterm_received env")
  case True
  then obtain fd where "timed_recv env = Some (Inr (FdHandoff fd))" "\<not> sigterm_received env" by blast
  from session_protocol[OF this assms] show ?thesis by (auto simp: proto_run_append split: option.splits)
next
  case False
  then show ?thesis using assms
    by (auto simp: slot_turn_def split: if_splits option.splits sum.splits ctrl_msg.splits)
qed

lemma slot_loop_protocol:
  "slot_loop envs = (fx, x) \<Longrightarrow>
    proto_run P_Idle fx = Some (case x of None \<Rightarrow> P_Idle | Some _ \<Rightarrow> P_Closed)"
proof (induction envs arbitrary: fx x)
  case (Cons env envs)
  obtain fx1 x1 where t: "slot_turn env = (fx1, x1)" by fastforce
  note p = slot_turn_protocol[OF t]
  obtain fx2 x2 where l: "slot_loop envs = (fx2, x2)" by fastforce
  show ?case
    using Cons.prems p t l Cons.IH[OF l] by (cases x1) (auto simp: proto_run_append)
qed simp

section \<open>Properties\<close>

text \<open>C16. The slot keeps its protocol on every run: it announces readiness once at boot and once
  after each client, each client's session is followed by rollback, dropped prepared statements and
  reset settings in that order before the next readiness byte, an acknowledgement is sent only when
  idle, and every way out, panics included, closes the socket.\<close>

theorem run_slot_keeps_protocol:
  "case run_slot boot envs of
     (fx, None) \<Rightarrow> proto_run P_Boot fx = Some P_Idle
   | (fx, Some x) \<Rightarrow> fx = [] \<and> (\<exists>e. fst (connect_with_retry (slot_path boot) (connect_result boot)) = Inl e)
                    \<or> proto_run P_Boot fx = Some P_Closed"
  using slot_loop_protocol[of envs]
  by (cases "slot_loop envs") (auto simp: run_slot_def Let_def split: sum.splits option.splits)

text \<open>Shutdown is prompt: in the first turn that sees SIGTERM the loop has returned, so the delay
  is at most the 100 ms of one timed receive after the running client is done.\<close>

theorem sigterm_ends_loop:
  assumes "sigterm_received env"
  shows "\<exists>x. snd (slot_loop (envs @ env # rest)) = Some x
       \<and> (slot_loop (envs @ env # rest)) = slot_loop (envs @ [env])"
proof (induction envs)
  case Nil
  show ?case using assms by (simp add: slot_turn_def)
next
  case (Cons e envs)
  then show ?case by (auto split: prod.splits option.splits)
qed

definition demo_turn :: turn_env where
  "demo_turn = \<lparr>sigterm_received = True, timed_recv = None, wire_result = Inr (), wire_panics = False,
     reset_returns = (\<lambda>_. True), send_result = Inr ()\<rparr>"

theorem sigterm_ends_loop_witness:
  "\<exists>x. snd (slot_loop ([demo_turn\<lparr>sigterm_received := False, timed_recv := Some (Inr (FdHandoff 5))\<rparr>]
              @ demo_turn # [])) = Some x
     \<and> (slot_loop ([demo_turn\<lparr>sigterm_received := False, timed_recv := Some (Inr (FdHandoff 5))\<rparr>]
              @ demo_turn # []))
       = slot_loop ([demo_turn\<lparr>sigterm_received := False, timed_recv := Some (Inr (FdHandoff 5))\<rparr>]
              @ [demo_turn])"
  by (rule sigterm_ends_loop) (simp add: demo_turn_def)

definition retryable :: "io_error + 'st \<Rightarrow> bool" where
  "retryable r \<longleftrightarrow> (case r of Inl e \<Rightarrow> fst e = Not_Found \<or> fst e = Connection_Refused | Inr _ \<Rightarrow> False)"

lemma connect_attempts_skip:
  assumes "\<forall>i < n. retryable (env (a + i))" and "n \<le> left"
  shows "connect_attempts path left env a =
    (let (r, sleeps) = connect_attempts path (left - n) env (a + n) in (r, sleeps + n))"
  using assms
proof (induction n arbitrary: a left)
  case (Suc n)
  then obtain left' where left: "left = Suc left'" by (cases left) auto
  have "retryable (env a)" using Suc.prems(1) by (metis add_0_right zero_less_Suc)
  moreover have "\<forall>i < n. retryable (env (Suc a + i))"
    using Suc.prems(1) by (metis Suc_less_eq add_Suc_shift)
  ultimately show ?case using Suc.IH[of "Suc a" left'] Suc.prems(2) left
    by (auto simp: retryable_def split_def Let_def split: sum.splits)
qed (simp add: split_def Let_def)

text \<open>The connection attempt is decided by its first outcome that is neither "not found" nor
  "refused", provided it is among the first 100; otherwise it fails after 100 attempts and 100
  pauses.\<close>

theorem connect_with_retry_spec:
  assumes "\<forall>i < n. retryable (env i)" and "n \<le> MAX_RETRIES"
    and "n < MAX_RETRIES \<Longrightarrow> \<not> retryable (env n)"
  shows "connect_with_retry path env =
    (if n < MAX_RETRIES then env n
     else Inl (Other_Kind, ''pg_transport slot: FE listener at '' @ path @ '' never appeared''), n)"
proof -
  have eq: "connect_with_retry path env =
      (let (r, sleeps) = connect_attempts path (MAX_RETRIES - n) env n in (r, sleeps + n))"
    using connect_attempts_skip[of n env 0 MAX_RETRIES path] assms(1,2) by (simp add: connect_with_retry_def)
  show ?thesis
  proof (cases "n < MAX_RETRIES")
    case True
    then obtain left where "MAX_RETRIES - n = Suc left" by (metis Suc_diff_Suc)
    then show ?thesis using eq True assms(3) by (auto simp: retryable_def split: sum.splits)
  qed (use eq assms(2) in simp)
qed

theorem connect_with_retry_spec_witness:
  "connect_with_retry path (\<lambda>i. if i < 3 then Inl (Not_Found, []) else Inr (7::nat)) = (Inr 7, 3)"
  using connect_with_retry_spec[of 3 "\<lambda>i. if i < 3 then Inl (Not_Found, []) else Inr (7::nat)" path]
  by (simp add: retryable_def MAX_RETRIES_def)

end
