(* ===== verification/Handoff_System.thy ===== *)
theory Handoff_System
  imports Pool_Props Slot
begin

text \<open>
  The pool of the frontend and its slot workers together, as a step relation: the
  pool operations of \<open>backend/pool.rs\<close>, the phases of \<open>backend/slot.rs\<close> and the two
  byte queues of each Unix-domain socket between them.  A socket is named by the
  slot id the frontend gave it.  Failures are steps of their own: a slot may die
  at any time, a read or a send may fail, a reader may end, a dispatcher may give
  up, a wake-up may be spurious.
\<close>

datatype 'c fe_msg = M_Fd 'c | M_Drain

record 'c sys =
  s_pool :: "slot_id pool_state"
  s_phase :: "slot_id \<Rightarrow> slot_phase"
  s_fe_be :: "slot_id \<Rightarrow> 'c fe_msg list"
  s_be_fe :: "slot_id \<Rightarrow> byte list"
  s_pending :: "slot_id \<Rightarrow> 'c option"   \<comment> \<open>a dispatcher that popped the slot and is sending\<close>
  s_waiting :: "'c set"                 \<comment> \<open>dispatchers waiting for a slot\<close>
  s_seen :: "'c set"                    \<comment> \<open>clients ever handed to the pool\<close>
  s_served :: "'c list"                 \<comment> \<open>clients whose session started, newest first\<close>

definition sys_init :: "'c sys" where
  "sys_init = \<lparr>s_pool = pool_new, s_phase = (\<lambda>_. P_Closed), s_fe_be = (\<lambda>_. []), s_be_fe = (\<lambda>_. []),
     s_pending = (\<lambda>_. None), s_waiting = {}, s_seen = {}, s_served = []\<rparr>"

text \<open>The effects of a pool operation on the sockets; shutdowns only ever remove traffic.\<close>

fun pool_effect_on :: "slot_id pool_effect \<Rightarrow> (slot_id \<Rightarrow> 'c fe_msg list) \<Rightarrow> slot_id \<Rightarrow> 'c fe_msg list" where
  "pool_effect_on (Send_Drain k) q = q(k := q k @ [M_Drain])"
| "pool_effect_on _ q = q"

text \<open>
  The dispatcher's control state decides where its client is next: with the slot it
  popped (the socket of the slot is named by its id), waiting, or gone.
\<close>

fun dispatch_client :: "(slot_id, 'c) handoff_pc \<Rightarrow> 'c sys \<Rightarrow> 'c sys" where
  "dispatch_client (H_Sending k c lbl) s =
     s\<lparr>s_pending := (s_pending s)(k \<mapsto> c), s_waiting := s_waiting s - {c}\<rparr>"
| "dispatch_client (H_Waiting dl c) s = s\<lparr>s_waiting := insert c (s_waiting s)\<rparr>"
| "dispatch_client _ s = s"

inductive sys_step :: "'c sys \<Rightarrow> 'c sys \<Rightarrow> bool" where
  accept:
    "sys_step s (s\<lparr>s_pool := fst (accept_slot now k (s_pool s)),
       s_phase := (s_phase s)(k := if early then P_Idle else P_Boot),
       s_fe_be := (s_fe_be s)(k := []),
       s_be_fe := (s_be_fe s)(k := if early then [OP_READY] else []),
       s_pending := (s_pending s)(k := None)\<rparr>)"
  if "k = slot_id_counter (s_pool s)" and "ids_left (s_pool s)"
| read_byte:
    "sys_step s (s\<lparr>s_pool := fst (snd (slot_reader_wrapper_turn now k k (Some (Inr b)) (s_pool s))),
       s_be_fe := (s_be_fe s)(k := rest)\<rparr>)"
  if "s_be_fe s k = b # rest"
| reader_fails:
    "sys_step s (s\<lparr>s_pool := fst (snd (slot_reader_wrapper_turn now k k r (s_pool s)))\<rparr>)"
  if "case r of None \<Rightarrow> True | Some (Inl e) \<Rightarrow> True | Some (Inr b) \<Rightarrow> False"
| dispatch:
    "sys_step s (dispatch_client pc (s\<lparr>s_pool := p', s_seen := insert c (s_seen s)\<rparr>))"
  if "c \<notin> s_seen s" and "handoff_start max_size now c g (s_pool s) = (pc, p', fs)"
| wake:
    "sys_step s (dispatch_client pc (s\<lparr>s_pool := p', s_waiting := s_waiting s - {c}\<rparr>))"
  if "c \<in> s_waiting s" and "handoff_wake w (H_Waiting dl c) (s_pool s) = (pc, p')"
| send_ok:
    "sys_step s (s\<lparr>s_pending := (s_pending s)(k := None),
       s_fe_be := (s_fe_be s)(k := s_fe_be s k @ [M_Fd c])\<rparr>)"
  if "s_pending s k = Some c"
| send_fails:
    "sys_step s (s\<lparr>s_pending := (s_pending s)(k := None)\<rparr>)"
  if "s_pending s k = Some c"
| drain:
    "sys_step s (s\<lparr>s_pool := p', s_fe_be := fold pool_effect_on fs (s_fe_be s)\<rparr>)"
  if "request_drain ok k (s_pool s) = (p', fs)"
| watchdog:
    "sys_step s (s\<lparr>s_pool := fst (watchdog_fire k k (s_pool s))\<rparr>)"
| slot_serves:
    "sys_step s (s\<lparr>s_phase := (s_phase s)(k := ph), s_fe_be := (s_fe_be s)(k := rest),
       s_served := c # s_served s\<rparr>)"
  if "s_fe_be s k = M_Fd c # rest" and "slot_proto (s_phase s k) (Wire_Run fd) = Some ph"
| slot_resets:
    "sys_step s (s\<lparr>s_phase := (s_phase s)(k := ph)\<rparr>)"
  if "slot_proto (s_phase s k) (Reset_Call call) = Some ph"
| slot_ready:
    "sys_step s (s\<lparr>s_phase := (s_phase s)(k := ph), s_be_fe := (s_be_fe s)(k := s_be_fe s k @ [OP_READY])\<rparr>)"
  if "slot_proto (s_phase s k) Sent_Ready = Some ph"
| slot_acks:
    "sys_step s (s\<lparr>s_phase := (s_phase s)(k := ph), s_fe_be := (s_fe_be s)(k := rest),
       s_be_fe := (s_be_fe s)(k := s_be_fe s k @ [OP_DRAIN_ACK])\<rparr>)"
  if "s_fe_be s k = M_Drain # rest" and "slot_proto (s_phase s k) Sent_Drain_Ack = Some ph"
| slot_closes:
    "sys_step s (s\<lparr>s_phase := (s_phase s)(k := ph), s_fe_be := (s_fe_be s)(k := [])\<rparr>)"
  if "slot_proto (s_phase s k) Closed_Uds = Some ph"

inductive reachable :: "'c sys \<Rightarrow> bool" where
  init: "reachable sys_init"
| step: "reachable s \<Longrightarrow> sys_step s s' \<Longrightarrow> reachable s'"

section \<open>One token per slot\<close>

text \<open>
  Whoever may next act on a slot's behalf holds its token: the slot while it owes a
  readiness byte, the byte under way, the ready queue, the dispatcher that popped
  it, the client under way, or the drain.  There is never more than one.
\<close>

definition owes_ready :: "slot_phase \<Rightarrow> bool" where
  "owes_ready ph \<longleftrightarrow> ph \<in> {P_Boot, P_Dirty, P_Aborted, P_Dropped, P_Clean}"

definition is_fd :: "'c fe_msg \<Rightarrow> bool" where
  "is_fd m \<longleftrightarrow> m \<noteq> M_Drain"

definition slot_work :: "'c sys \<Rightarrow> slot_id \<Rightarrow> nat" where
  "slot_work s k =
     (if owes_ready (s_phase s k) then 1 else 0)
   + length (filter (\<lambda>b. b = OP_READY) (s_be_fe s k))
   + (if where_is (s_pool s) k = Some In_Ready then 1 else 0)
   + (if s_pending s k = None then 0 else 1)
   + length (filter is_fd (s_fe_be s k))"

definition slot_tokens :: "'c sys \<Rightarrow> slot_id \<Rightarrow> nat" where
  "slot_tokens s k = slot_work s k + (if where_is (s_pool s) k = Some In_Draining then 1 else 0)"

definition streams_named :: "slot_id pool_state \<Rightarrow> bool" where
  "streams_named p \<longleftrightarrow> (\<forall>k q. map_of (ready p) k = Some q \<or> map_of (in_flight p) k = Some q
     \<longrightarrow> sp_stream q = k)"

definition drain_ok :: "'c sys \<Rightarrow> slot_id \<Rightarrow> bool" where
  "drain_ok s k \<longleftrightarrow> (M_Drain \<in> set (s_fe_be s k) \<longrightarrow> slot_work s k = 0 \<and> s_fe_be s k = [M_Drain])"

definition tokens_ok :: "'c sys \<Rightarrow> bool" where
  "tokens_ok s \<longleftrightarrow> pool_wf (s_pool s) \<and> streams_named (s_pool s)
     \<and> (\<forall>k. slot_tokens s k \<le> 1 \<and> drain_ok s k)"

lemmas token_defs = slot_tokens_def slot_work_def drain_ok_def owes_ready_def

section \<open>Streams keep their names\<close>

lemma streams_cleanup: "streams_named st \<Longrightarrow> streams_named (fst (cleanup_orphaned sid stream st))"
  by (auto simp: streams_named_def cleanup_orphaned_def shift_remove_def delete_conv'
      split: option.split)

lemma streams_on_ready: "streams_named st \<Longrightarrow> streams_named (fst (on_ready now sid st))"
  by (auto simp: streams_named_def on_ready_def shift_remove_def delete_conv' update_conv'
      split: option.split)

lemma streams_ack: "streams_named st \<Longrightarrow> streams_named (on_drain_ack sid st)"
  by (auto simp: streams_named_def on_drain_ack_def shift_remove_def split: option.split)

lemma streams_drain: "streams_named st \<Longrightarrow> streams_named (fst (request_drain ok sid st))"
  by (auto simp: streams_named_def request_drain_def shift_remove_def delete_conv' split: option.split)

lemma streams_watchdog: "streams_named st \<Longrightarrow> streams_named (fst (watchdog_fire sid stream st))"
  by (simp add: watchdog_ack streams_ack)

lemma streams_accept: "streams_named st \<Longrightarrow> k = slot_id_counter st \<Longrightarrow> streams_named (fst (accept_slot now k st))"
  by (auto simp: streams_named_def accept_slot_def next_slot_id_def Let_def update_conv')

lemma streams_pop:
  assumes "streams_named st" "pool_wf st" "try_pop_ready st = Some (stream, st')"
  shows "streams_named st' \<and> stream = hd (ready_ids st)"
proof -
  obtain k q rest where r: "ready st = (k, q) # rest"
    using assms(3) by (cases "ready st") (auto simp: try_pop_ready_def)
  have named: "map_of (ready st) k' = Some q' \<Longrightarrow> sp_stream q' = k'"
    "map_of (in_flight st) k' = Some q' \<Longrightarrow> sp_stream q' = k'" for k' q'
    using assms(1) by (auto simp: streams_named_def)
  have "k \<notin> set (keys rest)" using assms(2) r by (simp add: pool_simps)
  then have "sp_stream q' = k'" if "map_of rest k' = Some q'" for k' q'
    using map_of_Some_keys[OF that] named(1)[of k' q'] r that by (cases "k' = k") auto
  moreover have "sp_stream q = k" using named(1)[of k q] r by simp
  ultimately show ?thesis
    using r assms(3) named(2)
    by (auto simp: streams_named_def try_pop_ready_def update_conv' ready_ids_def split: if_splits)
qed

lemma streams_reader_turn:
  "streams_named st \<Longrightarrow> streams_named (fst (snd (slot_reader_turn now sid r st)))"
  by (auto simp: slot_reader_turn_def streams_on_ready streams_ack split: sum.split)

lemma streams_reader:
  "streams_named st \<Longrightarrow> streams_named (fst (snd (slot_reader_wrapper_turn now sid stream r st)))"
  by (auto simp: slot_reader_wrapper_turn_def split_def Let_def
      split: option.split intro: streams_reader_turn streams_cleanup)

lemmas streams_intros = streams_cleanup streams_on_ready streams_ack streams_drain streams_watchdog
  streams_accept streams_reader

section \<open>Every step keeps the tokens\<close>

lemma tokens_okD:
  assumes "tokens_ok s"
  shows "pool_wf (s_pool s)" "streams_named (s_pool s)" "slot_tokens s k \<le> 1" "drain_ok s k"
  using assms by (simp_all add: tokens_ok_def)

lemma tokens_okI:
  assumes "pool_wf (s_pool s)" "streams_named (s_pool s)"
    and "\<And>j. slot_tokens s j \<le> 1" "\<And>j. drain_ok s j"
  shows "tokens_ok s"
  using assms by (simp add: tokens_ok_def)

text \<open>A step that leaves all that concerns slot \<open>j\<close> alone keeps its token.\<close>

definition same_at :: "slot_id \<Rightarrow> 'c sys \<Rightarrow> 'c sys \<Rightarrow> bool" where
  "same_at j s s' \<longleftrightarrow> s_phase s' j = s_phase s j \<and> s_fe_be s' j = s_fe_be s j
     \<and> s_be_fe s' j = s_be_fe s j \<and> s_pending s' j = s_pending s j
     \<and> where_is (s_pool s') j = where_is (s_pool s) j"

lemma same_at_tokens:
  "same_at j s s' \<Longrightarrow> slot_tokens s' j = slot_tokens s j \<and> drain_ok s' j = drain_ok s j"
  by (simp add: same_at_def token_defs)

lemma tokens_ok_step1:
  assumes "tokens_ok s" "pool_wf (s_pool s')" "streams_named (s_pool s')"
    and "\<And>j. j \<noteq> k \<Longrightarrow> same_at j s s'"
    and "slot_tokens s' k \<le> 1" "drain_ok s' k"
  shows "tokens_ok s'"
proof (rule tokens_okI)
  fix j
  show "slot_tokens s' j \<le> 1" "drain_ok s' j"
    using assms same_at_tokens[of j s s'] tokens_okD[OF assms(1)] by (cases "j = k"; simp)+
qed (use assms in auto)

lemma sys_init_ok: "tokens_ok sys_init"
  by (rule tokens_okI) (simp_all add: sys_init_def token_defs streams_named_def pool_simps)

lemma step_accept_ok:
  assumes "tokens_ok s" "k = slot_id_counter (s_pool s)" "ids_left (s_pool s)"
  shows "tokens_ok (s\<lparr>s_pool := fst (accept_slot now k (s_pool s)),
       s_phase := (s_phase s)(k := if early then P_Idle else P_Boot),
       s_fe_be := (s_fe_be s)(k := []),
       s_be_fe := (s_be_fe s)(k := if early then [OP_READY] else []),
       s_pending := (s_pending s)(k := None)\<rparr>)"
  using tokens_okD[OF assms(1)] assms(2,3)
  by (intro tokens_ok_step1[OF assms(1), where k = k])
    (auto simp: same_at_def token_defs accept_where accept_wf streams_accept)

lemma step_read_ok:
  assumes "tokens_ok s" "s_be_fe s k = b # rest"
  shows "tokens_ok (s\<lparr>s_pool := fst (snd (slot_reader_wrapper_turn now k k (Some (Inr b)) (s_pool s))),
       s_be_fe := (s_be_fe s)(k := rest)\<rparr>)"
proof -
  note ok = tokens_okD[OF assms(1)]
  obtain go p' fs where t: "slot_reader_wrapper_turn now k k (Some (Inr b)) (s_pool s) = (go, p', fs)"
    by (metis prod_cases3)
  have w: "where_is p' = (if b = OP_READY \<and> where_is (s_pool s) k = Some In_Flight
      then (where_is (s_pool s))(k \<mapsto> In_Ready)
      else if b = OP_READY then where_is (s_pool s) else (where_is (s_pool s))(k := None))"
    using reader_where[OF ok(1) t] reader_go_iff[OF t] on_ready_where[OF ok(1)] by auto
  have "pool_wf p'" using reader_wf[OF ok(1)] t by (metis fst_conv snd_conv)
  moreover have "streams_named p'" using streams_reader[OF ok(2)] t by (metis fst_conv snd_conv)
  ultimately show ?thesis using ok(3)[of k] ok(4)[of k] assms(2)
    by (intro tokens_ok_step1[OF assms(1), where k = k])
      (auto simp: t w same_at_def token_defs split: if_splits)
qed

lemma step_reader_fails_ok:
  assumes "tokens_ok s" "case r of None \<Rightarrow> True | Some (Inl e) \<Rightarrow> True | Some (Inr b) \<Rightarrow> False"
  shows "tokens_ok (s\<lparr>s_pool := fst (snd (slot_reader_wrapper_turn now k k r (s_pool s)))\<rparr>)"
proof -
  note ok = tokens_okD[OF assms(1)]
  obtain go p' fs where t: "slot_reader_wrapper_turn now k k r (s_pool s) = (go, p', fs)"
    by (metis prod_cases3)
  have w: "where_is p' = (where_is (s_pool s))(k := None)"
    using reader_where[OF ok(1) t] reader_go_iff[OF t] assms(2) by auto
  have "pool_wf p'" using reader_wf[OF ok(1)] t by (metis fst_conv snd_conv)
  moreover have "streams_named p'" using streams_reader[OF ok(2)] t by (metis fst_conv snd_conv)
  ultimately show ?thesis using ok(3)[of k] ok(4)[of k]
    by (intro tokens_ok_step1[OF assms(1), where k = k])
      (auto simp: t w same_at_def token_defs split: if_splits)
qed

text \<open>A dispatcher that gets a slot takes its token from the ready queue.\<close>

lemma pop_step_ok:
  assumes "tokens_ok s" and "try_pop_ready (s_pool s) = Some (stream, p')"
    and "s_pool s' = p'" "s_pending s' = (s_pending s)(stream \<mapsto> c)"
    and "s_phase s' = s_phase s" "s_fe_be s' = s_fe_be s" "s_be_fe s' = s_be_fe s"
  shows "tokens_ok s'"
proof -
  note ok = tokens_okD[OF assms(1)]
  have hd: "stream = hd (ready_ids (s_pool s))" and named: "streams_named p'"
    using streams_pop[OF ok(2,1) assms(2)] by auto
  have "ready_ids (s_pool s) \<noteq> []" using assms(2) pop_None by (metis option.distinct(1))
  then have r: "where_is (s_pool s) stream = Some In_Ready" using queue_loc[OF ok(1)] hd by fastforce
  have w: "where_is p' = (where_is (s_pool s))(stream \<mapsto> In_Flight)"
    using pop_where[OF ok(1) assms(2)] hd by simp
  show ?thesis
    using ok(3)[of stream] ok(4)[of stream] r assms(3-) pop_wf[OF ok(1) assms(2)] named
    by (intro tokens_ok_step1[OF assms(1), where k = stream])
      (auto simp: w same_at_def token_defs split: if_splits)
qed

lemma same_step_ok:
  assumes "tokens_ok s" and "s_pool s' = s_pool s" "s_pending s' = s_pending s"
    and "s_phase s' = s_phase s" "s_fe_be s' = s_fe_be s" "s_be_fe s' = s_be_fe s"
  shows "tokens_ok s'"
  using tokens_okD[OF assms(1)] assms(2-)
  by (intro tokens_ok_step1[OF assms(1), where k = 0]) (auto simp: same_at_def token_defs)

lemma handoff_start_cases:
  assumes "handoff_start max_size now c g st = (pc, p', fs)" "pool_wf st"
  obtains (pop) stream lbl where "try_pop_ready st = Some (stream, p')" "pc = H_Sending stream c lbl"
  | (wait) dl where "p' = st" "pc = H_Waiting dl c" "try_pop_ready st = None"
  | (panic) "p' = st" "pc = H_Panicked"
  using assms pool_wf_growing[OF assms(2)] pool_wf_not_growing[OF assms(2)]
  by (auto simp: handoff_start_def grow_guard_drop_def Let_def split_def should_grow_def
      split: option.splits if_splits)

lemma handoff_wake_cases:
  assumes "handoff_wake w (H_Waiting dl c) st = (pc, p')"
  obtains (pop) stream lbl where "try_pop_ready st = Some (stream, p')" "pc = H_Sending stream c lbl"
  | (wait) dl' where "p' = st" "pc = H_Waiting dl' c" "try_pop_ready st = None"
  | (timeout) r where "p' = st" "pc = H_Returned r"
  using assms by (cases w) (auto split: option.splits)

lemma step_dispatch_ok:
  assumes "tokens_ok s" "handoff_start max_size now c g (s_pool s) = (pc, p', fs)"
  shows "tokens_ok (dispatch_client pc (s\<lparr>s_pool := p', s_seen := insert c (s_seen s)\<rparr>))"
  using assms(2) tokens_okD(1)[OF assms(1)]
proof (cases rule: handoff_start_cases)
  case (pop stream lbl)
  then show ?thesis by (intro pop_step_ok[OF assms(1)]) auto
next
  case (wait dl)
  then show ?thesis by (intro same_step_ok[OF assms(1)]) auto
next
  case panic
  then show ?thesis by (intro same_step_ok[OF assms(1)]) auto
qed

lemma step_wake_ok:
  assumes "tokens_ok s" "handoff_wake w (H_Waiting dl c) (s_pool s) = (pc, p')"
  shows "tokens_ok (dispatch_client pc (s\<lparr>s_pool := p', s_waiting := s_waiting s - {c}\<rparr>))"
  using assms(2)
proof (cases rule: handoff_wake_cases)
  case (pop stream lbl)
  then show ?thesis by (intro pop_step_ok[OF assms(1)]) auto
next
  case (wait dl)
  then show ?thesis by (intro same_step_ok[OF assms(1)]) auto
next
  case (timeout r)
  then show ?thesis by (intro same_step_ok[OF assms(1)]) auto
qed

text \<open>A drain takes the token out of the ready queue for good; the request finds the slot idle.\<close>

lemma step_drain_ok:
  assumes "tokens_ok s" "request_drain ok k (s_pool s) = (p', fs)"
  shows "tokens_ok (s\<lparr>s_pool := p', s_fe_be := fold pool_effect_on fs (s_fe_be s)\<rparr>)"
proof (cases "where_is (s_pool s) k = Some In_Ready")
  case True
  note inv = tokens_okD[OF assms(1)]
  have p': "p' = fst (request_drain ok k (s_pool s))" using assms(2) by simp
  have w: "where_is p' = (where_is (s_pool s))(k \<mapsto> In_Draining)"
    using drain_where[OF inv(1), of ok k] True p' by simp
  obtain q where q: "map_of (ready (s_pool s)) k = Some q"
    using True by (auto simp: where_is_def set_keys split: if_splits)
  then have "sp_stream q = k" using inv(2) by (auto simp: streams_named_def)
  then have fx: "fold pool_effect_on fs (s_fe_be s) =
      (if ok then (s_fe_be s)(k := s_fe_be s k @ [M_Drain]) else s_fe_be s)"
    using assms(2) q by (auto simp: request_drain_def shift_remove_def)
  have empty: "s_fe_be s k = []"
  proof -
    have "filter is_fd (s_fe_be s k) = []" "M_Drain \<notin> set (s_fe_be s k)"
      using inv(3)[of k] inv(4)[of k] True by (auto simp: token_defs split: if_splits)
    then show ?thesis by (cases "s_fe_be s k") (auto simp: is_fd_def split: if_splits)
  qed
  have "pool_wf p'" "streams_named p'" using drain_wf[OF inv(1)] streams_drain[OF inv(2)] p' by auto
  then show ?thesis
    using inv(3)[of k] True empty
    by (intro tokens_ok_step1[OF assms(1), where k = k])
      (auto simp: fx w same_at_def token_defs is_fd_def split: if_splits)
next
  case False
  then have "shift_remove k (ready (s_pool s)) = None"
    by (auto simp: where_is_def split: if_splits)
  then have "p' = s_pool s" "fs = []" using assms(2) by (auto simp: request_drain_def)
  then show ?thesis by (intro same_step_ok[OF assms(1)]) auto
qed

lemma step_watchdog_ok:
  assumes "tokens_ok s"
  shows "tokens_ok (s\<lparr>s_pool := fst (watchdog_fire k k (s_pool s))\<rparr>)"
  using tokens_okD(1,2)[OF assms] tokens_okD(3,4)[OF assms, of k]
  by (intro tokens_ok_step1[OF assms, where k = k])
    (auto simp: watchdog_ack ack_wf ack_where streams_ack same_at_def token_defs split: if_splits)

lemma step_send_ok:
  assumes "tokens_ok s" "s_pending s k = Some c"
  shows "tokens_ok (s\<lparr>s_pending := (s_pending s)(k := None),
       s_fe_be := (s_fe_be s)(k := s_fe_be s k @ [M_Fd c])\<rparr>)"
    and "tokens_ok (s\<lparr>s_pending := (s_pending s)(k := None)\<rparr>)"
  using tokens_okD(1,2)[OF assms(1)] tokens_okD(3,4)[OF assms(1), of k] assms(2)
  by (intro tokens_ok_step1[OF assms(1), where k = k];
      auto simp: same_at_def token_defs is_fd_def split: if_splits)+

text \<open>What an automaton step does to the debt of a readiness byte.\<close>

lemma proto_owes:
  "slot_proto ph (Wire_Run fd) = Some ph' \<Longrightarrow> \<not> owes_ready ph \<and> owes_ready ph'"
  "slot_proto ph (Reset_Call call) = Some ph' \<Longrightarrow> owes_ready ph \<and> owes_ready ph'"
  "slot_proto ph Sent_Ready = Some ph' \<Longrightarrow> owes_ready ph \<and> \<not> owes_ready ph'"
  "slot_proto ph Sent_Drain_Ack = Some ph' \<Longrightarrow> \<not> owes_ready ph \<and> \<not> owes_ready ph'"
  "slot_proto ph Closed_Uds = Some ph' \<Longrightarrow> \<not> owes_ready ph'"
  by (auto simp: owes_ready_def elim!: slot_proto.elims)

lemmas work_defs = slot_tokens_def slot_work_def drain_ok_def

lemma step_serves_ok:
  assumes "tokens_ok s" "s_fe_be s k = M_Fd c # rest" "slot_proto (s_phase s k) (Wire_Run fd) = Some ph"
  shows "tokens_ok (s\<lparr>s_phase := (s_phase s)(k := ph), s_fe_be := (s_fe_be s)(k := rest),
       s_served := c # s_served s\<rparr>)"
  using tokens_okD(1,2)[OF assms(1)] tokens_okD(3,4)[OF assms(1), of k] assms(2) proto_owes(1)[OF assms(3)]
  by (intro tokens_ok_step1[OF assms(1), where k = k])
    (auto simp: same_at_def work_defs is_fd_def split: if_splits)

lemma step_resets_ok:
  assumes "tokens_ok s" "slot_proto (s_phase s k) (Reset_Call call) = Some ph"
  shows "tokens_ok (s\<lparr>s_phase := (s_phase s)(k := ph)\<rparr>)"
  using tokens_okD(1,2)[OF assms(1)] tokens_okD(3,4)[OF assms(1), of k] proto_owes(2)[OF assms(2)]
  by (intro tokens_ok_step1[OF assms(1), where k = k])
    (auto simp: same_at_def work_defs split: if_splits)

lemma step_ready_ok:
  assumes "tokens_ok s" "slot_proto (s_phase s k) Sent_Ready = Some ph"
  shows "tokens_ok (s\<lparr>s_phase := (s_phase s)(k := ph), s_be_fe := (s_be_fe s)(k := s_be_fe s k @ [OP_READY])\<rparr>)"
  using tokens_okD(1,2)[OF assms(1)] tokens_okD(3,4)[OF assms(1), of k] proto_owes(3)[OF assms(2)]
  by (intro tokens_ok_step1[OF assms(1), where k = k])
    (auto simp: same_at_def work_defs split: if_splits)

lemma step_acks_ok:
  assumes "tokens_ok s" "s_fe_be s k = M_Drain # rest" "slot_proto (s_phase s k) Sent_Drain_Ack = Some ph"
  shows "tokens_ok (s\<lparr>s_phase := (s_phase s)(k := ph), s_fe_be := (s_fe_be s)(k := rest),
       s_be_fe := (s_be_fe s)(k := s_be_fe s k @ [OP_DRAIN_ACK])\<rparr>)"
  using tokens_okD(1,2)[OF assms(1)] tokens_okD(3,4)[OF assms(1), of k] assms(2) proto_owes(4)[OF assms(3)]
  by (intro tokens_ok_step1[OF assms(1), where k = k])
    (auto simp: same_at_def work_defs split: if_splits)

lemma step_closes_ok:
  assumes "tokens_ok s" "slot_proto (s_phase s k) Closed_Uds = Some ph"
  shows "tokens_ok (s\<lparr>s_phase := (s_phase s)(k := ph), s_fe_be := (s_fe_be s)(k := [])\<rparr>)"
  using tokens_okD(1,2)[OF assms(1)] tokens_okD(3,4)[OF assms(1), of k] proto_owes(5)[OF assms(2)]
  by (intro tokens_ok_step1[OF assms(1), where k = k])
    (auto simp: same_at_def work_defs split: if_splits)

lemma sys_step_ok: "sys_step s s' \<Longrightarrow> tokens_ok s \<Longrightarrow> tokens_ok s'"
proof (induction rule: sys_step.induct)
  case (dispatch c s max_size now g pc p' fs)
  then show ?case by (intro step_dispatch_ok)
next
  case (wake c s w dl pc p')
  then show ?case by (intro step_wake_ok)
qed (blast intro: step_accept_ok step_read_ok step_reader_fails_ok step_send_ok step_drain_ok
    step_watchdog_ok step_serves_ok step_resets_ok step_ready_ok step_acks_ok step_closes_ok)+

lemma reachable_ok: "reachable s \<Longrightarrow> tokens_ok s"
  by (induction rule: reachable.induct) (auto intro: sys_init_ok sys_step_ok)

section \<open>Where the clients are\<close>

definition holders :: "'c sys \<Rightarrow> (slot_id \<times> 'c) set" where
  "holders s = {(k, c). s_pending s k = Some c \<or> M_Fd c \<in> set (s_fe_be s k)}"

text \<open>Waiting clients \<open>W\<close>, clients under way to a slot \<open>H\<close>, served \<open>V\<close>, all ever seen \<open>S\<close>.\<close>

definition clients_inv :: "'c set \<Rightarrow> (slot_id \<times> 'c) set \<Rightarrow> 'c set \<Rightarrow> 'c set \<Rightarrow> bool" where
  "clients_inv W H V S \<longleftrightarrow> W \<subseteq> S \<and> V \<subseteq> S \<and> snd ` H \<subseteq> S
     \<and> W \<inter> V = {} \<and> snd ` H \<inter> W = {} \<and> snd ` H \<inter> V = {} \<and> inj_on snd H"

lemma disjoint_shrink:
  assumes "W \<subseteq> S" "V \<subseteq> S" "I \<subseteq> S" "W \<inter> V = {}" "I \<inter> W = {}" "I \<inter> V = {}"
    and "W' \<subseteq> W" "I' \<subseteq> I" "S \<subseteq> S'"
  shows "W' \<subseteq> S' \<and> V \<subseteq> S' \<and> I' \<subseteq> S' \<and> W' \<inter> V = {} \<and> I' \<inter> W' = {} \<and> I' \<inter> V = {}"
proof (intro conjI)
  show "W' \<subseteq> S'" "V \<subseteq> S'" "I' \<subseteq> S'" using assms(1-3,7-9) by (meson subset_trans)+
  show "W' \<inter> V = {}" "I' \<inter> V = {}" using assms(4,6,7,8) by (meson disjoint_iff subsetD)+
  show "I' \<inter> W' = {}" using assms(5,7,8) by (meson disjoint_iff subsetD)
qed

lemma clients_inv_shrink:
  assumes "clients_inv W H V S" "W' \<subseteq> W" "H' \<subseteq> H" "S \<subseteq> S'"
  shows "clients_inv W' H' V S'"
proof -
  have "snd ` H' \<subseteq> snd ` H" using assms(3) by (rule image_mono)
  moreover have "inj_on snd H" using assms(1) by (simp add: clients_inv_def)
  then have "inj_on snd H'" using assms(3) by (rule inj_on_subset)
  moreover have "W \<subseteq> S" "V \<subseteq> S" "snd ` H \<subseteq> S" "W \<inter> V = {}" "snd ` H \<inter> W = {}" "snd ` H \<inter> V = {}"
    using assms(1) by (simp_all add: clients_inv_def)
  ultimately show ?thesis
    using disjoint_shrink[of W S V "snd ` H" W' "snd ` H'" S'] assms(2,4) by (simp add: clients_inv_def)
qed

lemma clients_inv_wait:
  "clients_inv W H V S \<Longrightarrow> c \<notin> snd ` H \<Longrightarrow> c \<notin> V \<Longrightarrow> clients_inv (insert c W) H V (insert c S)"
  unfolding clients_inv_def by auto

lemma clients_inv_assign:
  assumes "clients_inv W H V S" "c \<notin> snd ` H" "c \<notin> V"
  shows "clients_inv (W - {c}) (insert (k, c) H) V (insert c S)"
proof -
  have "inj_on snd (insert (k, c) H)" using assms unfolding clients_inv_def by (auto simp: inj_on_def)
  then show ?thesis using assms unfolding clients_inv_def by auto
qed

lemma clients_inv_serve:
  assumes "clients_inv W H V S" "(k, c) \<in> H" "H' \<subseteq> H - {(k, c)}"
  shows "clients_inv W H' (insert c V) S \<and> c \<notin> V"
proof -
  have inj: "inj_on snd H" using assms(1) by (simp add: clients_inv_def)
  have "H' \<subseteq> H" using assms(3) by blast
  then have inv: "clients_inv W H' V S" by (intro clients_inv_shrink[OF assms(1)]) simp_all
  have c: "c \<in> snd ` H" using image_eqI[of c snd "(k, c)" H] assms(2) by simp
  then have "c \<in> S" "c \<notin> W" "c \<notin> V" using assms(1) by (auto simp: clients_inv_def)
  moreover have "c \<notin> snd ` H'"
  proof
    assume "c \<in> snd ` H'"
    then obtain k' where "(k', c) \<in> H'" by auto
    then have "(k', c) \<in> H" "(k', c) \<noteq> (k, c)" using assms(3) by auto
    then show False using inj_onD[OF inj, of "(k', c)" "(k, c)"] assms(2) by simp
  qed
  ultimately show ?thesis using inv by (simp add: clients_inv_def)
qed

definition clients_ok :: "'c sys \<Rightarrow> bool" where
  "clients_ok s \<longleftrightarrow> clients_inv (s_waiting s) (holders s) (set (s_served s)) (s_seen s)
     \<and> distinct (s_served s)"

lemma clients_unseen:
  assumes "clients_ok s" "c \<notin> s_seen s"
  shows "c \<notin> snd ` holders s" "c \<notin> set (s_served s)"
  using assms unfolding clients_ok_def clients_inv_def by auto

lemma clients_waiting:
  assumes "clients_ok s" "c \<in> s_waiting s"
  shows "c \<notin> snd ` holders s" "c \<notin> set (s_served s)" "c \<in> s_seen s"
  using assms unfolding clients_ok_def clients_inv_def by auto

lemma clients_shrink:
  assumes "clients_ok s" "s_waiting s' \<subseteq> s_waiting s" "holders s' \<subseteq> holders s"
    "s_seen s \<subseteq> s_seen s'" "s_served s' = s_served s"
  shows "clients_ok s'"
  using assms clients_inv_shrink by (metis clients_ok_def)

text \<open>The dispatcher's three outcomes, for a client that is nowhere else.\<close>

lemma clients_dispatch:
  assumes "clients_ok s" "c \<notin> snd ` holders s" "c \<notin> set (s_served s)"
    and "pc = H_Sending k c lbl \<or> pc = H_Waiting dl c \<or> pc = H_Returned r \<or> pc = H_Panicked"
    and "s_waiting s0 \<subseteq> s_waiting s" "holders s0 = holders s" "s_served s0 = s_served s"
    and "s_seen s0 = insert c (s_seen s)"
  shows "clients_ok (dispatch_client pc s0)"
proof -
  let ?V = "set (s_served s)"
  have inv: "clients_inv (s_waiting s) (holders s) ?V (s_seen s)" "distinct (s_served s)"
    using assms(1) by (auto simp: clients_ok_def)
  have "holders (s0\<lparr>s_pending := (s_pending s0)(k \<mapsto> c), s_waiting := w\<rparr>) \<subseteq> insert (k, c) (holders s)"
    for w using assms(6) by (auto simp: holders_def split: if_splits)
  moreover have "s_waiting s0 - {c} \<subseteq> s_waiting s - {c}" using assms(5) by blast
  ultimately have "clients_inv (s_waiting s0 - {c})
      (holders (s0\<lparr>s_pending := (s_pending s0)(k \<mapsto> c), s_waiting := s_waiting s0 - {c}\<rparr>))
      ?V (insert c (s_seen s))"
    by (intro clients_inv_shrink[OF clients_inv_assign[OF inv(1) assms(2,3), of k]]) simp_all
  then have sending: "clients_ok (s0\<lparr>s_pending := (s_pending s0)(k \<mapsto> c), s_waiting := s_waiting s0 - {c}\<rparr>)"
    using assms(7,8) inv(2) by (simp add: clients_ok_def)
  have waiting: "clients_ok (s0\<lparr>s_waiting := insert c (s_waiting s0)\<rparr>)"
    using clients_inv_shrink[OF clients_inv_wait[OF inv(1) assms(2,3)]] assms(5-8) inv(2)
    unfolding clients_ok_def by (simp add: holders_def subset_insertI2)
  have gone: "clients_ok s0" using assms(5-8) by (intro clients_shrink[OF assms(1)]) auto
  show ?thesis using assms(4) sending waiting gone by auto
qed

lemma drain_msgs:
  assumes "request_drain ok k p = (p', fs)" "M_Fd c \<in> set (fold pool_effect_on fs q j)"
  shows "M_Fd c \<in> set (q j)"
  using assms by (auto simp: request_drain_def split: option.splits if_splits)

lemma sys_step_clients:
  assumes "sys_step s s'" "tokens_ok s" "clients_ok s"
  shows "clients_ok s'"
  using assms
proof (induction rule: sys_step.induct)
  case (dispatch c s max_size now g pc p' fs)
  obtain k lbl dl where "pc = H_Sending k c lbl \<or> pc = H_Waiting dl c \<or> pc = H_Panicked"
    using dispatch(2) tokens_okD(1)[OF dispatch(3)] by (cases rule: handoff_start_cases) auto
  then show ?case using clients_unseen[OF dispatch(4,1)]
    by (intro clients_dispatch[OF dispatch(4), where k = k and lbl = lbl and dl = dl])
      (auto simp: holders_def)
next
  case (wake c s w dl pc p')
  obtain k lbl dl' r where "pc = H_Sending k c lbl \<or> pc = H_Waiting dl' c \<or> pc = H_Returned r"
    using wake(2) by (cases rule: handoff_wake_cases) auto
  then show ?case using clients_waiting[OF wake(4,1)]
    by (intro clients_dispatch[OF wake(4), where k = k and lbl = lbl and dl = dl' and r = r])
      (auto simp: holders_def insert_absorb)
next
  case (slot_serves s k c rest fd ph)
  have "length (filter is_fd (s_fe_be s k)) \<le> 1" "s_pending s k = None"
    using tokens_okD(3)[OF slot_serves(3), of k] slot_serves(1)
    by (auto simp: work_defs is_fd_def split: if_splits)
  then have rest: "M_Fd c \<notin> set rest" using slot_serves(1) by (auto simp: is_fd_def filter_empty_conv)
  have "holders (s\<lparr>s_phase := (s_phase s)(k := ph), s_fe_be := (s_fe_be s)(k := rest),
       s_served := c # s_served s\<rparr>) \<subseteq> holders s - {(k, c)}"
    using rest \<open>s_pending s k = None\<close> slot_serves(1) by (auto simp: holders_def split: if_splits)
  moreover have "(k, c) \<in> holders s" using slot_serves(1) by (simp add: holders_def)
  ultimately show ?case
    using slot_serves(4) clients_inv_serve unfolding clients_ok_def by fastforce
next
  case (drain ok k s p' fs)
  then show ?case
    by (intro clients_shrink[OF drain(3)]) (auto simp: holders_def dest: drain_msgs[OF drain(1)])
qed (auto simp: holders_def split: if_splits intro: clients_shrink)

lemma reachable_clients: "reachable s \<Longrightarrow> clients_ok s"
proof (induction rule: reachable.induct)
  case init
  show ?case by (simp add: clients_ok_def clients_inv_def holders_def sys_init_def)
next
  case (step s s')
  then show ?case using sys_step_clients reachable_ok by blast
qed

section \<open>The reaper and SIGHUP are sequences of drain steps\<close>

lemma drain_all_steps:
  assumes "drain_all ok sids (s_pool s) = (p', fs)"
  shows "sys_step\<^sup>*\<^sup>* s (s\<lparr>s_pool := p', s_fe_be := fold pool_effect_on fs (s_fe_be s)\<rparr>)"
  using assms
proof (induction sids arbitrary: s fs)
  case (Cons sid sids)
  obtain p1 fs1 where d: "request_drain (ok sid) sid (s_pool s) = (p1, fs1)" by fastforce
  obtain fs2 where r: "drain_all ok sids p1 = (p', fs2)" "fs = fs1 @ fs2"
    using Cons.prems d by (auto split: prod.splits)
  let ?s1 = "s\<lparr>s_pool := p1, s_fe_be := fold pool_effect_on fs1 (s_fe_be s)\<rparr>"
  have "sys_step s ?s1" by (rule sys_step.drain[OF d])
  moreover have "sys_step\<^sup>*\<^sup>* ?s1 (s\<lparr>s_pool := p', s_fe_be := fold pool_effect_on fs (s_fe_be s)\<rparr>)"
    using Cons.IH[of ?s1 fs2] r by simp
  ultimately show ?case by (rule converse_rtranclp_into_rtranclp)
next
  case Nil
  then have "p' = s_pool s" "fs = []" by simp_all
  then show ?case by simp
qed

lemma reachable_star: "sys_step\<^sup>*\<^sup>* s s' \<Longrightarrow> reachable s \<Longrightarrow> reachable s'"
  by (induction rule: rtranclp.induct) (auto intro: reachable.step)

section \<open>A run for the witnesses\<close>

text \<open>A slot connects, its readiness byte is read, a client arrives and is sent to it.\<close>

definition demo_peer :: "slot_id slot_peer" where
  "demo_peer = \<lparr>sp_slot_id = 0, sp_stream = 0, sp_last_ready_at = 5\<rparr>"

definition demo_idle :: "nat sys" where
  "demo_idle = sys_init\<lparr>s_pool := pool_new\<lparr>ready := [(0, demo_peer)], slot_id_counter := 1\<rparr>,
     s_phase := (\<lambda>_. P_Closed)(0 := P_Idle)\<rparr>"

definition demo_sent :: "nat sys" where
  "demo_sent = demo_idle\<lparr>s_pool := pool_new\<lparr>in_flight := [(0, demo_peer)], slot_id_counter := 1\<rparr>,
     s_fe_be := (\<lambda>_. [])(0 := [M_Fd 9]), s_seen := {9}\<rparr>"

definition demo_drained :: "nat sys" where
  "demo_drained = demo_idle\<lparr>s_pool := pool_new\<lparr>draining := [(0, demo_peer)], slot_id_counter := 1\<rparr>,
     s_fe_be := (\<lambda>_. [])(0 := [M_Drain])\<rparr>"

lemma demo_idle_reachable: "reachable demo_idle"
proof -
  let ?s1 = "sys_init\<lparr>s_pool := fst (accept_slot 4 0 pool_new), s_phase := (\<lambda>_. P_Closed)(0 := P_Idle),
      s_fe_be := (\<lambda>_. [])(0 := []), s_be_fe := (\<lambda>_. [])(0 := [OP_READY]), s_pending := (\<lambda>_. None)(0 := None)\<rparr>"
  have "sys_step (sys_init :: nat sys) ?s1"
    using sys_step.accept[where k = 0 and s = "sys_init :: nat sys" and now = 4 and early = True] by (simp add: sys_init_def ids_left_def)
  then have 1: "reachable (?s1 :: nat sys)" by (rule reachable.step[OF reachable.init])
  have "sys_step (?s1 :: nat sys) demo_idle"
    using sys_step.read_byte[where s = ?s1 and k = 0 and b = OP_READY and rest = "[]" and now = 5]
    by (simp add: accept_slot_def next_slot_id_def demo_idle_def sys_init_def demo_peer_def pool_new_def slot_reader_wrapper_turn_def
        slot_reader_turn_def on_ready_def shift_remove_def Let_def fun_upd_idem)
  then show ?thesis by (rule reachable.step[OF 1])
qed

lemma demo_sent_reachable: "reachable demo_sent"
proof -
  let ?p = "pool_new\<lparr>in_flight := [(0, demo_peer)], slot_id_counter := 1\<rparr>"
  let ?s1 = "dispatch_client (H_Sending 0 9 ''fast-path'') (demo_idle\<lparr>s_pool := ?p, s_seen := {9}\<rparr>)"
  have "sys_step demo_idle ?s1"
    using sys_step.dispatch[where c = 9 and s = demo_idle and max_size = 4 and now = 6 and g = Grow_Ok
        and pc = "H_Sending 0 9 ''fast-path''" and p' = ?p and fs = "[]"]
    by (simp add: demo_idle_def sys_init_def handoff_start_def try_pop_ready_def demo_peer_def pool_new_def)
  then have 1: "reachable ?s1" by (rule reachable.step[OF demo_idle_reachable])
  have "sys_step ?s1 demo_sent"
    using sys_step.send_ok[where s = ?s1 and k = 0 and c = 9]
    by (simp add: demo_idle_def demo_sent_def sys_init_def fun_upd_idem)
  then show ?thesis by (rule reachable.step[OF 1])
qed

definition demo_serving :: "nat sys" where
  "demo_serving = demo_sent\<lparr>s_phase := (\<lambda>_. P_Closed)(0 := P_Dirty), s_fe_be := (\<lambda>_. []), s_served := [9]\<rparr>"

lemma demo_serving_reachable: "reachable demo_serving"
proof -
  have "sys_step demo_sent demo_serving"
    using sys_step.slot_serves[where s = demo_sent and k = 0 and c = 9 and rest = "[]" and ph = P_Dirty]
    by (simp add: demo_serving_def demo_sent_def demo_idle_def sys_init_def fun_upd_idem)
  then show ?thesis by (rule reachable.step[OF demo_sent_reachable])
qed

lemma demo_drained_reachable: "reachable demo_drained"
proof -
  have "sys_step demo_idle demo_drained"
    using sys_step.drain[where ok = True and k = 0 and s = demo_idle and p' = "s_pool demo_drained"
        and fs = "[Send_Drain 0, Spawn_Watchdog 0 0]"]
    by (simp add: demo_idle_def demo_drained_def sys_init_def demo_peer_def pool_new_def
        request_drain_def shift_remove_def)
  then show ?thesis by (rule reachable.step[OF demo_idle_reachable])
qed

section \<open>Properties\<close>

text \<open>C2. A slot in the ready queue is idle: it has announced readiness and owes nothing, no byte is
  under way in either direction and no dispatcher holds it.  So the client the dispatcher sends is
  the only one the slot gets.\<close>

theorem ready_slot_is_idle:
  assumes "reachable s" and "where_is (s_pool s) k = Some In_Ready"
  shows "\<not> owes_ready (s_phase s k) \<and> s_fe_be s k = [] \<and> OP_READY \<notin> set (s_be_fe s k)
       \<and> s_pending s k = None"
proof -
  note ok = tokens_okD(3,4)[OF reachable_ok[OF assms(1)], of k]
  have a: "\<not> owes_ready (s_phase s k)" "filter (\<lambda>b. b = OP_READY) (s_be_fe s k) = []"
    "s_pending s k = None" "filter is_fd (s_fe_be s k) = []" "M_Drain \<notin> set (s_fe_be s k)"
    using ok assms(2) by (auto simp: work_defs split: if_splits)
  have "s_fe_be s k = []"
    using a(4,5) by (cases "s_fe_be s k") (auto simp: is_fd_def split: if_splits)
  then show ?thesis using a by (auto simp: filter_empty_conv)
qed

theorem ready_slot_is_idle_witness:
  "\<not> owes_ready (s_phase demo_idle 0) \<and> s_fe_be demo_idle 0 = [] \<and> OP_READY \<notin> set (s_be_fe demo_idle 0)
     \<and> s_pending demo_idle 0 = None"
  by (rule ready_slot_is_idle[OF demo_idle_reachable]) (simp add: demo_idle_def where_is_def)

text \<open>C3. A drain request only ever reaches an idle slot: while it is under way the slot neither boots,
  serves nor resets, no client is queued before or behind it, no dispatcher holds the slot and it is
  in no queue a dispatcher could pop it from.\<close>

theorem drain_reaches_idle_slot:
  assumes "reachable s" and "M_Drain \<in> set (s_fe_be s k)"
  shows "\<not> owes_ready (s_phase s k) \<and> s_fe_be s k = [M_Drain] \<and> s_pending s k = None
       \<and> where_is (s_pool s) k \<noteq> Some In_Ready"
  using tokens_okD(4)[OF reachable_ok[OF assms(1)], of k] assms(2)
  by (auto simp: work_defs split: if_splits)

theorem drain_reaches_idle_slot_witness:
  "\<not> owes_ready (s_phase demo_drained 0) \<and> s_fe_be demo_drained 0 = [M_Drain] \<and> s_pending demo_drained 0 = None
     \<and> where_is (s_pool demo_drained) 0 \<noteq> Some In_Ready"
  by (rule drain_reaches_idle_slot[OF demo_drained_reachable]) (simp add: demo_drained_def)

text \<open>C1. A slot serves one client at a time: with a client under way to it, no other client is under
  way, no dispatcher is about to send one, and the slot is not still serving, resetting or
  announcing; and at most one readiness byte is ever outstanding.\<close>

theorem one_client_per_slot:
  assumes "reachable s"
  shows "length (filter is_fd (s_fe_be s k)) + (if s_pending s k = None then 0 else 1)
           + (if owes_ready (s_phase s k) then 1 else 0)
           + length (filter (\<lambda>b. b = OP_READY) (s_be_fe s k)) \<le> 1"
  using tokens_okD(3)[OF reachable_ok[OF assms], of k] by (simp add: work_defs split: if_splits)

theorem one_client_per_slot_witness:
  "length (filter is_fd (s_fe_be demo_sent 0)) + (if s_pending demo_sent 0 = None then 0 else 1)
           + (if owes_ready (s_phase demo_sent 0) then 1 else 0)
           + length (filter (\<lambda>b. b = OP_READY) (s_be_fe demo_sent 0)) \<le> 1"
  by (rule one_client_per_slot[OF demo_sent_reachable])



end
