(* ===== verification/Pool_Refinement.thy ===== *)
theory Pool_Refinement
  imports Pool_Props
begin

text \<open>
  What the pool promises, without its containers, clocks and counters: a book of the slots,
  each with its place, and the line of the waiting ones.  Every run of the pool is a run of
  the book.
\<close>

section \<open>The book\<close>

record slot_book =
  place :: "slot_id \<Rightarrow> slot_loc option"
  line :: "slot_id list"

text \<open>A slot joins, finishes what it does, serves the next client, is dismissed, or leaves.\<close>

inductive book_step :: "slot_book \<Rightarrow> slot_book \<Rightarrow> bool" where
  book_join: "place b i = None \<Longrightarrow> book_step b (b\<lparr>place := (place b)(i \<mapsto> In_Flight)\<rparr>)"
| book_finish: "place b i = Some In_Flight \<Longrightarrow>
    book_step b (b\<lparr>place := (place b)(i \<mapsto> In_Ready), line := line b @ [i]\<rparr>)"
| book_serve: "line b = i # rest \<Longrightarrow>
    book_step b (b\<lparr>place := (place b)(i \<mapsto> In_Flight), line := rest\<rparr>)"
| book_dismiss: "place b i = Some In_Ready \<Longrightarrow>
    book_step b (b\<lparr>place := (place b)(i \<mapsto> In_Draining), line := filter (\<lambda>j. j \<noteq> i) (line b)\<rparr>)"
| book_leave: "place b i \<noteq> None \<Longrightarrow>
    book_step b (b\<lparr>place := (place b)(i := None), line := filter (\<lambda>j. j \<noteq> i) (line b)\<rparr>)"

inductive_cases book_stepE: "book_step b c"

text \<open>
  The book is consistent: the line holds each waiting slot once.  No step of the book
  brings a dismissed slot back, and only serving takes a slot from the head of the line.
\<close>

definition book_ok :: "slot_book \<Rightarrow> bool" where
  "book_ok b \<longleftrightarrow> distinct (line b) \<and> set (line b) = {i. place b i = Some In_Ready}"

lemma book_okD: "book_ok b \<Longrightarrow> i \<in> set (line b) \<longleftrightarrow> place b i = Some In_Ready"
  by (simp add: book_ok_def)

lemma book_init_ok: "book_ok \<lparr>place = (\<lambda>_. None), line = []\<rparr>"
  by (simp add: book_ok_def)

lemma book_step_ok: "book_step b c \<Longrightarrow> book_ok b \<Longrightarrow> book_ok c"
  by (erule book_stepE) (auto simp: book_ok_def split: if_splits)

lemma book_dismissed_final:
  assumes "book_step b c" "book_ok b" "place b i = Some In_Draining"
  shows "place c i \<in> {Some In_Draining, None}"
  using assms(1,3) book_okD[OF assms(2), of i] by (elim book_stepE) (auto split: if_splits)

lemma book_serves_head:
  assumes "book_step b c" "book_ok b" "place b i = Some In_Ready" "place c i = Some In_Flight"
  shows "hd (line b) = i \<and> line c = tl (line b)"
  using assms(1,3,4) by (elim book_stepE) (auto split: if_splits)

abbreviation book_steps :: "slot_book \<Rightarrow> slot_book \<Rightarrow> bool" where
  "book_steps \<equiv> book_step\<^sup>*\<^sup>*"

definition book_of :: "'st pool_state \<Rightarrow> slot_book" where
  "book_of st = \<lparr>place = where_is st, line = ready_ids st\<rparr>"

lemma book_of_simps [simp]: "place (book_of st) = where_is st" "line (book_of st) = ready_ids st"
  by (simp_all add: book_of_def)

lemma book_of_ok: "pool_wf st \<Longrightarrow> book_ok (book_of st)"
  by (simp add: book_ok_def queue_distinct queue_loc)

lemma book_eqI: "place b = place c \<Longrightarrow> line b = line c \<Longrightarrow> b = (c :: slot_book)"
  by simp

section \<open>Every operation is a step of the book, or none\<close>

lemma accept_book:
  assumes "pool_wf st"
  shows "book_step (book_of st) (book_of (fst (accept_slot now stream st)))"
proof -
  have "ready_ids (fst (accept_slot now stream st)) = ready_ids st"
    by (simp add: ready_ids_def accept_slot_def next_slot_id_def)
  then have "book_of (fst (accept_slot now stream st)) =
      (book_of st)\<lparr>place := (place (book_of st))(slot_id_counter st \<mapsto> In_Flight)\<rparr>"
    by (simp add: book_of_def accept_where[OF assms])
  then show ?thesis using book_join[of "book_of st" "slot_id_counter st"] wf_fresh[OF assms] by simp
qed

lemma on_ready_book:
  assumes "pool_wf st"
  shows "book_steps (book_of st) (book_of (fst (on_ready now sid st)))"
proof (cases "where_is st sid = Some In_Flight")
  case True
  then have "book_of (fst (on_ready now sid st)) =
      (book_of st)\<lparr>place := (place (book_of st))(sid \<mapsto> In_Ready), line := line (book_of st) @ [sid]\<rparr>"
    by (simp add: book_of_def on_ready_where[OF assms] on_ready_queue[OF assms])
  then show ?thesis using book_finish[of "book_of st" sid] True by auto
next
  case False
  then have "book_of (fst (on_ready now sid st)) = book_of st"
    by (simp add: book_of_def on_ready_where[OF assms] on_ready_queue[OF assms])
  then show ?thesis by simp
qed

lemma dispatch_book:
  assumes "pool_wf st" "dispatch_step st st'"
  shows "book_steps (book_of st) (book_of st')"
  using assms(2)
proof (rule dispatch_stepE)
  fix stream assume pop: "try_pop_ready st = Some (stream, st')"
  have "book_of st' = (book_of st)\<lparr>place := (place (book_of st))(hd (ready_ids st) \<mapsto> In_Flight), line := ready_ids st'\<rparr>"
    by (simp add: book_of_def pop_where[OF assms(1) pop])
  then show ?thesis using book_serve[of "book_of st" "hd (ready_ids st)" "ready_ids st'"] pop_queue(1)[OF pop] by auto
qed simp

lemma drain_book:
  assumes "pool_wf st"
  shows "book_steps (book_of st) (book_of (fst (request_drain ok sid st)))"
proof (cases "where_is st sid = Some In_Ready")
  case True
  then have "book_of (fst (request_drain ok sid st)) = (book_of st)\<lparr>place := (place (book_of st))(sid \<mapsto> In_Draining),
      line := filter (\<lambda>j. j \<noteq> sid) (line (book_of st))\<rparr>"
    by (simp add: book_of_def drain_where[OF assms] drain_queue)
  then show ?thesis using book_dismiss[of "book_of st" sid] True by auto
next
  case False
  then have "sid \<notin> set (ready_ids st)" using queue_loc[OF assms] by auto
  then have "filter (\<lambda>j. j \<noteq> sid) (ready_ids st) = ready_ids st" by (auto intro: filter_True)
  then have "book_of (fst (request_drain ok sid st)) = book_of st"
    using False by (simp add: book_of_def drain_where[OF assms] drain_queue)
  then show ?thesis by simp
qed

lemma drain_all_book: "pool_wf st \<Longrightarrow> book_steps (book_of st) (book_of (fst (drain_all ok sids st)))"
proof (induction sids arbitrary: st)
  case (Cons sid sids)
  from rtranclp_trans[OF drain_book[OF Cons.prems] Cons.IH[OF drain_wf[OF Cons.prems]]]
  show ?case by (simp add: split_def Let_def)
qed simp

lemma leave_book:
  assumes "where_is st' = (where_is st)(sid := None)" "ready_ids st' = filter (\<lambda>j. j \<noteq> sid) (ready_ids st)"
    and "pool_wf st"
  shows "book_steps (book_of st) (book_of st')"
proof (cases "where_is st sid = None")
  case True
  then have "sid \<notin> set (ready_ids st)" using queue_loc[OF assms(3)] by auto
  then have "filter (\<lambda>j. j \<noteq> sid) (ready_ids st) = ready_ids st" by (auto intro: filter_True)
  then have "book_of st' = book_of st" using True assms(1,2) by (auto simp: book_of_def)
  then show ?thesis by simp
next
  case False
  have "book_of st' = (book_of st)\<lparr>place := (place (book_of st))(sid := None),
      line := filter (\<lambda>j. j \<noteq> sid) (line (book_of st))\<rparr>"
    using assms(1,2) by (simp add: book_of_def)
  then show ?thesis using book_leave[of "book_of st" sid] False by auto
qed

lemma cleanup_book: "pool_wf st \<Longrightarrow> book_steps (book_of st) (book_of (fst (cleanup_orphaned sid stream st)))"
  by (rule leave_book) (rule cleanup_where cleanup_queue, assumption)+

lemma ack_book:
  assumes "pool_wf st"
  shows "book_steps (book_of st) (book_of (on_drain_ack sid st))"
proof (cases "where_is st sid = Some In_Draining")
  case True
  then have "sid \<notin> set (ready_ids st)" using queue_loc[OF assms] by auto
  then have "ready_ids (on_drain_ack sid st) = filter (\<lambda>j. j \<noteq> sid) (ready_ids st)"
    by (auto simp: ack_queue intro!: sym[OF filter_True])
  then show ?thesis using True by (intro leave_book[of _ _ sid]) (simp_all add: ack_where[OF assms] assms)
next
  case False
  then have "book_of (on_drain_ack sid st) = book_of st" by (simp add: book_of_def ack_where[OF assms] ack_queue)
  then show ?thesis by simp
qed

lemma reader_book:
  assumes "pool_wf st"
  shows "book_steps (book_of st) (book_of (fst (snd (slot_reader_wrapper_turn now sid stream r st))))"
proof (cases r)
  case None
  then show ?thesis by (simp add: slot_reader_wrapper_turn_def cleanup_book[OF assms])
next
  case (Some o')
  have turn: "book_steps (book_of st) (book_of (fst (snd (slot_reader_turn now sid o' st))))"
    by (auto simp: slot_reader_turn_def on_ready_book ack_book assms split: sum.split)
  have wf: "pool_wf (fst (snd (slot_reader_turn now sid o' st)))" by (rule slot_reader_turn_wf[OF assms])
  show ?thesis
    using turn rtranclp_trans[OF turn cleanup_book[OF wf]]
    by (auto simp: Some slot_reader_wrapper_turn_def split_def Let_def)
qed

lemma event_book:
  assumes "pool_wf st"
  shows "book_steps (book_of st) (book_of (fst (pool_exec e st)))"
proof (cases e)
  case (E_Accept now r)
  then show ?thesis using accept_book[OF assms] by (cases r) auto
qed (use assms in \<open>simp_all add: reader_book dispatch_book[OF _ handoff_is_dispatch] dispatch_book[OF _ wake_is_dispatch]
      reap_once_def sighup_reconcile_def drain_all_book watchdog_ack ack_book\<close>)

lemma run_book:
  "pool_wf st \<Longrightarrow> unat (slot_id_counter st) + accepts es < 2 ^ 64 \<Longrightarrow>
    book_steps (book_of st) (book_of (fst (pool_run es st)))"
proof (induction es arbitrary: st)
  case (Cons e es)
  note step = run_legal_step[OF Cons.prems]
  from rtranclp_trans[OF event_book[OF Cons.prems(1)] Cons.IH[OF step(1,2)]]
  show ?case by (simp add: split_def Let_def)
qed simp

section \<open>Property\<close>



end
