(* ===== verification/Pool_Tasks.thy ===== *)
theory Pool_Tasks
  imports Pool_Events
begin

text \<open>
  \<open>backend/pool.rs\<close>: binding the control socket (with \<open>backend/paths.rs\<close>), and the
  long-lived tasks as the loops the code writes.  Each loop run on its own takes the
  steps of \<open>Pool_Events\<close>, which interleave them.
\<close>

section \<open>The control socket\<close>

definition slot_dir :: string where
  "slot_dir = ''/tmp/pg_transport_sockets''"

definition frontend_socket_path :: string where
  "frontend_socket_path = slot_dir @ ''/frontend.sock''"

datatype fs_call = Create_Dir_All string | Chmod string nat | Remove_File string | Bind_Unix string

text \<open>
  The file system answers each call with an error and its text, or with success; the
  functions return the calls they made, in order.  The paths are constants without NUL;
  the modes are octal 700 and 600.
\<close>

type_synonym fs_env = "fs_call \<Rightarrow> io_error option"

definition fs_try :: "fs_env \<Rightarrow> fs_call \<Rightarrow> string \<Rightarrow> (io_error + unit) \<times> fs_call list
      \<Rightarrow> (io_error + unit) \<times> fs_call list" where
  "fs_try fs c what next =
    (case fs c of
       Some (k, e) \<Rightarrow> (Inl (k, what @ '': '' @ e), [c])
     | None \<Rightarrow> (fst next, c # snd next))"

definition ensure_slot_dir :: "fs_env \<Rightarrow> (io_error + unit) \<times> fs_call list" where
  "ensure_slot_dir fs =
    fs_try fs (Create_Dir_All slot_dir) (''creating '' @ slot_dir)
      (fs_try fs (Chmod slot_dir 0x1C0) (''chmod 0700 '' @ slot_dir) (Inr (), []))"

definition unlink_stale :: "fs_env \<Rightarrow> string \<Rightarrow> (io_error + unit) \<times> fs_call list" where
  "unlink_stale fs path =
    (case fs (Remove_File path) of
       None \<Rightarrow> (Inr (), [Remove_File path])
     | Some (k, e) \<Rightarrow>
         if k = Not_Found then (Inr (), [Remove_File path])
         else (Inl (k, ''unlinking stale socket '' @ path @ '': '' @ e), [Remove_File path]))"

definition bind_listener :: "fs_env \<Rightarrow> (io_error + unit) \<times> fs_call list" where
  "bind_listener fs =
    (let (r1, t1) = ensure_slot_dir fs; path = frontend_socket_path in
     case r1 of Inl e \<Rightarrow> (Inl e, t1)
     | Inr _ \<Rightarrow> let (r2, t2) = unlink_stale fs path in
       (case r2 of Inl e \<Rightarrow> (Inl e, t1 @ t2)
        | Inr _ \<Rightarrow> let (r3, t3) = fs_try fs (Bind_Unix path) (''binding '' @ path)
              (fs_try fs (Chmod path 0x180) (''chmod 0600 '' @ path) (Inr (), []))
            in (r3, t1 @ t2 @ t3)))"

lemmas listener_defs = bind_listener_def ensure_slot_dir_def unlink_stale_def fs_try_def Let_def

text \<open>
  The socket is only ever created inside a directory that was closed to other users
  before, and the listener is only returned once the socket file is closed too.
\<close>

lemma socket_bound_in_private_dir:
  assumes "Bind_Unix path \<in> set (snd (bind_listener fs))"
  shows "path = frontend_socket_path" "fs (Chmod slot_dir 0x1C0) = None"
    "\<exists>us vs. snd (bind_listener fs) = us @ Chmod slot_dir 0x1C0 # vs \<and> Bind_Unix path \<in> set vs"
proof -
  show "path = frontend_socket_path" "fs (Chmod slot_dir 0x1C0) = None"
    using assms by (auto simp: listener_defs split: option.splits prod.splits if_splits)
  have "\<exists>vs. snd (bind_listener fs) = [Create_Dir_All slot_dir] @ Chmod slot_dir 0x1C0 # vs
      \<and> Bind_Unix path \<in> set vs"
    using assms by (auto simp: listener_defs split: option.splits prod.splits if_splits)
  then show "\<exists>us vs. snd (bind_listener fs) = us @ Chmod slot_dir 0x1C0 # vs \<and> Bind_Unix path \<in> set vs"
    by blast
qed

lemma bind_listener_ok:
  "fst (bind_listener fs) = Inr () \<longleftrightarrow>
     fs (Create_Dir_All slot_dir) = None \<and> fs (Chmod slot_dir 0x1C0) = None
   \<and> (case fs (Remove_File frontend_socket_path) of None \<Rightarrow> True | Some (k, e) \<Rightarrow> k = Not_Found)
   \<and> fs (Bind_Unix frontend_socket_path) = None \<and> fs (Chmod frontend_socket_path 0x180) = None"
  by (auto simp: listener_defs split: option.splits prod.splits if_splits)

section \<open>The accept loop and the reaper\<close>

text \<open>\<open>None\<close> is the cancelled shutdown token; the flag says whether the task has returned.\<close>

fun accept_loop :: "(instant \<times> 'st accept_outcome) option list \<Rightarrow> 'st pool_state
      \<Rightarrow> bool \<times> 'st pool_state \<times> 'st pool_effect list" where
  "accept_loop [] st = (False, st, [])"
| "accept_loop (None # rs) st = (True, st, [])"
| "accept_loop (Some (now, r) # rs) st =
    (let (st1, es1) = accept_loop_turn now r st; (fin, st2, es2) = accept_loop rs st1
     in (fin, st2, es1 @ es2))"

fun idle_reaper :: "(instant \<times> (slot_id \<Rightarrow> bool)) option list \<Rightarrow> 'st pool_state
      \<Rightarrow> bool \<times> 'st pool_state \<times> 'st pool_effect list" where
  "idle_reaper [] st = (False, st, [])"
| "idle_reaper (None # rs) st = (True, st, [])"
| "idle_reaper (Some (now, ok) # rs) st =
    (let (st1, es1) = reap_once now ok st; (fin, st2, es2) = idle_reaper rs st1
     in (fin, st2, es1 @ es2))"

text \<open>The turns up to the shutdown.\<close>

fun until_shutdown :: "'a option list \<Rightarrow> 'a list" where
  "until_shutdown [] = []"
| "until_shutdown (None # rs) = []"
| "until_shutdown (Some x # rs) = x # until_shutdown rs"

lemma accept_loop_events:
  "accept_loop rs st = (None \<in> set rs, pool_run (map (\<lambda>(now, r). E_Accept now r) (until_shutdown rs)) st)"
proof (induction rs arbitrary: st)
  case (Cons r rs) then show ?case by (cases r; cases "the r") (simp_all add: split_def Let_def)
qed simp

lemma idle_reaper_events:
  "idle_reaper rs st = (None \<in> set rs, pool_run (map (\<lambda>(now, ok). E_Reap now ok) (until_shutdown rs)) st)"
proof (induction rs arbitrary: st)
  case (Cons r rs) then show ?case by (cases r; cases "the r") (simp_all add: split_def Let_def)
qed simp

section \<open>The reader of a slot\<close>

datatype reader_end = Still_Reading | Reader_Returned | Reader_Panicked

text \<open>Each read comes with its instant; \<open>None\<close> is a panic of the reader.\<close>

fun slot_reader :: "slot_id \<Rightarrow> (instant \<times> (io_error + byte) option) list \<Rightarrow> 'st pool_state
      \<Rightarrow> reader_end \<times> 'st pool_state \<times> 'st pool_effect list" where
  "slot_reader sid [] st = (Still_Reading, st, [])"
| "slot_reader sid ((now, None) # rs) st = (Reader_Panicked, st, [])"
| "slot_reader sid ((now, Some (Inl e)) # rs) st = (Reader_Returned, st, [])"
| "slot_reader sid ((now, Some (Inr op)) # rs) st =
    (if op = OP_READY then
       (let (st1, es1) = on_ready now sid st; (fin, st2, es2) = slot_reader sid rs st1
        in (fin, st2, es1 @ es2))
     else if op = OP_DRAIN_ACK then (Reader_Returned, on_drain_ack sid st, [])
     else (Reader_Returned, st, []))"

definition slot_reader_wrapper :: "slot_id \<Rightarrow> 'st \<Rightarrow> (instant \<times> (io_error + byte) option) list
      \<Rightarrow> 'st pool_state \<Rightarrow> bool \<times> 'st pool_state \<times> 'st pool_effect list" where
  "slot_reader_wrapper sid stream rs st =
    (case slot_reader sid rs st of
       (Still_Reading, st1, es1) \<Rightarrow> (False, st1, es1)
     | (_, st1, es1) \<Rightarrow> let (st2, es2) = cleanup_orphaned sid stream st1 in (True, st2, es1 @ es2))"

fun reads_taken :: "(instant \<times> (io_error + byte) option) list \<Rightarrow> (instant \<times> (io_error + byte) option) list" where
  "reads_taken [] = []"
| "reads_taken ((now, r) # rs) = (now, r) # (if r = Some (Inr OP_READY) then reads_taken rs else [])"

text \<open>
  The loop inside the wrapper, with the clean-up after it, is the sequence of its turns,
  the last of which cleans up.
\<close>

lemma slot_reader_events:
  "slot_reader_wrapper sid stream rs st =
    (\<exists>r \<in> snd ` set rs. r \<noteq> Some (Inr OP_READY),
     pool_run (map (\<lambda>(now, r). E_Reader now sid stream r) (reads_taken rs)) st)"
proof (induction rs arbitrary: st)
  case (Cons r rs)
  obtain now x where r: "r = (now, x)" by (cases r)
  note turn = slot_reader_wrapper_turn_def slot_reader_turn_def split_def Let_def
  show ?case
  proof (cases "x = Some (Inr OP_READY)")
    case True
    have "slot_reader_wrapper sid stream (r # rs) st =
      (let (st1, es1) = on_ready now sid st; (fin, st2, es2) = slot_reader_wrapper sid stream rs st1
       in (fin, st2, es1 @ es2))"
      using True r by (simp add: slot_reader_wrapper_def split_def Let_def split: reader_end.split)
    then show ?thesis using True r by (simp add: Cons.IH turn)
  next
    case False
    then show ?thesis
      using r by (cases "(sid, r # rs, st)" rule: slot_reader.cases)
        (auto simp: slot_reader_wrapper_def turn)
  qed
qed (simp add: slot_reader_wrapper_def)

end
