(* ===== verification/Wakeups.thy ===== *)
theory Wakeups
  imports Pool_Props
begin

text \<open>
  \<open>backend/pool.rs\<close>: how waiting dispatchers are woken.  A dispatcher without a slot
  sleeps on \<open>has_ready\<close>, a \<open>Notify\<close> of the runtime; \<open>on_ready\<close> notifies it.  The cell is
  not part of the repository: its operations are parameters, and \<open>notify_laws\<close> states
  what its documentation promises.
\<close>

section \<open>The notification cell\<close>

text \<open>
  What can be seen of a cell: whether it stores a permit, who sleeps on it, and who was
  woken and has not run yet.  \<open>poll\<close> is a poll of the \<open>notified()\<close> future of a task: it
  answers whether the future is ready; \<open>cancel\<close> is its drop while it sleeps.
\<close>

record ('n, 'w) notify =
  stored :: "'n \<Rightarrow> bool"
  asleep :: "'n \<Rightarrow> 'w set"
  woken :: "'n \<Rightarrow> 'w set"
  notify_one :: "'n \<Rightarrow> 'n"
  poll :: "'w \<Rightarrow> 'n \<Rightarrow> bool \<times> 'n"
  cancel :: "'w \<Rightarrow> 'n \<Rightarrow> 'n"

text \<open>
  \<open>notify_one\<close> wakes one sleeper, or stores the one permit there is; a poll of a woken
  future is ready, a poll that finds the permit takes it, any other one goes to sleep.
\<close>

definition wakes_one :: "('n, 'w) notify \<Rightarrow> bool" where
  "wakes_one N \<longleftrightarrow> (\<forall>n. if asleep N n = {}
     then stored N (notify_one N n) \<and> asleep N (notify_one N n) = {} \<and> woken N (notify_one N n) = woken N n
     else \<exists>w \<in> asleep N n. asleep N (notify_one N n) = asleep N n - {w}
       \<and> woken N (notify_one N n) = insert w (woken N n) \<and> stored N (notify_one N n) = stored N n)"

definition polls_once :: "('n, 'w) notify \<Rightarrow> bool" where
  "polls_once N \<longleftrightarrow> (\<forall>w n. case poll N w n of (ready_now, n') \<Rightarrow>
     if w \<in> woken N n
     then ready_now \<and> woken N n' = woken N n - {w} \<and> asleep N n' = asleep N n \<and> stored N n' = stored N n
     else if w \<notin> asleep N n \<and> stored N n
     then ready_now \<and> \<not> stored N n' \<and> asleep N n' = asleep N n \<and> woken N n' = woken N n
     else \<not> ready_now \<and> asleep N n' = insert w (asleep N n) \<and> woken N n' = woken N n \<and> stored N n' = stored N n)"

definition cancels_sleep :: "('n, 'w) notify \<Rightarrow> bool" where
  "cancels_sleep N \<longleftrightarrow> (\<forall>w n. w \<in> asleep N n - woken N n \<longrightarrow> asleep N (cancel N w n) = asleep N n - {w}
     \<and> woken N (cancel N w n) = woken N n \<and> stored N (cancel N w n) = stored N n)"

definition notify_laws :: "('n, 'w) notify \<Rightarrow> bool" where
  "notify_laws N \<longleftrightarrow> wakes_one N \<and> polls_once N \<and> cancels_sleep N"

lemma notify_one_cases:
  assumes "notify_laws N"
  obtains (wakes) w where "w \<in> asleep N n" "asleep N (notify_one N n) = asleep N n - {w}"
      "woken N (notify_one N n) = insert w (woken N n)" "stored N (notify_one N n) = stored N n"
  | (stores) "asleep N n = {}" "asleep N (notify_one N n) = {}" "woken N (notify_one N n) = woken N n"
      "stored N (notify_one N n)"
proof -
  have "wakes_one N" using assms by (simp add: notify_laws_def)
  from this[unfolded wakes_one_def, rule_format, of n] show thesis
    using that by (cases "asleep N n = {}") auto
qed

lemma poll_cases:
  assumes "notify_laws N"
  obtains (woken) n' where "w \<in> woken N n" "poll N w n = (True, n')" "woken N n' = woken N n - {w}"
      "asleep N n' = asleep N n" "stored N n' = stored N n"
  | (permit) n' where "w \<notin> woken N n" "w \<notin> asleep N n" "stored N n" "poll N w n = (True, n')"
      "\<not> stored N n'" "asleep N n' = asleep N n" "woken N n' = woken N n"
  | (sleeps) n' where "w \<notin> woken N n" "w \<in> asleep N n \<or> \<not> stored N n" "poll N w n = (False, n')"
      "asleep N n' = insert w (asleep N n)" "woken N n' = woken N n" "stored N n' = stored N n"
proof -
  obtain b n' where p: "poll N w n = (b, n')" by (cases "poll N w n")
  have "polls_once N" using assms by (simp add: notify_laws_def)
  from this[unfolded polls_once_def, rule_format, of w n] show thesis
    using that p by (cases "w \<in> woken N n"; cases "w \<notin> asleep N n \<and> stored N n") auto
qed

lemma cancel_eqs:
  assumes "notify_laws N" "w \<in> asleep N n" "w \<notin> woken N n"
  shows "asleep N (cancel N w n) = asleep N n - {w}" "woken N (cancel N w n) = woken N n"
    "stored N (cancel N w n) = stored N n"
  using assms by (auto simp: notify_laws_def cancels_sleep_def)

section \<open>A dispatcher and its waits\<close>

text \<open>
  One run of a waiting dispatcher, from a poll of its future to the next suspension:
  the loop goes round as long as the future is ready and no slot is there.  A timer that
  has run out counts only when the future is not ready.  A dispatcher is named by the
  descriptor of its client.
\<close>

partial_function (option) wait_loop ::
  "('n, raw_fd) notify \<Rightarrow> bool \<Rightarrow> instant \<Rightarrow> raw_fd \<Rightarrow> 'n \<Rightarrow> 'st pool_state
     \<Rightarrow> (('st, raw_fd) handoff_pc \<times> 'n \<times> 'st pool_state) option" where
  "wait_loop N expired dl fd n st =
    (case poll N fd n of (ready_now, n1) \<Rightarrow>
       if ready_now then
         (case handoff_wake (Inr ()) (H_Waiting dl fd) st of (pc, st1) \<Rightarrow>
            if pc = H_Waiting dl fd then wait_loop N expired dl fd n1 st1 else Some (pc, n1, st1))
       else if expired then
         (case handoff_wake (Inl ()) (H_Waiting dl fd) st of (pc, st1) \<Rightarrow> Some (pc, cancel N fd n1, st1))
       else Some (H_Waiting dl fd, n1, st))"

declare wait_loop.simps [code]

definition handoff_task ::
  "('n, raw_fd) notify \<Rightarrow> 32 word \<Rightarrow> instant \<Rightarrow> raw_fd \<Rightarrow> grow_outcome \<Rightarrow> 'n \<Rightarrow> 'st pool_state
     \<Rightarrow> (('st, raw_fd) handoff_pc \<times> 'n \<times> 'st pool_state \<times> 'st pool_effect list) option" where
  "handoff_task N max_size now fd g n st =
    (case handoff_start max_size now fd g st of (pc, st1, fs) \<Rightarrow>
       (case pc of
          H_Waiting dl c \<Rightarrow> map_option (\<lambda>(pc, n1, st2). (pc, n1, st2, fs)) (wait_loop N False dl c n st1)
        | _ \<Rightarrow> Some (pc, n, st1, fs)))"

definition apply_notify :: "('n, 'w) notify \<Rightarrow> 'st pool_effect \<Rightarrow> 'n \<Rightarrow> 'n" where
  "apply_notify N fx n = (if fx = Notify_One then notify_one N n else n)"

section \<open>Dispatchers, slots and the cell together\<close>

record ('n, 'st) wakeup_sys =
  wk_pool :: "'st pool_state"
  wk_cell :: 'n
  wk_tasks :: "raw_fd \<Rightarrow> ('st, raw_fd) handoff_pc option"

fun dispatcher_event :: "'st pool_event \<Rightarrow> bool" where
  "dispatcher_event (E_Handoff m now fd g) = True"
| "dispatcher_event (E_Wake w pc) = True"
| "dispatcher_event _ = False"

text \<open>
  The runtime may run any waiting dispatcher at any time, woken or not; between two such
  runs every other task of the frontend may take its steps.
\<close>

inductive wakeup_step :: "('n, raw_fd) notify \<Rightarrow> ('n, 'st) wakeup_sys \<Rightarrow> ('n, 'st) wakeup_sys \<Rightarrow> bool" for N where
  new_client: "wakeup_step N s (s\<lparr>wk_pool := st', wk_cell := n', wk_tasks := (wk_tasks s)(fd \<mapsto> pc)\<rparr>)"
  if "wk_tasks s fd = None" and "handoff_task N max_size now fd g (wk_cell s) (wk_pool s) = Some (pc, n', st', fs)"
| dispatcher_runs: "wakeup_step N s (s\<lparr>wk_pool := st', wk_cell := n', wk_tasks := (wk_tasks s)(fd \<mapsto> pc)\<rparr>)"
  if "wk_tasks s fd = Some (H_Waiting dl fd)"
    and "wait_loop N expired dl fd (wk_cell s) (wk_pool s) = Some (pc, n', st')"
| dispatcher_done: "wakeup_step N s (s\<lparr>wk_tasks := (wk_tasks s)(fd := None)\<rparr>)"
  if "wk_tasks s fd = Some pc" and "\<forall>dl. pc \<noteq> H_Waiting dl fd"
| other_task: "wakeup_step N s (s\<lparr>wk_pool := st', wk_cell := fold (apply_notify N) fs (wk_cell s)\<rparr>)"
  if "\<not> dispatcher_event e" and "ids_left (wk_pool s)" and "pool_exec e (wk_pool s) = (st', fs)"

inductive wakeup_reach :: "('n, raw_fd) notify \<Rightarrow> 'n \<Rightarrow> ('n, 'st) wakeup_sys \<Rightarrow> bool" for N n0 where
  wakeup_init: "wakeup_reach N n0 \<lparr>wk_pool = pool_new, wk_cell = n0, wk_tasks = Map.empty\<rparr>"
| wakeup_next: "wakeup_reach N n0 s \<Longrightarrow> wakeup_step N s s' \<Longrightarrow> wakeup_reach N n0 s'"

definition fresh_cell :: "('n, 'w) notify \<Rightarrow> 'n \<Rightarrow> bool" where
  "fresh_cell N n \<longleftrightarrow> \<not> stored N n \<and> asleep N n = {} \<and> woken N n = {}"

inductive_cases wakeup_stepE: "wakeup_step N s s'"

section \<open>One run of a dispatcher\<close>

text \<open>
  While someone sleeps there is no stored permit, and there are at least as many woken
  dispatchers as ready slots.
\<close>

definition cell_ok :: "('n, 'w) notify \<Rightarrow> 'n \<Rightarrow> 'st pool_state \<Rightarrow> bool" where
  "cell_ok N n st \<longleftrightarrow> finite (woken N n) \<and> asleep N n \<inter> woken N n = {}
     \<and> (asleep N n \<noteq> {} \<longrightarrow> \<not> stored N n \<and> length (ready_ids st) \<le> card (woken N n))"

lemma cell_okD:
  assumes "cell_ok N n st"
  shows "finite (woken N n)" "w \<in> asleep N n \<Longrightarrow> w \<notin> woken N n" "stored N n \<Longrightarrow> asleep N n = {}"
    "w \<in> asleep N n \<Longrightarrow> length (ready_ids st) \<le> card (woken N n)"
  using assms by (auto simp: cell_ok_def)

text \<open>Who sleeps or was woken: the dispatchers that wait.\<close>

definition waiters :: "('n, 'w) notify \<Rightarrow> 'n \<Rightarrow> 'w set" where
  "waiters N n = asleep N n \<union> woken N n"

text \<open>What a run ends in.\<close>

definition ran :: "('n, raw_fd) notify \<Rightarrow> bool \<Rightarrow> instant \<Rightarrow> raw_fd \<Rightarrow> 'n \<Rightarrow> 'st pool_state
    \<Rightarrow> (('st, raw_fd) handoff_pc \<times> 'n \<times> 'st pool_state) option \<Rightarrow> bool" where
  "ran N expired dl fd n st r \<longleftrightarrow> (\<exists>pc n' st'. r = Some (pc, n', st') \<and> cell_ok N n' st'
     \<and> dispatch_step st st' \<and> insert fd (waiters N n') = insert fd (waiters N n)
     \<and> (if pc = H_Waiting dl fd then fd \<in> waiters N n' \<and> \<not> expired
        else fd \<notin> waiters N n' \<and> (\<forall>dl c. pc \<noteq> H_Waiting dl c)))"

lemma ranI:
  assumes "cell_ok N n' st'" "dispatch_step st st'" "insert fd (waiters N n') = insert fd (waiters N n)"
    and "if pc = H_Waiting dl fd then fd \<in> waiters N n' \<and> \<not> expired
      else fd \<notin> waiters N n' \<and> (\<forall>dl c. pc \<noteq> H_Waiting dl c)"
  shows "ran N expired dl fd n st (Some (pc, n', st'))"
  using assms unfolding ran_def by blast

lemma ran_mono:
  "ran N expired dl fd n1 st r \<Longrightarrow> insert fd (waiters N n1) = insert fd (waiters N n) \<Longrightarrow>
    ran N expired dl fd n st r"
  unfolding ran_def by auto

lemma dispatch_refl [simp]: "dispatch_step st st"
  by (simp add: dispatch_step_def)

lemma wait_sleeps:
  assumes laws: "notify_laws N" and ok: "cell_ok N n st"
    and "fd \<notin> woken N n" "fd \<in> asleep N n \<or> \<not> stored N n \<and> ready_ids st = []"
  shows "ran N expired dl fd n st (wait_loop N expired dl fd n st)"
  using laws
proof (cases rule: poll_cases[of N fd n])
  case (sleeps n')
  have n': "cell_ok N n' st" using ok assms(3,4) sleeps by (auto simp: cell_ok_def)
  show ?thesis
  proof (cases expired)
    case True
    have eqs: "asleep N (cancel N fd n') = asleep N n - {fd}" "woken N (cancel N fd n') = woken N n"
      "stored N (cancel N fd n') = stored N n'"
      using cancel_eqs[OF laws, of fd n'] sleeps by auto
    have "cell_ok N (cancel N fd n') st" using n' eqs sleeps by (auto simp: cell_ok_def)
    moreover have "wait_loop N expired dl fd n st
        = Some (H_Returned (Inl ''pg_transport pool: no slot became ready within 5s''), cancel N fd n', st)"
      using True sleeps(3) by (subst wait_loop.simps) simp
    moreover have "insert fd (waiters N (cancel N fd n')) = insert fd (waiters N n)" "fd \<notin> waiters N (cancel N fd n')"
      using eqs sleeps(1) unfolding waiters_def by blast+
    ultimately show ?thesis by (simp add: ranI)
  next
    case False
    then have "wait_loop N expired dl fd n st = Some (H_Waiting dl fd, n', st)"
      using sleeps(3) by (subst wait_loop.simps) simp
    moreover have "insert fd (waiters N n') = insert fd (waiters N n)" "fd \<in> waiters N n'"
      using sleeps by (auto simp: waiters_def)
    ultimately show ?thesis using n' False by (simp add: ranI)
  qed
qed (use assms(3,4) in auto)

lemma wake_pops:
  assumes "ready_ids st \<noteq> []"
  obtains stream st' where "try_pop_ready st = Some (stream, st')"
    "handoff_wake (Inr ()) (H_Waiting dl fd) st = (H_Sending stream fd ''slow-path'', st')"
  using assms pop_None[of st] by (cases "try_pop_ready st") auto

lemma wait_fresh:
  assumes laws: "notify_laws N" and ok: "cell_ok N n st"
    and "fd \<notin> woken N n" "fd \<notin> asleep N n" "ready_ids st = []"
  shows "ran N expired dl fd n st (wait_loop N expired dl fd n st)"
proof (cases "stored N n")
  case True
  show ?thesis using laws
  proof (cases rule: poll_cases[of N fd n])
    case (permit n')
    have "cell_ok N n' st" using ok permit True by (auto simp: cell_ok_def)
    then have "ran N expired dl fd n' st (wait_loop N expired dl fd n' st)"
      using permit assms(5) by (intro wait_sleeps[OF laws]) auto
    then have "ran N expired dl fd n st (wait_loop N expired dl fd n' st)"
      by (rule ran_mono) (use permit in \<open>simp add: waiters_def\<close>)
    moreover have "wait_loop N expired dl fd n st = wait_loop N expired dl fd n' st"
      using permit(4) assms(5)[folded pop_None] by (subst wait_loop.simps) simp
    ultimately show ?thesis by simp
  qed (use assms True in auto)
qed (use assms in \<open>auto intro: wait_sleeps\<close>)

lemma pop_length: "try_pop_ready st = Some (stream, st') \<Longrightarrow> length (ready_ids st) = Suc (length (ready_ids st'))"
  using pop_queue(1)[of st stream st'] by (metis length_Cons)

lemma wait_woken:
  assumes laws: "notify_laws N" and ok: "cell_ok N n st" and w: "fd \<in> woken N n"
  shows "ran N expired dl fd n st (wait_loop N expired dl fd n st)
     \<and> (ready_ids st \<noteq> [] \<longrightarrow> (\<exists>stream n' st'. wait_loop N expired dl fd n st = Some (H_Sending stream fd ''slow-path'', n', st')))"
  using laws
proof (cases rule: poll_cases[of N fd n])
  case (woken n')
  show ?thesis
  proof (cases "ready_ids st = []")
    case True
    have "cell_ok N n' st" using ok woken True by (auto simp: cell_ok_def)
    then have "ran N expired dl fd n' st (wait_loop N expired dl fd n' st)"
      using woken True w cell_okD(2)[OF ok, of fd] by (intro wait_fresh[OF laws]) auto
    then have "ran N expired dl fd n st (wait_loop N expired dl fd n' st)"
      by (rule ran_mono) (use woken in \<open>auto simp: waiters_def\<close>)
    moreover have "wait_loop N expired dl fd n st = wait_loop N expired dl fd n' st"
      using woken(2) True[folded pop_None] by (subst wait_loop.simps) simp
    ultimately show ?thesis using True by simp
  next
    case False
    then obtain stream st' where pop: "try_pop_ready st = Some (stream, st')"
        "handoff_wake (Inr ()) (H_Waiting dl fd) st = (H_Sending stream fd ''slow-path'', st')"
      by (rule wake_pops)
    have run: "wait_loop N expired dl fd n st = Some (H_Sending stream fd ''slow-path'', n', st')"
      using woken(2) pop(2) by (subst wait_loop.simps) simp
    have "cell_ok N n' st'"
      using ok woken w pop_length[OF pop(1)] by (auto simp: cell_ok_def)
    moreover have "insert fd (waiters N n') = insert fd (waiters N n)" "fd \<notin> waiters N n'"
      using woken cell_okD(2)[OF ok, of fd] w by (auto simp: waiters_def)
    moreover have "dispatch_step st st'" using pop(1) by (auto simp: dispatch_step_def)
    ultimately have "ran N expired dl fd n st (Some (H_Sending stream fd ''slow-path'', n', st'))"
      by (simp add: ranI)
    then show ?thesis using run by simp
  qed
qed (use w in auto)

lemma wait_loop_ran:
  assumes "notify_laws N" "cell_ok N n st" "fd \<in> asleep N n \<or> fd \<in> woken N n \<or> ready_ids st = []"
  shows "ran N expired dl fd n st (wait_loop N expired dl fd n st)"
proof (cases "fd \<in> woken N n")
  case False
  then show ?thesis using assms by (cases "fd \<in> asleep N n") (auto intro: wait_sleeps wait_fresh)
qed (use wait_woken[OF assms(1,2)] in blast)

section \<open>No wake-up is lost\<close>

text \<open>The cell knows exactly the dispatchers that wait.\<close>

definition wakeups_ok :: "('n, raw_fd) notify \<Rightarrow> ('n, 'st) wakeup_sys \<Rightarrow> bool" where
  "wakeups_ok N s \<longleftrightarrow> pool_wf (wk_pool s) \<and> cell_ok N (wk_cell s) (wk_pool s)
     \<and> (\<forall>fd. (\<exists>dl. wk_tasks s fd = Some (H_Waiting dl fd)) \<longleftrightarrow> fd \<in> waiters N (wk_cell s))"

lemma wakeups_okI:
  assumes "pool_wf (wk_pool s)" "cell_ok N (wk_cell s) (wk_pool s)"
    and "\<And>fd. (\<exists>dl. wk_tasks s fd = Some (H_Waiting dl fd)) \<longleftrightarrow> fd \<in> waiters N (wk_cell s)"
  shows "wakeups_ok N s"
  using assms by (simp add: wakeups_ok_def)

lemma wakeups_okD:
  assumes "wakeups_ok N s"
  shows "pool_wf (wk_pool s)" "cell_ok N (wk_cell s) (wk_pool s)"
    "(\<exists>dl. wk_tasks s fd = Some (H_Waiting dl fd)) \<longleftrightarrow> fd \<in> waiters N (wk_cell s)"
  using assms by (simp_all add: wakeups_ok_def)

text \<open>A run of a dispatcher keeps the invariant.\<close>

lemma ran_ok:
  assumes ok: "wakeups_ok N s" and "ran N expired dl fd (wk_cell s) (wk_pool s) (Some (pc, n', st'))"
  shows "wakeups_ok N (s\<lparr>wk_pool := st', wk_cell := n', wk_tasks := (wk_tasks s)(fd \<mapsto> pc)\<rparr>)"
proof -
  have r: "cell_ok N n' st'" "dispatch_step (wk_pool s) st'"
    "insert fd (waiters N n') = insert fd (waiters N (wk_cell s))"
    "if pc = H_Waiting dl fd then fd \<in> waiters N n' \<and> \<not> expired
     else fd \<notin> waiters N n' \<and> (\<forall>dl c. pc \<noteq> H_Waiting dl c)"
    using assms(2) unfolding ran_def by auto
  have "(\<exists>dl. ((wk_tasks s)(fd \<mapsto> pc)) w = Some (H_Waiting dl w)) \<longleftrightarrow> w \<in> waiters N n'" for w
  proof (cases "w = fd")
    case False
    then show ?thesis using r(3) wakeups_okD(3)[OF ok, of w] by auto
  qed (use r(4) in \<open>auto split: if_splits\<close>)
  then show ?thesis using dispatch_wf[OF r(2)] wakeups_okD(1)[OF ok] r(1) by (intro wakeups_okI) simp_all
qed

text \<open>Any other task adds at most the slots it notifies.\<close>

lemma apply_notify_ok:
  assumes laws: "notify_laws N" and ok: "cell_ok N n st" and len: "length (ready_ids st') \<le> Suc (length (ready_ids st))"
  shows "cell_ok N (notify_one N n) st'"
  using laws
proof (cases rule: notify_one_cases[of N n])
  case (wakes w)
  note old = cell_okD[OF ok]
  have "length (ready_ids st') \<le> card (woken N (notify_one N n))"
    using old(1) old(2,4)[OF wakes(1)] wakes(3) len by simp
  moreover have "\<not> stored N n" using old(3) wakes(1) by blast
  moreover have "asleep N (notify_one N n) \<inter> woken N (notify_one N n) = {}"
    using old(2) wakes(2,3) by blast
  ultimately show ?thesis unfolding cell_ok_def using old(1) wakes(3,4) by simp
next
  case stores
  then show ?thesis using cell_okD(1)[OF ok] by (simp add: cell_ok_def)
qed

lemma cell_ok_fewer:
  "cell_ok N n st \<Longrightarrow> length (ready_ids st') \<le> length (ready_ids st) \<Longrightarrow> cell_ok N n st'"
  by (auto simp: cell_ok_def)

lemma notify_domain:
  assumes "notify_laws N"
  shows "waiters N (notify_one N n) = waiters N n"
  using assms by (cases rule: notify_one_cases[of N n]) (auto simp: waiters_def)

lemma notify_none: "Notify_One \<notin> set fs \<Longrightarrow> fold (apply_notify N) fs n = n"
  by (induction fs arbitrary: n) (auto simp: apply_notify_def)

text \<open>The reader of a slot notifies exactly when it puts the slot into the queue.\<close>

lemma reader_notifies:
  assumes "pool_wf st" "slot_reader_wrapper_turn now sid stream r st = (go, st', fs)"
  shows "fs = [Notify_One] \<and> length (ready_ids st') = Suc (length (ready_ids st))
    \<or> Notify_One \<notin> set fs \<and> length (ready_ids st') \<le> length (ready_ids st)"
proof -
  have cl: "Notify_One \<notin> set (snd (cleanup_orphaned sid stream st1))" for st1
    by (auto simp: cleanup_orphaned_def split: option.split)
  have len: "length (ready_ids (fst (cleanup_orphaned sid stream st1))) \<le> length (ready_ids st1)" if "pool_wf st1" for st1
    by (simp add: cleanup_queue[OF that])
  have on: "on_ready now sid st = (st, []) \<or> snd (on_ready now sid st) = [Notify_One]
      \<and> length (ready_ids (fst (on_ready now sid st))) = Suc (length (ready_ids st))"
    using on_ready_queue[OF assms(1), of now sid] assms(1)
    by (rule_tac shift_remove_cases[of sid "in_flight st"]) (auto simp: on_ready_def pool_simps)
  show ?thesis
    using assms on cl len ack_wf[OF assms(1), of sid] ack_queue[of sid st]
    by (auto simp: slot_reader_wrapper_turn_def slot_reader_turn_def Let_def split_def
        split: option.splits sum.splits if_splits)
      (metis fst_conv snd_conv)+
qed

lemma quiet_drain_all: "Notify_One \<notin> set (snd (drain_all ok sids st))"
proof (induction sids arbitrary: st)
  case (Cons sid sids)
  have "Notify_One \<notin> set (snd (request_drain (ok sid) sid st))"
    by (auto simp: request_drain_def split: option.split)
  then show ?case using Cons by (simp add: split_def Let_def)
qed simp

lemma other_event_notifies:
  assumes "pool_wf st" "\<not> dispatcher_event e" "pool_exec e st = (st', fs)"
  shows "fs = [Notify_One] \<and> length (ready_ids st') = Suc (length (ready_ids st))
    \<or> Notify_One \<notin> set fs \<and> length (ready_ids st') \<le> length (ready_ids st)"
proof (cases e)
  case (E_Accept now r)
  then show ?thesis using assms by (cases r) (auto simp: accept_slot_def next_slot_id_def ready_ids_def)
next
  case (E_Reader now sid stream r)
  obtain go st1 fs1 where turn: "slot_reader_wrapper_turn now sid stream r st = (go, st1, fs1)" by (metis prod_cases3)
  show ?thesis using reader_notifies[OF assms(1) turn] assms(3) E_Reader turn by simp
next
  case (E_Reap now ok)
  then show ?thesis using assms quiet_drain_all[of ok _ st] drain_all_queue[of ok _ st]
    by (auto simp: reap_once_def) (metis fst_conv length_filter_le snd_conv)+
next
  case (E_Sighup max_size ok)
  then show ?thesis using assms quiet_drain_all[of ok _ st] drain_all_queue[of ok _ st]
    by (auto simp: sighup_reconcile_def) (metis fst_conv length_filter_le snd_conv)+
next
  case (E_Watchdog sid stream)
  then show ?thesis using assms
    by (auto simp: watchdog_fire_def ready_ids_def split: option.splits)
qed (use assms in auto)

lemma other_task_ok:
  assumes "notify_laws N" "wakeups_ok N s" "\<not> dispatcher_event e" "ids_left (wk_pool s)"
    and "pool_exec e (wk_pool s) = (st', fs)"
  shows "wakeups_ok N (s\<lparr>wk_pool := st', wk_cell := fold (apply_notify N) fs (wk_cell s)\<rparr>)"
proof -
  note old = wakeups_okD[OF assms(2)]
  have wf': "pool_wf st'" using event_wf[OF old(1), of e] assms(4,5) by simp
  consider "fs = [Notify_One]" "length (ready_ids st') = Suc (length (ready_ids (wk_pool s)))"
    | "Notify_One \<notin> set fs" "length (ready_ids st') \<le> length (ready_ids (wk_pool s))"
    using other_event_notifies[OF old(1) assms(3,5)] by blast
  then show ?thesis
  proof cases
    case 1
    have "cell_ok N (notify_one N (wk_cell s)) st'" using 1 by (intro apply_notify_ok[OF assms(1) old(2)]) simp
    then show ?thesis using 1 wf' old(3) notify_domain[OF assms(1), of "wk_cell s"]
      by (intro wakeups_okI) (simp_all add: apply_notify_def)
  next
    case 2
    then show ?thesis using wf' old(3) cell_ok_fewer[OF old(2)] by (intro wakeups_okI) (simp_all add: notify_none)
  qed
qed

lemma new_client_ok:
  assumes laws: "notify_laws N" and ok: "wakeups_ok N s" and new: "wk_tasks s fd = None"
    and run: "handoff_task N max_size now fd g (wk_cell s) (wk_pool s) = Some (pc, n', st', fs)"
  shows "wakeups_ok N (s\<lparr>wk_pool := st', wk_cell := n', wk_tasks := (wk_tasks s)(fd \<mapsto> pc)\<rparr>)"
proof -
  note old = wakeups_okD[OF ok]
  have fd: "fd \<notin> waiters N (wk_cell s)" using old(3)[of fd] new by simp
  obtain pc0 st1 fs1 where start: "handoff_start max_size now fd g (wk_pool s) = (pc0, st1, fs1)" by (metis prod_cases3)
  have disp: "dispatch_step (wk_pool s) st1" using handoff_is_dispatch[OF old(1), of max_size now fd g] start by simp
  have "\<exists>dl. ran N False dl fd (wk_cell s) (wk_pool s) (Some (pc, n', st'))"
  proof (cases "\<exists>dl c. pc0 = H_Waiting dl c")
    case True
    then obtain dl where pc0: "pc0 = H_Waiting dl fd" and st1: "st1 = wk_pool s" and empty: "ready_ids (wk_pool s) = []"
      using start old(1) pop_None[of "wk_pool s"]
      by (auto simp: handoff_start_def grow_guard_drop_def Let_def split_def should_grow_def split: option.splits if_splits)
    then have "wait_loop N False dl fd (wk_cell s) (wk_pool s) = Some (pc, n', st')"
      using run start by (auto simp: handoff_task_def)
    then show ?thesis using wait_loop_ran[OF laws old(2), of fd False dl] empty by auto
  next
    case False
    then have eqs: "pc = pc0" "n' = wk_cell s" "st' = st1"
      using run start by (auto simp: handoff_task_def split: handoff_pc.splits)
    have "cell_ok N (wk_cell s) st1"
      using disp cell_ok_fewer[OF old(2)] pop_length by (elim dispatch_stepE) fastforce+
    then show ?thesis using disp fd False eqs by (intro exI[of _ 0] ranI) auto
  qed
  then show ?thesis using ran_ok[OF ok] by blast
qed

lemma dispatcher_runs_ok:
  assumes laws: "notify_laws N" and ok: "wakeups_ok N s" and waits: "wk_tasks s fd = Some (H_Waiting dl fd)"
    and run: "wait_loop N expired dl fd (wk_cell s) (wk_pool s) = Some (pc, n', st')"
  shows "wakeups_ok N (s\<lparr>wk_pool := st', wk_cell := n', wk_tasks := (wk_tasks s)(fd \<mapsto> pc)\<rparr>)"
proof -
  have "fd \<in> asleep N (wk_cell s) \<or> fd \<in> woken N (wk_cell s)"
    using wakeups_okD(3)[OF ok, of fd] waits by (auto simp: waiters_def)
  then show ?thesis using wait_loop_ran[OF laws wakeups_okD(2)[OF ok], of fd expired dl] run
    by (intro ran_ok[OF ok]) auto
qed

lemma dispatcher_done_ok:
  assumes "wakeups_ok N s" "wk_tasks s fd = Some pc" "\<forall>dl. pc \<noteq> H_Waiting dl fd"
  shows "wakeups_ok N (s\<lparr>wk_tasks := (wk_tasks s)(fd := None)\<rparr>)"
  using wakeups_okD[OF assms(1)] wakeups_okD(3)[OF assms(1), of fd] assms(2,3)
  by (intro wakeups_okI) auto

lemma wakeup_step_ok: "wakeup_step N s s' \<Longrightarrow> notify_laws N \<Longrightarrow> wakeups_ok N s \<Longrightarrow> wakeups_ok N s'"
  by (induction rule: wakeup_step.induct)
    (blast intro: new_client_ok dispatcher_runs_ok dispatcher_done_ok other_task_ok)+

lemma wakeup_reach_ok:
  assumes "wakeup_reach N n0 s" "notify_laws N" "fresh_cell N n0"
  shows "wakeups_ok N s"
  using assms(1)
proof induction
  case wakeup_init
  then show ?case using assms(3)
    by (intro wakeups_okI) (simp_all add: fresh_cell_def cell_ok_def waiters_def)
qed (use wakeup_step_ok assms(2) in blast)

text \<open>A new client is parked, served or refused, never lost in the loop.\<close>

lemma handoff_task_returns:
  assumes "notify_laws N" "cell_ok N n st" "pool_wf st"
  shows "\<exists>r. handoff_task N max_size now fd g n st = Some r"
proof -
  obtain pc st1 fs where start: "handoff_start max_size now fd g st = (pc, st1, fs)" by (metis prod_cases3)
  show ?thesis
  proof (cases "\<exists>dl c. pc = H_Waiting dl c")
    case True
    then obtain dl c where pc: "pc = H_Waiting dl c" by blast
    have "st1 = st" "ready_ids st = []"
      using start assms(3) pop_None[of st] pc
      by (auto simp: handoff_start_def grow_guard_drop_def Let_def split_def should_grow_def split: option.splits if_splits)
    then have "ran N False dl c n st (wait_loop N False dl c n st)" using wait_loop_ran[OF assms(1,2)] by blast
    then show ?thesis using start pc \<open>st1 = st\<close> by (auto simp: handoff_task_def ran_def)
  next
    case False
    then show ?thesis using start by (cases pc) (simp_all add: handoff_task_def)
  qed
qed

text \<open>The outcomes of a run, by induction on the loop.\<close>

lemma wait_loop_outcome:
  fixes N :: "('n, raw_fd) notify" and st :: "'st pool_state"
  assumes "wait_loop N expired dl fd n st = Some (pc, n', st')"
  shows "pc = H_Waiting dl fd \<or> pc = H_Returned (Inl ''pg_transport pool: no slot became ready within 5s'')
    \<or> (\<exists>stream. pc = H_Sending stream fd ''slow-path'')"
proof -
  let ?P = "\<lambda>N expired dl fd n st r. fst r = H_Waiting dl fd
    \<or> fst r = H_Returned (Inl ''pg_transport pool: no slot became ready within 5s'')
    \<or> (\<exists>stream. fst r = H_Sending stream fd ''slow-path'')"
  have "?P N expired dl fd n st (pc, n', st')"
  proof (rule wait_loop.raw_induct[of ?P, OF _ assms])
    fix loop and N :: "('n, raw_fd) notify" and expired dl fd n and st :: "'st pool_state" and r
    assume IH: "\<And>N expired dl fd n st r. loop N expired dl fd n st = Some r \<Longrightarrow> ?P N expired dl fd n st r"
      and run: "(case poll N fd n of (ready_now, n1) \<Rightarrow>
        if ready_now then
          (case handoff_wake (Inr ()) (H_Waiting dl fd) st of (pc, st1) \<Rightarrow>
             if pc = H_Waiting dl fd then loop N expired dl fd n1 st1 else Some (pc, n1, st1))
        else if expired then
          (case handoff_wake (Inl ()) (H_Waiting dl fd) st of (pc, st1) \<Rightarrow> Some (pc, cancel N fd n1, st1))
        else Some (H_Waiting dl fd, n1, st)) = Some r"
    show "?P N expired dl fd n st r"
      using run IH[of N expired dl fd] by (auto split: prod.splits if_splits option.splits)
  qed
  then show ?thesis by simp
qed

text \<open>A dispatcher that runs after its deadline does not wait again.\<close>

lemma expired_run:
  assumes "notify_laws N" "cell_ok N n st" "fd \<in> waiters N n"
  obtains pc n' st' where "wait_loop N True dl fd n st = Some (pc, n', st')" "fd \<notin> waiters N n'" "\<forall>dl c. pc \<noteq> H_Waiting dl c"
proof -
  have "ran N True dl fd n st (wait_loop N True dl fd n st)"
    using assms(3) by (intro wait_loop_ran[OF assms(1,2)]) (auto simp: waiters_def)
  then show thesis using that by (auto simp: ran_def split: if_splits)
qed

section \<open>A first in, first out cell\<close>

text \<open>A queue of sleepers satisfies the laws.\<close>

fun fifo_notify_one :: "bool \<times> 'w list \<times> 'w list \<Rightarrow> bool \<times> 'w list \<times> 'w list" where
  "fifo_notify_one (permit, [], ws) = (True, [], ws)"
| "fifo_notify_one (permit, w # q, ws) = (permit, removeAll w q, w # ws)"

fun fifo_poll :: "'w \<Rightarrow> bool \<times> 'w list \<times> 'w list \<Rightarrow> bool \<times> bool \<times> 'w list \<times> 'w list" where
  "fifo_poll w (permit, q, ws) =
    (if w \<in> set ws then (True, permit, q, removeAll w ws)
     else if w \<notin> set q \<and> permit then (True, False, q, ws)
     else (False, permit, if w \<in> set q then q else q @ [w], ws))"

definition fifo :: "(bool \<times> 'w list \<times> 'w list, 'w) notify" where
  "fifo = \<lparr>stored = fst, asleep = (\<lambda>n. set (fst (snd n))), woken = (\<lambda>n. set (snd (snd n))),
     notify_one = fifo_notify_one, poll = fifo_poll,
     cancel = (\<lambda>w n. (fst n, removeAll w (fst (snd n)), snd (snd n)))\<rparr>"

lemma fifo_sel [simp]:
  "stored fifo = fst" "asleep fifo n = set (fst (snd n))" "woken fifo n = set (snd (snd n))"
  "notify_one fifo = fifo_notify_one" "poll fifo = fifo_poll"
  "cancel fifo w n = (fst n, removeAll w (fst (snd n)), snd (snd n))"
  by (simp_all add: fifo_def)

lemma fifo_laws: "notify_laws (fifo :: (bool \<times> 'w list \<times> 'w list, 'w) notify)"
proof -
  have "wakes_one (fifo :: (bool \<times> 'w list \<times> 'w list, 'w) notify)" unfolding wakes_one_def
  proof
    fix n :: "bool \<times> 'w list \<times> 'w list"
    show "if asleep fifo n = {}
      then stored fifo (notify_one fifo n) \<and> asleep fifo (notify_one fifo n) = {} \<and> woken fifo (notify_one fifo n) = woken fifo n
      else \<exists>w \<in> asleep fifo n. asleep fifo (notify_one fifo n) = asleep fifo n - {w}
        \<and> woken fifo (notify_one fifo n) = insert w (woken fifo n) \<and> stored fifo (notify_one fifo n) = stored fifo n"
      by (cases n rule: fifo_notify_one.cases) auto
  qed
  moreover have "polls_once (fifo :: (bool \<times> 'w list \<times> 'w list, 'w) notify)" by (auto simp: polls_once_def)
  moreover have "cancels_sleep (fifo :: (bool \<times> 'w list \<times> 'w list, 'w) notify)" by (auto simp: cancels_sleep_def)
  ultimately show ?thesis by (simp add: notify_laws_def)
qed

text \<open>A client comes to an empty pool, a worker connects and reports ready.\<close>

definition demo_ready :: "nat pool_state" where
  "demo_ready = \<lparr>ready = [(0, \<lparr>sp_slot_id = 0, sp_stream = 7, sp_last_ready_at = 5\<rparr>)], in_flight = [],
     draining = [], slot_id_counter = 1, growing = False\<rparr>"

definition demo_woken :: "(bool \<times> raw_fd list \<times> raw_fd list, nat) wakeup_sys" where
  "demo_woken = \<lparr>wk_pool = demo_ready, wk_cell = (False, [], [9]), wk_tasks = [9 \<mapsto> H_Waiting HANDOFF_WAIT 9]\<rparr>"

lemma demo_woken_reached: "wakeup_reach fifo (False, [], []) demo_woken"
proof -
  let ?s0 = "\<lparr>wk_pool = (pool_new :: nat pool_state), wk_cell = (False, [], []), wk_tasks = Map.empty\<rparr>"
  let ?s1 = "\<lparr>wk_pool = (pool_new :: nat pool_state), wk_cell = (False, [9], []), wk_tasks = [9 \<mapsto> H_Waiting HANDOFF_WAIT 9]\<rparr>"
  let ?s2 = "?s1\<lparr>wk_pool := fst (accept_slot 3 7 pool_new)\<rparr>"
  have "handoff_task fifo 2 0 9 Grow_Ok (False, [], []) (pool_new :: nat pool_state)
      = Some (H_Waiting HANDOFF_WAIT 9, (False, [9], []), pool_new, [Load_Dynamic])"
    by (simp add: handoff_task_def handoff_start_def try_pop_ready_def pool_new_def should_grow_def total_def
        grow_one_def grow_guard_drop_def Let_def wait_loop.simps)
  then have 1: "wakeup_step fifo ?s0 ?s1"
    using wakeup_step.new_client[of ?s0 9 fifo 2 0 Grow_Ok] by simp
  have 2: "wakeup_step fifo ?s1 ?s2"
    using wakeup_step.other_task[of "E_Accept 3 (Accepted 7)" ?s1 _ _ fifo]
    by (simp add: ids_left_def pool_new_def accept_slot_def next_slot_id_def apply_notify_def)
  have 3: "wakeup_step fifo ?s2 demo_woken"
    using wakeup_step.other_task[of "E_Reader 5 0 7 (Some (Inr OP_READY))" ?s2 _ _ fifo]
    by (simp add: ids_left_def pool_new_def accept_slot_def next_slot_id_def apply_notify_def demo_woken_def demo_ready_def
        slot_reader_wrapper_turn_def slot_reader_turn_def on_ready_def shift_remove_def)
  show ?thesis using wakeup_next[OF wakeup_next[OF wakeup_next[OF wakeup_init 1] 2] 3] .
qed

section \<open>What a waiting client can rely on\<close>

text \<open>C7. No wake-up is lost: under every interleaving of clients, slots, reaps, drains and watchdogs
  every dispatcher that waits is known to the notification cell, while one sleeps there are at least
  as many woken dispatchers as ready slots, and a woken dispatcher that runs while a slot is ready
  takes it, whether or not its deadline has passed.\<close>

theorem no_wakeup_is_lost:
  assumes "wakeup_reach N n0 s" and "notify_laws N" and "fresh_cell N n0"
  shows "((\<exists>dl. wk_tasks s fd = Some (H_Waiting dl fd)) \<longleftrightarrow> fd \<in> asleep N (wk_cell s) \<union> woken N (wk_cell s))
    \<and> (asleep N (wk_cell s) \<noteq> {} \<longrightarrow> length (ready (wk_pool s)) \<le> card (woken N (wk_cell s)))
    \<and> (fd \<in> woken N (wk_cell s) \<and> ready (wk_pool s) \<noteq> [] \<longrightarrow>
        (\<exists>stream n' st'. wait_loop N expired dl fd (wk_cell s) (wk_pool s)
           = Some (H_Sending stream fd ''slow-path'', n', st')))"
proof -
  note ok = wakeups_okD[OF wakeup_reach_ok[OF assms]]
  have "length (ready_ids (wk_pool s)) \<le> card (woken N (wk_cell s))" if "asleep N (wk_cell s) \<noteq> {}"
    using that cell_okD(4)[OF ok(2)] by blast
  then show ?thesis using ok(3)[of fd] wait_woken[OF assms(2) ok(2), of fd expired dl]
    by (auto simp: waiters_def ready_ids_def keys_def)
qed

theorem no_wakeup_is_lost_witness:
  "\<exists>stream n' st'. wait_loop fifo True HANDOFF_WAIT 9 (wk_cell demo_woken) (wk_pool demo_woken)
     = Some (H_Sending stream 9 ''slow-path'', n', st')"
  using no_wakeup_is_lost[OF demo_woken_reached fifo_laws, of 9 True HANDOFF_WAIT]
  by (simp add: fresh_cell_def demo_woken_def demo_ready_def)



end
