(* ===== verification/Frontend.thy ===== *)
theory Frontend
  imports Pool_Props
begin

text \<open>
  \<open>frontend.rs\<close> and \<open>handoff/tcp.rs\<close>: the life of the frontend worker from binding its
  socket to its shutdown, and the accept loop of the TCP transport.  The two loops wait
  for events; a list of events is what has happened so far, in the order in which the
  loop took them.
\<close>

section \<open>The watchdog of the postmaster\<close>

text \<open>\<open>read\<close> of one byte on the non-blocking pipe: end of file is the only sign of death.\<close>

definition postmaster_died :: "int \<Rightarrow> int \<Rightarrow> bool" where
  "postmaster_died rc errno \<longleftrightarrow> rc = 0"

section \<open>The interface of a transport\<close>

text \<open>
  \<open>api/src/lib.rs\<close>: what a transport may ask of the pool.  A sink takes a socket with its
  hints; the handle passes both on.
\<close>

record handoff_hints =
  tls_allowed :: bool

definition no_tls :: handoff_hints where
  "no_tls = \<lparr>tls_allowed = False\<rparr>"

type_synonym 'r handoff_sink = "raw_fd \<Rightarrow> handoff_hints \<Rightarrow> 'r"

record 'r handoff_handle =
  hh_sink :: "'r handoff_sink"

definition handle_new :: "'r handoff_sink \<Rightarrow> 'r handoff_handle" where
  "handle_new sink = \<lparr>hh_sink = sink\<rparr>"

definition handle_handoff :: "'r handoff_handle \<Rightarrow> raw_fd \<Rightarrow> handoff_hints \<Rightarrow> 'r" where
  "handle_handoff h fd hints = hh_sink h fd hints"

text \<open>The pool as a sink: it does not look at the hints.\<close>

definition pool_sink :: "32 word \<Rightarrow> instant \<Rightarrow> grow_outcome \<Rightarrow> 'st pool_state
    \<Rightarrow> (('st, raw_fd) handoff_pc \<times> 'st pool_state \<times> 'st pool_effect list) handoff_sink" where
  "pool_sink max_size now g st fd hints = handoff_start max_size now fd g st"

section \<open>The TCP transport\<close>

text \<open>
  An accepted stream may fail to leave the runtime (\<open>into_std\<close>); an accept error is
  transient or is logged, and the loop goes on in both cases.
\<close>

datatype tcp_event = Tcp_Shutdown | Tcp_Accepted "io_error + raw_fd" | Tcp_Accept_Error bool

datatype tcp_effect = Tcp_Spawn "io_error + raw_fd" | Tcp_Warn string

text \<open>One turn of the loop: whether it goes on, and what it started.\<close>

fun tcp_turn :: "tcp_event \<Rightarrow> bool \<times> tcp_effect list" where
  "tcp_turn Tcp_Shutdown = (False, [])"
| "tcp_turn (Tcp_Accepted stream) = (True, [Tcp_Spawn stream])"
| "tcp_turn (Tcp_Accept_Error transient) = (True, if transient then [] else [Tcp_Warn ''accept error''])"

text \<open>The whole transport: it returns an error when it cannot bind, and \<open>Ok\<close> on shutdown.\<close>

fun tcp_loop :: "tcp_event list \<Rightarrow> tcp_effect list \<times> (string + unit) option" where
  "tcp_loop [] = ([], None)"
| "tcp_loop (e # es) =
    (case tcp_turn e of
       (False, fs) \<Rightarrow> (fs, Some (Inr ()))
     | (True, fs) \<Rightarrow> (case tcp_loop es of (gs, r) \<Rightarrow> (fs @ gs, r)))"

definition tcp_run :: "string + unit \<Rightarrow> tcp_event list \<Rightarrow> tcp_effect list \<times> (string + unit) option" where
  "tcp_run bind es = (case bind of Inl e \<Rightarrow> ([], Some (Inl e)) | Inr _ \<Rightarrow> tcp_loop es)"

text \<open>The task of one connection: the socket it hands off, if it has one.\<close>

definition tcp_task :: "io_error + raw_fd \<Rightarrow> raw_fd option" where
  "tcp_task stream = (case stream of Inl e \<Rightarrow> None | Inr fd \<Rightarrow> Some fd)"

definition tcp_connection :: "'r handoff_handle \<Rightarrow> io_error + raw_fd \<Rightarrow> 'r option" where
  "tcp_connection h stream = map_option (\<lambda>fd. handle_handoff h fd no_tls) (tcp_task stream)"

text \<open>A transport by its configuration; \<open>bind\<close> is the result of binding an address.\<close>

record tcp_handoff_cfg =
  bind_addr :: string

definition tcp_handoff_name :: string where
  "tcp_handoff_name = ''tcp_handoff''"

definition tcp_handoff_run ::
  "(string \<Rightarrow> string + unit) \<Rightarrow> tcp_handoff_cfg \<Rightarrow> tcp_event list \<Rightarrow> tcp_effect list \<times> (string + unit) option" where
  "tcp_handoff_run bind cfg es =
    tcp_run (case bind (bind_addr cfg) of
        Inl e \<Rightarrow> Inl (''tcp_handoff: bind '' @ bind_addr cfg @ '': '' @ e)
      | Inr u \<Rightarrow> Inr u) es"

text \<open>An accepted client reaches the pool's dispatcher, one whose stream fails does not.\<close>

lemma tcp_connection_dispatches:
  "tcp_connection (handle_new (pool_sink max_size now g st)) (Inr fd) = Some (handoff_start max_size now fd g st)"
  "tcp_connection (handle_new (pool_sink max_size now g st)) (Inl e) = None"
  by (simp_all add: tcp_connection_def tcp_task_def handle_new_def handle_handoff_def pool_sink_def)

lemma tcp_loop_runs:
  "Tcp_Shutdown \<notin> set es \<Longrightarrow> tcp_loop (es @ rest) =
    (concat (map (snd \<circ> tcp_turn) es) @ fst (tcp_loop rest), snd (tcp_loop rest))"
proof (induction es)
  case (Cons e es)
  then show ?case by (cases e) (auto split: prod.split)
qed simp

section \<open>The supervisor loop\<close>

text \<open>
  What the loop waits for, and the steps that the other tasks of the thread take on the
  pool between two of its turns.
\<close>

datatype 'st fe_event =
    Fe_Sigterm
  | Fe_Sighup "32 word" "slot_id \<Rightarrow> bool"
  | Fe_Watchdog int int
  | Fe_Heartbeat
  | Fe_Task "'st pool_event"

fun ends_frontend :: "'st fe_event \<Rightarrow> bool" where
  "ends_frontend Fe_Sigterm = True"
| "ends_frontend (Fe_Watchdog rc e) = postmaster_died rc e"
| "ends_frontend _ = False"

text \<open>\<open>None\<close>: the loop still waits.\<close>

fun frontend_loop :: "'st fe_event list \<Rightarrow> 'st pool_state \<Rightarrow> ('st pool_state \<times> 'st pool_effect list) option" where
  "frontend_loop [] st = None"
| "frontend_loop (Fe_Sigterm # es) st = Some (st, [])"
| "frontend_loop (Fe_Sighup max_size ok # es) st =
    (let (st1, fs) = sighup_reconcile max_size ok st
     in map_option (\<lambda>(st2, gs). (st2, fs @ gs)) (frontend_loop es st1))"
| "frontend_loop (Fe_Watchdog rc e # es) st =
    (if postmaster_died rc e then Some (st, []) else frontend_loop es st)"
| "frontend_loop (Fe_Heartbeat # es) st = frontend_loop es st"
| "frontend_loop (Fe_Task e # es) st =
    (let (st1, fs) = pool_exec e st
     in map_option (\<lambda>(st2, gs). (st2, fs @ gs)) (frontend_loop es st1))"

section \<open>Start and shutdown\<close>

datatype 'st fe_effect =
    Fe_Pool "'st pool_effect"
  | Fe_Spawn_Accept_Loop | Fe_Spawn_Idle_Reaper | Fe_Spawn_Transport
  | Fe_Cancel_Shutdown | Fe_Abort_Accept_Loop | Fe_Abort_Idle_Reaper
  | Fe_Join_Transport | Fe_Join_Accept_Loop | Fe_Join_Idle_Reaper
  | Fe_Drop_Pool "'st pool_state"

text \<open>
  \<open>frontend_main\<close> after the signal handlers: \<open>bound\<close> is the result of binding the control
  socket, \<open>addr_ok\<close> whether the address of the transport parses.  \<open>None\<close>: it still runs.
\<close>

definition frontend_main ::
  "string + unit \<Rightarrow> (nat \<Rightarrow> grow_outcome) \<Rightarrow> bool \<Rightarrow> 'st fe_event list \<Rightarrow> 'st fe_effect list option" where
  "frontend_main bound g addr_ok es =
    (case bound of
       Inl e \<Rightarrow> Some []
     | Inr _ \<Rightarrow>
         let start = map Fe_Pool (pre_warm g) @ [Fe_Spawn_Accept_Loop, Fe_Spawn_Idle_Reaper] in
         if \<not> addr_ok then Some (start @ [Fe_Cancel_Shutdown, Fe_Abort_Accept_Loop, Fe_Abort_Idle_Reaper])
         else (case frontend_loop es pool_new of
           None \<Rightarrow> None
         | Some (st, fs) \<Rightarrow> Some (start @ [Fe_Spawn_Transport] @ map Fe_Pool fs @
             [Fe_Cancel_Shutdown, Fe_Join_Transport, Fe_Join_Accept_Loop, Fe_Join_Idle_Reaper, Fe_Drop_Pool st])))"

text \<open>
  The entry point of the worker: the server's signal bookkeeping, \<open>SIGPIPE\<close> ignored, the
  runtime, and the supervisor in it.  A runtime that cannot be built and a signal handler
  that cannot be installed are panics (\<open>expect\<close>): the flag says whether it came to an
  orderly end.
\<close>

datatype 'st entry_effect =
    Attach_Signal_Handlers | Ignore_SIGPIPE | Fe_Main "'st fe_effect" | Log_Clean_Shutdown

definition pg_transport_frontend_main ::
  "bool \<Rightarrow> bool \<Rightarrow> string + unit \<Rightarrow> (nat \<Rightarrow> grow_outcome) \<Rightarrow> bool \<Rightarrow> 'st fe_event list \<Rightarrow> (bool \<times> 'st entry_effect list) option" where
  "pg_transport_frontend_main runtime_ok handlers_ok bound g addr_ok es =
    (let start = [Attach_Signal_Handlers, Ignore_SIGPIPE] in
     if \<not> runtime_ok \<or> \<not> handlers_ok then Some (False, start)
     else map_option (\<lambda>fs. (True, start @ map Fe_Main fs @ [Log_Clean_Shutdown])) (frontend_main bound g addr_ok es))"

text \<open>The steps on the pool that an event stands for.\<close>

fun fe_pool_events :: "'st fe_event \<Rightarrow> 'st pool_event list" where
  "fe_pool_events (Fe_Sighup max_size ok) = [E_Sighup max_size ok]"
| "fe_pool_events (Fe_Task e) = [e]"
| "fe_pool_events _ = []"

lemma frontend_loop_runs:
  "\<not> list_ex ends_frontend es \<Longrightarrow> frontend_loop (es @ rest) st =
    (case pool_run (concat (map fe_pool_events es)) st of (st1, fs) \<Rightarrow>
      map_option (\<lambda>(st2, gs). (st2, fs @ gs)) (frontend_loop rest st1))"
proof (induction es arbitrary: st)
  case Nil
  then show ?case by (simp add: map_option_case split: option.split)
next
  case (Cons e es)
  have step: "frontend_loop (e # es @ rest) st =
      (case pool_run (fe_pool_events e) st of (st1, fs) \<Rightarrow>
        map_option (\<lambda>(st2, gs). (st2, fs @ gs)) (frontend_loop (es @ rest) st1))"
    using Cons.prems by (cases e) (auto simp: map_option_case Let_def split: prod.split option.split)
  show ?case
    using Cons by (auto simp: step pool_run_append Let_def option.map_comp o_def split: prod.split)
      (simp add: map_option_case split: option.split prod.split)
qed

lemma frontend_loop_end:
  "ends_frontend e \<Longrightarrow> frontend_loop (e # es) st = Some (st, [])"
  by (cases e) auto

lemma frontend_loop_eq:
  "frontend_loop es st =
    (if list_ex ends_frontend es
     then Some (pool_run (concat (map fe_pool_events (takeWhile (\<lambda>e. \<not> ends_frontend e) es))) st) else None)"
proof -
  let ?before = "takeWhile (\<lambda>e. \<not> ends_frontend e) es" and ?rest = "dropWhile (\<lambda>e. \<not> ends_frontend e) es"
  have before: "\<not> list_ex ends_frontend ?before" by (auto simp: list_ex_iff dest: set_takeWhileD)
  have run: "frontend_loop es st = (case pool_run (concat (map fe_pool_events ?before)) st of (st1, fs) \<Rightarrow>
      map_option (\<lambda>(st2, gs). (st2, fs @ gs)) (frontend_loop ?rest st1))"
    using frontend_loop_runs[OF before, of ?rest st] by simp
  show ?thesis
  proof (cases "list_ex ends_frontend es")
    case True
    then have "?rest \<noteq> []" by (auto simp: list_ex_iff dropWhile_eq_Nil_conv)
    then obtain e after where rest: "?rest = e # after" by (cases ?rest) auto
    then have "ends_frontend e" by (metis hd_dropWhile list.distinct(1) list.sel(1))
    then show ?thesis using True by (simp add: run rest frontend_loop_end split: prod.split)
  next
    case False
    then have rest: "?rest = []" by (auto simp: list_ex_iff dropWhile_eq_Nil_conv)
    have "frontend_loop ?rest st1 = None" for st1 :: "'a pool_state" unfolding rest by simp
    then show ?thesis using False by (simp add: run split: prod.split)
  qed
qed


text \<open>The worker as a whole ends under the same condition, or at once with a panic.\<close>

lemma frontend_entry_ends:
  "pg_transport_frontend_main runtime_ok handlers_ok (Inr ()) g True es = None
    \<longleftrightarrow> runtime_ok \<and> handlers_ok \<and> \<not> list_ex ends_frontend es"
  by (auto simp: pg_transport_frontend_main_def frontend_main_def frontend_loop_eq Let_def split: prod.split)

end
