(* ===== verification/Rust_Text.thy ===== *)
theory Rust_Text
  imports Prelude
begin

text \<open>
  Strings as the program sees them: byte sequences (UTF-8), with the operations of
  the Rust standard library the code uses: \<open>split\<close>, \<open>split_once\<close>, \<open>strip_prefix\<close>,
  \<open>starts_with\<close>, \<open>from_utf8\<close>, integer \<open>parse\<close> and decimal \<open>Display\<close>.
\<close>

named_theorems text_simps \<open>evaluation of text operations on literals\<close>

type_synonym bytes = "8 word list"

definition lit :: "string \<Rightarrow> bytes" where
  "lit s = map of_char s"

lemma lit_simps [simp]: "lit [] = []" "lit (c # s) = of_char c # lit s" "length (lit s) = length s"
  "lit (s @ t) = lit s @ lit t"
  by (simp_all add: lit_def)

abbreviation COMMA :: "8 word" where "COMMA \<equiv> 0x2C"

section \<open>Splitting\<close>

fun split_on :: "8 word \<Rightarrow> bytes \<Rightarrow> bytes list" where
  "split_on d [] = [[]]"
| "split_on d (b # bs) =
    (if b = d then [] # split_on d bs
     else case split_on d bs of [] \<Rightarrow> [[b]] | p # ps \<Rightarrow> (b # p) # ps)"

fun split_once :: "8 word \<Rightarrow> bytes \<Rightarrow> (bytes \<times> bytes) option" where
  "split_once d [] = None"
| "split_once d (b # bs) =
    (if b = d then Some ([], bs) else map_option (\<lambda>(l, r). (b # l, r)) (split_once d bs))"

fun strip_prefix :: "bytes \<Rightarrow> bytes \<Rightarrow> bytes option" where
  "strip_prefix [] s = Some s"
| "strip_prefix (p # ps) [] = None"
| "strip_prefix (p # ps) (b # bs) = (if p = b then strip_prefix ps bs else None)"

definition starts_with :: "bytes \<Rightarrow> bytes \<Rightarrow> bool" where
  "starts_with p s \<longleftrightarrow> strip_prefix p s \<noteq> None"

lemma split_on_nonempty [simp]: "split_on d s \<noteq> []"
  by (induction s) (auto split: list.split)

lemma split_on_no_sep: "d \<notin> set s \<Longrightarrow> split_on d s = [s]"
  by (induction s) auto

lemma split_on_append: "d \<notin> set a \<Longrightarrow> split_on d (a @ d # b) = a # split_on d b"
  by (induction a) auto

lemma concat_split_on: "concat (split_on d s) = filter (\<lambda>b. b \<noteq> d) s"
  by (induction s) (auto split: list.split)

lemma split_on_no_sep_in: "p \<in> set (split_on d s) \<Longrightarrow> d \<notin> set p"
proof (induction s arbitrary: p)
  case (Cons b s)
  obtain q qs where "split_on d s = q # qs" by (cases "split_on d s") auto
  with Cons show ?case by (auto split: if_splits)
qed simp

lemma split_once_append: "d \<notin> set a \<Longrightarrow> split_once d (a @ d # b) = Some (a, b)"
  by (induction a) auto

lemma split_once_Some_iff: "split_once d s = Some (l, r) \<longleftrightarrow> s = l @ d # r \<and> d \<notin> set l"
proof (induction s arbitrary: l)
  case (Cons b s)
  show ?case
  proof (cases "b = d")
    case True then show ?thesis by (cases l) auto
  next
    case False then show ?thesis using Cons.IH by (cases l) auto
  qed
qed simp

lemma strip_prefix_append [simp]: "strip_prefix p (p @ s) = Some s"
  by (induction p) auto

lemma strip_prefix_Some_iff: "strip_prefix p s = Some r \<longleftrightarrow> s = p @ r"
  by (induction p s rule: strip_prefix.induct) auto

lemma starts_with_iff: "starts_with p s \<longleftrightarrow> (\<exists>r. s = p @ r)"
  by (auto simp: starts_with_def strip_prefix_Some_iff)

section \<open>Decimal numbers\<close>

definition is_digit :: "8 word \<Rightarrow> bool" where
  "is_digit b \<longleftrightarrow> 0x30 \<le> b \<and> b \<le> 0x39"

definition digit :: "nat \<Rightarrow> 8 word" where
  "digit n = 0x30 + of_nat n"

definition digit_val :: "8 word \<Rightarrow> nat" where
  "digit_val b = unat b - 0x30"

fun show_nat :: "nat \<Rightarrow> bytes" where
  "show_nat n = (if n < 10 then [digit n] else show_nat (n div 10) @ [digit (n mod 10)])"

declare show_nat.simps [simp del]

definition digits_val :: "bytes \<Rightarrow> nat" where
  "digits_val s = foldl (\<lambda>a b. 10 * a + digit_val b) 0 s"

text \<open>
  \<open>str::parse::<uN>()\<close>: an optional plus sign, then at least one digit and nothing
  else, and the value must fit in \<open>w\<close> bits.
\<close>

definition parse_unsigned :: "nat \<Rightarrow> bytes \<Rightarrow> nat option" where
  "parse_unsigned w s =
    (let ds = (case s of b # bs \<Rightarrow> if b = 0x2B then bs else s | [] \<Rightarrow> s)
     in if ds \<noteq> [] \<and> list_all is_digit ds \<and> digits_val ds < 2 ^ w then Some (digits_val ds) else None)"

lemma digit_lt: "n < 10 \<Longrightarrow> unat (digit n) = 0x30 + n"
  by (simp add: digit_def unat_word_ariths unat_of_nat)

lemma is_digit_digit [simp]: "n < 10 \<Longrightarrow> is_digit (digit n)"
  using digit_lt[of n] by (simp add: is_digit_def word_le_nat_alt)

lemma digit_val_digit [simp]: "n < 10 \<Longrightarrow> digit_val (digit n) = n"
  by (simp add: digit_val_def digit_lt)

lemma digits_val_snoc: "digits_val (s @ [b]) = 10 * digits_val s + digit_val b"
  by (simp add: digits_val_def)

lemma show_nat_digits: "list_all is_digit (show_nat n) \<and> show_nat n \<noteq> []"
  by (induction n rule: show_nat.induct) (subst show_nat.simps, simp)+

lemma digits_val_show [simp]: "digits_val (show_nat n) = n"
proof (induction n rule: show_nat.induct)
  case (1 n)
  then show ?case by (subst show_nat.simps) (simp add: digits_val_snoc digits_val_def)
qed

lemma digit_not_special: "is_digit b \<Longrightarrow> b \<noteq> 0x2B \<and> b \<noteq> COMMA \<and> b \<noteq> 0x3A \<and> b \<noteq> 0x24"
  by (auto simp: is_digit_def)

text \<open>Printing and parsing an unsigned integer of \<open>w\<close> bits round-trips.\<close>

lemma parse_show: "n < 2 ^ w \<Longrightarrow> parse_unsigned w (show_nat n) = Some n"
proof -
  assume n: "n < 2 ^ w"
  obtain a s where s: "show_nat n = a # s" using show_nat_digits[of n] by (cases "show_nat n") auto
  have "digits_val (a # s) = n" "list_all is_digit (a # s)"
    using show_nat_digits[of n] digits_val_show[of n] unfolding s by blast+
  then show ?thesis using n digit_not_special[of a] by (simp add: s parse_unsigned_def Let_def)
qed

lemma parse_unsigned_bound: "parse_unsigned w s = Some n \<Longrightarrow> n < 2 ^ w"
  by (auto simp: parse_unsigned_def Let_def split: if_splits)

lemma show_nat_inj: "show_nat m = show_nat n \<longleftrightarrow> m = n"
  by (metis digits_val_show)

section \<open>UTF-8\<close>

definition in_range :: "8 word \<Rightarrow> 8 word \<Rightarrow> 8 word \<Rightarrow> bool" where
  "in_range lo hi b \<longleftrightarrow> lo \<le> b \<and> b \<le> hi"

abbreviation cont_byte :: "8 word \<Rightarrow> bool" where
  "cont_byte \<equiv> in_range 0x80 0xBF"

text \<open>The well-formed byte sequences of \<open>core::str::from_utf8\<close> (no overlong forms, no surrogates).\<close>

definition utf8_two :: "8 word \<Rightarrow> 8 word \<Rightarrow> bool" where
  "utf8_two a b \<longleftrightarrow> in_range 0xC2 0xDF a \<and> cont_byte b"

definition utf8_three :: "8 word \<Rightarrow> 8 word \<Rightarrow> 8 word \<Rightarrow> bool" where
  "utf8_three a b c \<longleftrightarrow> cont_byte c \<and>
    (a = 0xE0 \<and> in_range 0xA0 0xBF b \<or> in_range 0xE1 0xEC a \<and> cont_byte b
     \<or> a = 0xED \<and> in_range 0x80 0x9F b \<or> in_range 0xEE 0xEF a \<and> cont_byte b)"

definition utf8_four :: "8 word \<Rightarrow> 8 word \<Rightarrow> 8 word \<Rightarrow> 8 word \<Rightarrow> bool" where
  "utf8_four a b c d \<longleftrightarrow> cont_byte c \<and> cont_byte d \<and>
    (a = 0xF0 \<and> in_range 0x90 0xBF b \<or> in_range 0xF1 0xF3 a \<and> cont_byte b
     \<or> a = 0xF4 \<and> in_range 0x80 0x8F b)"

fun valid_utf8 :: "bytes \<Rightarrow> bool" where
  "valid_utf8 [] = True"
| "valid_utf8 (a # s) =
    (if a < 0x80 then valid_utf8 s
     else case s of [] \<Rightarrow> False | b # s1 \<Rightarrow>
       if utf8_two a b then valid_utf8 s1
       else case s1 of [] \<Rightarrow> False | c # s2 \<Rightarrow>
         if utf8_three a b c then valid_utf8 s2
         else case s2 of [] \<Rightarrow> False | d # s3 \<Rightarrow> utf8_four a b c d \<and> valid_utf8 s3)"

definition is_ascii :: "bytes \<Rightarrow> bool" where
  "is_ascii s \<longleftrightarrow> list_all (\<lambda>b. b < 0x80) s"

lemma is_ascii_simps [simp]:
  "is_ascii []" "is_ascii (b # s) \<longleftrightarrow> b < 0x80 \<and> is_ascii s" "is_ascii (s @ t) \<longleftrightarrow> is_ascii s \<and> is_ascii t"
  by (simp_all add: is_ascii_def)

lemma ascii_valid: "is_ascii s \<Longrightarrow> valid_utf8 s"
  by (induction s) auto

end
