(* ===== verification/Pg_Monad.thy ===== *)
theory Pg_Monad
  imports Rust_Text
begin

text \<open>
  Code that calls into PostgreSQL.  The server's C functions are not part of the
  repository: they are an environment \<open>pg\<close> that answers each call from its own
  state, by returning a value or by raising an error, which the bindings turn into
  an unwinding panic.  A program returns an outcome, the calls it made with their
  outcomes, in order, and the environment's new state.  Nothing is assumed of the
  environment unless a theorem says so.
\<close>

section \<open>Calls and their outcomes\<close>

text \<open>What the calls answer: numbers, pointers, strings, and the structures the code walks.\<close>

datatype txn_kind =
    TRANS_STMT_BEGIN | TRANS_STMT_START | TRANS_STMT_COMMIT | TRANS_STMT_ROLLBACK
  | TRANS_STMT_SAVEPOINT | TRANS_STMT_RELEASE | TRANS_STMT_ROLLBACK_TO | TRANS_STMT_PREPARE
  | TRANS_STMT_COMMIT_PREPARED | TRANS_STMT_ROLLBACK_PREPARED

text \<open>The node of a raw statement, as far as the code looks into it.\<close>

datatype raw_node =
    N_Null
  | N_Transaction txn_kind
  | N_Fetch (is_move: bool) (portalname: "bytes option")
  | N_Other nat

record raw_stmt =
  rs_node :: raw_node
  rs_location :: int
  rs_len :: int

text \<open>An attribute of a tuple descriptor: name and type OID.\<close>

type_synonym attribute = "bytes \<times> nat"

text \<open>A tuple slot: per column the null flag and the datum.\<close>

type_synonym slot_row = "(bool \<times> nat) list"

datatype pg_value =
    V_Unit | V_Int int | V_Bool bool | V_Ptr "nat option" | V_Bytes bytes
  | V_Str "bytes option"
  | V_Stmts "raw_stmt option list option"
  | V_Desc "attribute list option"
  | V_Sources "attribute list option option list option"
  | V_Params "nat option" "nat list"
  | V_Pair nat nat
  | V_Rows "slot_row list"

fun as_int :: "pg_value \<Rightarrow> int" where "as_int (V_Int i) = i" | "as_int _ = 0"
fun as_bool :: "pg_value \<Rightarrow> bool" where "as_bool (V_Bool b) = b" | "as_bool _ = False"
fun as_ptr :: "pg_value \<Rightarrow> nat option" where "as_ptr (V_Ptr p) = p" | "as_ptr _ = None"
fun as_bytes :: "pg_value \<Rightarrow> bytes" where "as_bytes (V_Bytes b) = b" | "as_bytes _ = []"
fun as_str :: "pg_value \<Rightarrow> bytes option" where "as_str (V_Str b) = b" | "as_str _ = None"
fun as_stmts :: "pg_value \<Rightarrow> raw_stmt option list option" where "as_stmts (V_Stmts l) = l" | "as_stmts _ = None"
fun as_desc :: "pg_value \<Rightarrow> attribute list option" where "as_desc (V_Desc d) = d" | "as_desc _ = None"
fun as_sources :: "pg_value \<Rightarrow> attribute list option option list option" where
  "as_sources (V_Sources l) = l" | "as_sources _ = None"
fun as_params :: "pg_value \<Rightarrow> nat option \<times> nat list" where
  "as_params (V_Params p l) = (p, l)" | "as_params _ = (None, [])"
fun as_pair :: "pg_value \<Rightarrow> nat \<times> nat" where "as_pair (V_Pair a b) = (a, b)" | "as_pair _ = (0, 0)"
fun as_rows :: "pg_value \<Rightarrow> slot_row list" where "as_rows (V_Rows l) = l" | "as_rows _ = []"

text \<open>A pointer or number handed back to the server as it came.\<close>

definition as_handle :: "pg_value \<Rightarrow> nat" where
  "as_handle v = (case as_ptr v of Some p \<Rightarrow> p | None \<Rightarrow> 0)"

text \<open>
  An error report of the server, and the payloads a panic can carry:
  \<open>CaughtError::PostgresError\<close>, \<open>::ErrorReport\<close>, \<open>::RustPanic\<close>, a bare report, an owned or a
  static string, or anything else.
\<close>

record report =
  rp_level :: bytes
  rp_code :: bytes
  rp_message :: bytes

datatype payload =
    Caught_Postgres report | Caught_Report report | Caught_Rust_Panic report
  | Bare_Report report | Panic_String bytes | Panic_Str bytes | Panic_Other

datatype 'a outcome = Val 'a | Unwind payload

type_synonym ('c, 's) pg_env = "'c \<Rightarrow> 's \<Rightarrow> pg_value outcome \<times> 's"

type_synonym 'c event = "'c \<times> pg_value outcome"

type_synonym ('c, 's, 'a) prog = "'s \<Rightarrow> 'a outcome \<times> 'c event list \<times> 's"

definition ret :: "'a \<Rightarrow> ('c, 's, 'a) prog" where
  "ret x s = (Val x, [], s)"

definition panic :: "payload \<Rightarrow> ('c, 's, 'a) prog" where
  "panic p s = (Unwind p, [], s)"

definition call :: "('c, 's) pg_env \<Rightarrow> 'c \<Rightarrow> ('c, 's, pg_value) prog" where
  "call pg c s = (let (r, s') = pg c s in (r, [(c, r)], s'))"

definition bind_prog :: "('c, 's, 'a) prog \<Rightarrow> ('a \<Rightarrow> ('c, 's, 'b) prog) \<Rightarrow> ('c, 's, 'b) prog" where
  "bind_prog m k s =
    (case m s of
       (Val x, t, s') \<Rightarrow> (case k x s' of (r, t', s'') \<Rightarrow> (r, t @ t', s''))
     | (Unwind p, t, s') \<Rightarrow> (Unwind p, t, s'))"

definition then_prog :: "('c, 's, 'a) prog \<Rightarrow> ('c, 's, 'b) prog \<Rightarrow> ('c, 's, 'b) prog" where
  "then_prog m k = bind_prog m (\<lambda>_. k)"

text \<open>Calls whose results the code ignores, one after the other.\<close>

fun calls :: "('c, 's) pg_env \<Rightarrow> 'c list \<Rightarrow> ('c, 's, unit) prog" where
  "calls pg [] = ret ()"
| "calls pg (c # cs) = then_prog (call pg c) (calls pg cs)"

text \<open>The question mark operator: leave the function with the error, or go on with the value.\<close>

definition try_prog :: "('c, 's, 'e + 'a) prog \<Rightarrow> ('a \<Rightarrow> ('c, 's, 'e + 'b) prog) \<Rightarrow> ('c, 's, 'e + 'b) prog" where
  "try_prog m k = bind_prog m (\<lambda>r. case r of Inl e \<Rightarrow> ret (Inl e) | Inr x \<Rightarrow> k x)"

text \<open>\<open>catch_unwind\<close>: \<open>Inl\<close> the payload of a panic, \<open>Inr\<close> the value.\<close>

definition catch_unwind :: "('c, 's, 'a) prog \<Rightarrow> ('c, 's, payload + 'a) prog" where
  "catch_unwind m s =
    (case m s of (Val x, t, s') \<Rightarrow> (Val (Inr x), t, s') | (Unwind p, t, s') \<Rightarrow> (Val (Inl p), t, s'))"

text \<open>A guard in scope: its drop code runs after the body, on a return and on an unwind.\<close>

definition with_guard :: "('c, 's, unit) prog \<Rightarrow> ('c, 's, 'a) prog \<Rightarrow> ('c, 's, 'a) prog" where
  "with_guard drop_code m s =
    (case m s of (r, t, s') \<Rightarrow>
       (case drop_code s' of
          (Val _, t', s'') \<Rightarrow> (r, t @ t', s'')
        | (Unwind p, t', s'') \<Rightarrow> (Unwind p, t @ t', s'')))"

text \<open>A loop over a list that stops at the first error and collects the results.\<close>

fun for_each :: "('i \<Rightarrow> ('c, 's, 'e + 'a) prog) \<Rightarrow> 'i list \<Rightarrow> ('c, 's, 'e + 'a list) prog" where
  "for_each f [] = ret (Inr [])"
| "for_each f (x # xs) = try_prog (f x) (\<lambda>y. try_prog (for_each f xs) (\<lambda>ys. ret (Inr (y # ys))))"

declare calls.simps [simp del]

section \<open>Protocols of calls\<close>

text \<open>
  A protocol is an automaton over events.  \<open>keeps step m a Q\<close> says: run from phase
  \<open>a\<close>, the calls of \<open>m\<close> are accepted whatever the environment answers, and \<open>Q\<close> holds
  of the outcome and the final phase.
\<close>

fun run_events :: "('a \<Rightarrow> 'e \<Rightarrow> 'a option) \<Rightarrow> 'a \<Rightarrow> 'e list \<Rightarrow> 'a option" where
  "run_events step a [] = Some a"
| "run_events step a (e # es) = (case step a e of None \<Rightarrow> None | Some b \<Rightarrow> run_events step b es)"

definition keeps :: "('a \<Rightarrow> 'c event \<Rightarrow> 'a option) \<Rightarrow> ('c, 's, 'r) prog \<Rightarrow> 'a \<Rightarrow> ('r outcome \<Rightarrow> 'a \<Rightarrow> bool) \<Rightarrow> bool" where
  "keeps step m a Q \<longleftrightarrow>
    (\<forall>s r t s'. m s = (r, t, s') \<longrightarrow> (\<exists>b. run_events step a t = Some b \<and> Q r b))"

lemma run_events_append:
  "run_events step a (t @ t') =
    (case run_events step a t of None \<Rightarrow> None | Some b \<Rightarrow> run_events step b t')"
  by (induction step a t rule: run_events.induct) (auto split: option.split)

lemma keepsD:
  "keeps step m a Q \<Longrightarrow> m s = (r, t, s') \<Longrightarrow> \<exists>b. run_events step a t = Some b \<and> Q r b"
  unfolding keeps_def by blast

lemma keeps_run:
  "keeps step m a Q \<Longrightarrow> case m s of (r, t, s') \<Rightarrow> \<exists>b. run_events step a t = Some b \<and> Q r b"
  using keepsD by (auto split: prod.split)

lemma keeps_conseq:
  "keeps step m a Q \<Longrightarrow> (\<And>r b. Q r b \<Longrightarrow> Q' r b) \<Longrightarrow> keeps step m a Q'"
  unfolding keeps_def by blast

lemma keeps_ret: "Q (Val x) a \<Longrightarrow> keeps step (ret x) a Q"
  by (auto simp: keeps_def ret_def)

lemma keeps_panic: "Q (Unwind p) a \<Longrightarrow> keeps step (panic p) a Q"
  by (auto simp: keeps_def panic_def)

lemma keeps_call:
  assumes "\<And>r. \<exists>b. step a (c, r) = Some b \<and> Q r b"
  shows "keeps step (call pg c) a Q"
proof -
  have "\<exists>b. run_events step a [(c, r)] = Some b \<and> Q r b" for r
    using assms[of r] by auto
  then show ?thesis by (auto simp: keeps_def call_def split: prod.splits)
qed

lemma keeps_call_env:
  assumes "\<And>s. \<exists>b. step a (c, fst (pg c s)) = Some b \<and> Q (fst (pg c s)) b"
  shows "keeps step (call pg c) a Q"
proof -
  have "\<exists>b. run_events step a [(c, fst (pg c s))] = Some b \<and> Q (fst (pg c s)) b" for s
    using assms[of s] by auto
  then show ?thesis by (auto simp: keeps_def call_def split_def Let_def)
qed

lemma keeps_bind:
  assumes "keeps step m a (\<lambda>r b. case r of Val x \<Rightarrow> keeps step (k x) b Q | Unwind p \<Rightarrow> Q (Unwind p) b)"
  shows "keeps step (bind_prog m k) a Q"
  unfolding keeps_def
proof (intro allI impI)
  fix s r t s'
  assume run: "bind_prog m k s = (r, t, s')"
  obtain r1 t1 s1 where m: "m s = (r1, t1, s1)" by (metis prod_cases3)
  obtain b where b: "run_events step a t1 = Some b"
    "case r1 of Val x \<Rightarrow> keeps step (k x) b Q | Unwind p \<Rightarrow> Q (Unwind p) b"
    using assms m unfolding keeps_def by blast
  show "\<exists>b. run_events step a t = Some b \<and> Q r b"
  proof (cases r1)
    case (Val x)
    obtain r2 t2 s2 where k: "k x s1 = (r2, t2, s2)" by (metis prod_cases3)
    have "\<exists>c. run_events step b t2 = Some c \<and> Q r2 c"
      using b(2) Val keepsD[of step "k x" b Q s1 r2 t2 s2] k by simp
    then show ?thesis using run m Val k b(1) by (auto simp: bind_prog_def run_events_append)
  next
    case (Unwind p)
    then show ?thesis using run m b by (auto simp: bind_prog_def)
  qed
qed

lemma keeps_then:
  assumes "keeps step m a (\<lambda>r b. case r of Val x \<Rightarrow> keeps step k b Q | Unwind p \<Rightarrow> Q (Unwind p) b)"
  shows "keeps step (then_prog m k) a Q"
  unfolding then_prog_def by (rule keeps_bind) (rule assms)

lemma keeps_try:
  assumes "keeps step m a (\<lambda>r b. case r of Val (Inr x) \<Rightarrow> keeps step (k x) b Q
     | Val (Inl e) \<Rightarrow> Q (Val (Inl e)) b | Unwind p \<Rightarrow> Q (Unwind p) b)"
  shows "keeps step (try_prog m k) a Q"
  unfolding try_prog_def
  by (rule keeps_bind, rule keeps_conseq[OF assms]) (auto split: outcome.splits sum.splits intro: keeps_ret)

text \<open>A pure function of the value.\<close>

lemma keeps_try_map:
  assumes "keeps step m a Q" "\<And>x b. Q (Val (Inr x)) b \<Longrightarrow> Q' (Val (Inr (f x))) b"
    "\<And>e b. Q (Val (Inl e)) b \<Longrightarrow> Q' (Val (Inl e)) b" "\<And>p b. Q (Unwind p) b \<Longrightarrow> Q' (Unwind p) b"
  shows "keeps step (try_prog m (\<lambda>x. ret (Inr (f x)))) a Q'"
  by (rule keeps_try, rule keeps_conseq[OF assms(1)])
    (use assms(2-) in \<open>auto split: outcome.splits sum.splits intro!: keeps_ret\<close>)

lemma keeps_catch:
  assumes "keeps step m a (\<lambda>r b. Q (case r of Val x \<Rightarrow> Val (Inr x) | Unwind p \<Rightarrow> Val (Inl p)) b)"
  shows "keeps step (catch_unwind m) a Q"
  unfolding keeps_def
proof (intro allI impI)
  fix s r t s'
  assume run: "catch_unwind m s = (r, t, s')"
  obtain r1 t1 s1 where m: "m s = (r1, t1, s1)" by (metis prod_cases3)
  from keepsD[OF assms m] show "\<exists>b. run_events step a t = Some b \<and> Q r b"
    using run m by (cases r1) (auto simp: catch_unwind_def)
qed

lemma keeps_guard:
  assumes "keeps step m a (\<lambda>r b. keeps step d b (\<lambda>r' c. Q (case r' of Val _ \<Rightarrow> r | Unwind p \<Rightarrow> Unwind p) c))"
  shows "keeps step (with_guard d m) a Q"
  unfolding keeps_def
proof (intro allI impI)
  fix s r t s'
  assume run: "with_guard d m s = (r, t, s')"
  obtain r1 t1 s1 where m: "m s = (r1, t1, s1)" by (metis prod_cases3)
  obtain r2 t2 s2 where d: "d s1 = (r2, t2, s2)" by (metis prod_cases3)
  obtain b where "run_events step a t1 = Some b"
    and "keeps step d b (\<lambda>r' c. Q (case r' of Val _ \<Rightarrow> r1 | Unwind p \<Rightarrow> Unwind p) c)"
    using assms m unfolding keeps_def by blast
  moreover from this(2) obtain c where "run_events step b t2 = Some c"
    "Q (case r2 of Val _ \<Rightarrow> r1 | Unwind p \<Rightarrow> Unwind p) c"
    using d unfolding keeps_def by blast
  ultimately show "\<exists>b. run_events step a t = Some b \<and> Q r b"
    using run m d by (auto simp: with_guard_def run_events_append split: outcome.splits)
qed

lemma keeps_calls_Nil: "Q (Val ()) a \<Longrightarrow> keeps step (calls pg []) a Q"
  by (simp add: keeps_ret calls.simps)

lemma keeps_calls_Cons:
  assumes "\<And>r. \<exists>b. step a (c, r) = Some b
     \<and> (case r of Val _ \<Rightarrow> keeps step (calls pg cs) b Q | Unwind p \<Rightarrow> Q (Unwind p) b)"
  shows "keeps step (calls pg (c # cs)) a Q"
  unfolding calls.simps by (rule keeps_then, rule keeps_call, rule assms)

text \<open>A loop keeps an invariant of the phase when each turn does.\<close>

lemma keeps_for_each:
  assumes turn: "\<And>x a. x \<in> set xs \<Longrightarrow> I a \<Longrightarrow> keeps step (f x) a (\<lambda>r b. case r of Val (Inr y) \<Rightarrow> I b
      | Val (Inl e) \<Rightarrow> E e b | Unwind p \<Rightarrow> P p b)"
    and "I a"
  shows "keeps step (for_each f xs) a (\<lambda>r b. case r of Val (Inr ys) \<Rightarrow> I b
      | Val (Inl e) \<Rightarrow> E e b | Unwind p \<Rightarrow> P p b)"
  using assms
proof (induction xs arbitrary: a)
  case (Cons x xs)
  show ?case
    unfolding for_each.simps
  proof (rule keeps_try, rule keeps_conseq[OF Cons.prems(1)], goal_cases)
    case (3 r b)
    have rest: "keeps step (try_prog (for_each f xs) (\<lambda>ys. ret (Inr (y # ys)))) b
        (\<lambda>r b. case r of Val (Inr ys) \<Rightarrow> I b | Val (Inl e) \<Rightarrow> E e b | Unwind p \<Rightarrow> P p b)" if "I b" for y
      by (rule keeps_try, rule keeps_conseq[OF Cons.IH[OF Cons.prems(1) that]])
        (auto split: outcome.splits sum.splits intro!: keeps_ret)
    show ?case
    proof (cases r)
      case (Val v)
      with 3 rest show ?thesis by (cases v) simp_all
    qed (use 3 in simp)
  qed (use Cons.prems(2) in simp_all)
qed (simp add: keeps_ret)

section \<open>Programs within a set of calls\<close>

text \<open>All calls of the program satisfy \<open>P\<close>.\<close>

definition within :: "('c \<Rightarrow> bool) \<Rightarrow> ('c, 's, 'r) prog \<Rightarrow> bool" where
  "within P m \<longleftrightarrow> (\<forall>s r t s'. m s = (r, t, s') \<longrightarrow> (\<forall>e \<in> set t. P (fst e)))"

lemma withinD: "within P m \<Longrightarrow> m s = (r, t, s') \<Longrightarrow> e \<in> set t \<Longrightarrow> P (fst e)"
  unfolding within_def by blast

lemma within_mono: "within P m \<Longrightarrow> (\<And>c. P c \<Longrightarrow> Q c) \<Longrightarrow> within Q m"
  unfolding within_def by blast

lemma within_ret: "within P (ret x)"
  by (simp add: within_def ret_def)

lemma within_panic: "within P (panic p)"
  by (simp add: within_def panic_def)

lemma within_call: "P c \<Longrightarrow> within P (call pg c)"
  by (auto simp: within_def call_def split: prod.splits)

lemma within_bind: "within P m \<Longrightarrow> (\<And>x. within P (k x)) \<Longrightarrow> within P (bind_prog m k)"
  unfolding within_def bind_prog_def by (fastforce split: prod.splits outcome.splits)

lemma within_then: "within P m \<Longrightarrow> within P k \<Longrightarrow> within P (then_prog m k)"
  unfolding then_prog_def by (rule within_bind)

lemma within_try: "within P m \<Longrightarrow> (\<And>x. within P (k x)) \<Longrightarrow> within P (try_prog m k)"
  unfolding try_prog_def by (rule within_bind) (auto split: sum.split intro: within_ret)

lemma within_catch: "within P m \<Longrightarrow> within P (catch_unwind m)"
  unfolding within_def catch_unwind_def by (fastforce split: prod.splits outcome.splits)

lemma within_guard: "within P d \<Longrightarrow> within P m \<Longrightarrow> within P (with_guard d m)"
  unfolding within_def with_guard_def by (fastforce split: prod.splits outcome.splits)

lemma within_calls: "(\<And>c. c \<in> set cs \<Longrightarrow> P c) \<Longrightarrow> within P (calls pg cs)"
  by (induction cs) (auto simp: calls.simps intro: within_then within_call within_ret)

lemma within_for_each: "(\<And>x. within P (f x)) \<Longrightarrow> within P (for_each f xs)"
  by (induction xs) (auto intro!: within_try within_ret)

lemmas within_intros = within_ret within_panic within_bind within_then within_try within_catch within_guard
  within_for_each within_calls within_call

text \<open>A protocol that ignores those calls does not move.\<close>

lemma run_events_idle:
  "(\<And>e. e \<in> set t \<Longrightarrow> step a e = Some a) \<Longrightarrow> run_events step a t = Some a"
  by (induction t) auto

lemma keeps_within:
  assumes "within P m" "\<And>c r. P c \<Longrightarrow> step a (c, r) = Some a"
  shows "keeps step m a (\<lambda>r b. b = a)"
  unfolding keeps_def
proof (intro allI impI)
  fix s r t s'
  assume "m s = (r, t, s')"
  then have "run_events step a t = Some a"
    using withinD[OF assms(1)] assms(2) by (intro run_events_idle) (metis prod.collapse)
  then show "\<exists>b. run_events step a t = Some b \<and> b = a" by simp
qed

lemmas keeps_intros = keeps_ret keeps_panic keeps_bind keeps_then keeps_try keeps_catch keeps_guard
  keeps_calls_Nil keeps_calls_Cons keeps_call

end
