(* ===== verification/Pg_Api.thy ===== *)
theory Pg_Api
  imports Pg_Monad
begin

text \<open>
  The server functions the backends call, the errors that go to the client, and the
  protocol of transaction commands that every backend path has to keep.
\<close>

section \<open>The calls\<close>

text \<open>
  A call carries the arguments the code passes; null pointers are \<open>None\<close>, pointers
  and numbers the server handed out are naturals.  Reads of server globals and of
  fields of server structures are calls too.

  Transaction commands and the snapshot stack:
\<close>

datatype tx_call =
    SetCurrentStatementStartTimestamp | StartTransactionCommand | CommitTransactionCommand
  | AbortCurrentTransaction | GetTransactionSnapshot | PushActiveSnapshot | PopActiveSnapshot
  | GetActiveSnapshot
  | BeginImplicitTransactionBlock | EndImplicitTransactionBlock | CommandCounterIncrement
  | BeginTransactionBlock | EndTransactionBlock bool | UserAbortTransactionBlock bool
  | IsTransactionBlock | IsAbortedTransactionBlockState

text \<open>The SPI manager.\<close>

datatype spi_call =
    SPI_connect | SPI_finish | SPI_execute bytes bool int | SPI_tuptable | SPI_processed
  | Tuptable_tupdesc | SPI_getbinval nat nat | SPI_result_code_string int
  | SPI_prepare bytes "nat list" | SPI_result | SPI_keepplan nat | SPI_freeplan nat
  | SPI_getargcount nat | SPI_getargtypeid nat nat | SPI_plan_get_plan_sources nat
  | SPI_execute_plan nat "nat list" bytes bool int

text \<open>Memory contexts.\<close>

datatype mem_call =
    CurrentMemoryContext | TopMemoryContext | AllocSetContextCreate nat bytes
  | MemoryContextSwitchTo nat | MemoryContextDelete nat | Pfree nat

text \<open>The parser, the cursor lookup, and the type input and output functions.\<close>

datatype fn_call =
    Raw_parser bytes | Pg_parse_query bytes | Analyze_requires_snapshot raw_stmt
  | GetPortalByName bytes | Portal_cursorOptions nat
  | Pgstat_report_query_id nat bool | Pgstat_report_plan_id nat bool
  | GetTypeOutputInfo nat | GetTypeBinaryOutputInfo nat | Fmgr_info nat
  | GetTypeInputInfo nat | GetTypeBinaryInputInfo nat
  | OutputFunctionCall nat nat | SendFunctionCall nat nat
  | OidInputFunctionCall nat bytes nat int | OidReceiveFunctionCall nat bytes nat int

text \<open>The globals and timers around a query.\<close>

datatype obs_call =
    Debug_query_string | Set_debug_query_string "bytes option"
  | Pgstat_report_activity bool "bytes option"
  | StatementTimeout | Get_timeout_active int | Enable_timeout_after int int | Disable_timeout int bool

text \<open>The planner, cached plans and portals of the direct path.\<close>

datatype exec_call =
    CreateCommandTag raw_node | Analyze_fixedparams raw_stmt bytes "nat list"
  | Analyze_varparams raw_stmt bytes | Plan_queries "nat option" bytes
  | NEXT_ID_fetch_add | CreatePortal bytes bool bool | PortalDefineQuery nat bytes int "nat option" "nat option"
  | PortalStart nat "nat option" int "nat option" | Portal_tupDesc nat
  | InitializeQueryCompletion | PortalRun nat int bool | Qc_commandTag | Qc_nprocessed
  | PortalDrop nat bool
  | Command_tag_display_rowcount int | GetCommandTagName int

datatype plan_call =
    CreateCachedPlan raw_stmt bytes int | CompleteCachedPlan nat nat nat "nat list" int bool
  | SaveCachedPlan nat | CurrentResourceOwner | GetCachedPlan nat "nat option" nat
  | CachedPlan_stmt_list nat | ReleaseCachedPlan nat nat | DropCachedPlan nat
  | CachedPlanSource_resultDesc nat | MakeParamList nat | Set_param nat nat nat bool nat

text \<open>The SPI client of the bindings, and the connection of the wire library.\<close>

datatype client_call =
    Client_update bytes int bytes | Client_is_empty nat | Client_first_get nat

datatype frame =
    F_Error bytes bytes bytes | F_SASL "bytes list" | F_SASL_Continue bytes | F_SASL_Final bytes

datatype net_call =
    Protocol_negotiation | Save_startup_parameters | Send frame | Set_state_auth_in_progress
  | Generate_pid_and_key | Finish_authentication | Strong_random nat

datatype pg_call = Tx tx_call | Spi spi_call | Mem mem_call | Fn fn_call | Obs obs_call
  | Exec exec_call | Plan plan_call | Client client_call | Net net_call

text \<open>
  What the code takes from the wire library and the bindings: which type OIDs the
  library knows, and the report the bindings make of a panic that is no server error.
\<close>

record libs =
  known_type :: "nat \<Rightarrow> bool"
  panic_report :: "payload \<Rightarrow> report"

text \<open>\<open>NEXT_ID_fetch_add\<close> is the process-wide counter of portal names: it answers the old value.\<close>

section \<open>Errors for the client\<close>

record error_info =
  severity :: bytes
  sqlstate :: bytes
  message :: bytes

definition ERROR :: bytes where "ERROR = lit ''ERROR''"

text \<open>\<open>Display\<close> of a signed integer.\<close>

definition show_int :: "int \<Rightarrow> bytes" where
  "show_int i = (if i < 0 then lit ''-'' @ show_nat (nat (- i)) else show_nat (nat i))"

definition generic_error :: "bytes \<Rightarrow> bytes \<Rightarrow> error_info" where
  "generic_error prefix msg =
    \<lparr>severity = ERROR, sqlstate = lit ''XX000'', message = prefix @ lit '': '' @ msg\<rparr>"

text \<open>\<open>spi_rc_error\<close> looks the code's name up; \<open>None\<close> stands for a null name.\<close>

definition spi_rc_error :: "bytes \<Rightarrow> int \<Rightarrow> bytes option \<Rightarrow> error_info" where
  "spi_rc_error api rc code_name =
    (let name = (case code_name of None \<Rightarrow> lit ''rc='' @ show_int rc | Some n \<Rightarrow> n)
     in \<lparr>severity = ERROR, sqlstate = lit ''XX000'',
         message = lit ''pg_transport spi: '' @ api @ lit '' failed: '' @ name\<rparr>)"

definition aborted_transaction_block_error :: error_info where
  "aborted_transaction_block_error =
    \<lparr>severity = ERROR, sqlstate = lit ''25P02'',
     message = lit ''current transaction is aborted, commands ignored until end of transaction block''\<rparr>"

definition error_report_to_pgwire :: "report \<Rightarrow> error_info" where
  "error_report_to_pgwire r = \<lparr>severity = rp_level r, sqlstate = rp_code r, message = rp_message r\<rparr>"

fun extract_report :: "payload \<Rightarrow> report option" where
  "extract_report (Caught_Postgres r) = Some r"
| "extract_report (Caught_Report r) = Some r"
| "extract_report (Caught_Rust_Panic r) = Some r"
| "extract_report _ = None"

definition panic_to_pgwire :: "payload \<Rightarrow> error_info" where
  "panic_to_pgwire p =
    (case extract_report p of
       Some r \<Rightarrow> error_report_to_pgwire r
     | None \<Rightarrow> (case p of
         Bare_Report r \<Rightarrow> error_report_to_pgwire r
       | Panic_String m \<Rightarrow> generic_error (lit ''pg_transport panic'') m
       | Panic_Str m \<Rightarrow> generic_error (lit ''pg_transport panic'') m
       | _ \<Rightarrow> generic_error (lit ''pg_transport'') (lit ''unknown panic payload'')))"

section \<open>The protocol of transaction commands\<close>

text \<open>
  What the code has open: a transaction command, how many active snapshots it
  pushed, an SPI session, and whether it knows that the transaction block is not in
  the aborted state, where taking a snapshot is fatal.
\<close>

record tx =
  tx_open :: bool
  tx_snapshots :: nat
  tx_spi :: bool
  tx_checked :: bool

definition tx_idle :: "bool \<Rightarrow> tx" where
  "tx_idle checked = \<lparr>tx_open = False, tx_snapshots = 0, tx_spi = False, tx_checked = checked\<rparr>"

definition tx_cmd :: "nat \<Rightarrow> bool \<Rightarrow> tx" where
  "tx_cmd n spi = \<lparr>tx_open = True, tx_snapshots = n, tx_spi = spi, tx_checked = True\<rparr>"

definition SPI_OK_CONNECT :: int where "SPI_OK_CONNECT = 1"
definition SPI_OK_FINISH :: int where "SPI_OK_FINISH = 2"

text \<open>Calls that need an open SPI session, and calls that need no open command.\<close>

fun needs_spi :: "spi_call \<Rightarrow> bool" where
  "needs_spi (SPI_result_code_string rc) = False"
| "needs_spi (SPI_freeplan p) = False"
| "needs_spi (SPI_getargcount p) = False"
| "needs_spi (SPI_getargtypeid p i) = False"
| "needs_spi (SPI_plan_get_plan_sources p) = False"
| "needs_spi SPI_result = False"
| "needs_spi _ = True"

fun tx_only :: "tx_call \<Rightarrow> bool" where
  "tx_only SetCurrentStatementStartTimestamp = True"
| "tx_only IsTransactionBlock = True"
| "tx_only _ = False"

fun fn_free :: "fn_call \<Rightarrow> bool" where
  "fn_free (Raw_parser q) = True"
| "fn_free (Analyze_requires_snapshot r) = True"
| "fn_free _ = False"

fun exec_free :: "exec_call \<Rightarrow> bool" where
  "exec_free (PortalDrop p b) = True"
| "exec_free NEXT_ID_fetch_add = True"
| "exec_free (Command_tag_display_rowcount t) = True"
| "exec_free (GetCommandTagName t) = True"
| "exec_free _ = False"

fun plan_free :: "plan_call \<Rightarrow> bool" where
  "plan_free (DropCachedPlan p) = True"
| "plan_free (CachedPlanSource_resultDesc p) = True"
| "plan_free _ = False"

text \<open>A call that is allowed and raises leaves the phase as it was.\<close>

fun tx_next_tx :: "tx \<Rightarrow> tx_call \<Rightarrow> pg_value \<Rightarrow> tx option" where
  "tx_next_tx a StartTransactionCommand v =
     (if tx_snapshots a = 0 \<and> \<not> tx_spi a then Some (a\<lparr>tx_open := True\<rparr>) else None)"
| "tx_next_tx a CommitTransactionCommand v =
     (if tx_open a \<and> tx_snapshots a = 0 \<and> \<not> tx_spi a then Some (tx_idle False) else None)"
| "tx_next_tx a AbortCurrentTransaction v = Some (tx_idle False)"
| "tx_next_tx a GetTransactionSnapshot v = (if tx_open a \<and> tx_checked a then Some a else None)"
| "tx_next_tx a PushActiveSnapshot v =
     (if tx_open a then Some (a\<lparr>tx_snapshots := tx_snapshots a + 1\<rparr>) else None)"
| "tx_next_tx a PopActiveSnapshot v =
     (if tx_open a \<and> 0 < tx_snapshots a then Some (a\<lparr>tx_snapshots := tx_snapshots a - 1\<rparr>) else None)"
| "tx_next_tx a GetActiveSnapshot v = (if tx_open a \<and> 0 < tx_snapshots a then Some a else None)"
| "tx_next_tx a IsAbortedTransactionBlockState v = Some (a\<lparr>tx_checked := \<not> as_bool v\<rparr>)"
| "tx_next_tx a c v = (if tx_only c \<or> tx_open a then Some a else None)"

fun tx_next :: "tx \<Rightarrow> pg_call \<Rightarrow> pg_value \<Rightarrow> tx option" where
  "tx_next a (Tx c) v = tx_next_tx a c v"
| "tx_next a (Spi SPI_connect) v =
     (if tx_open a \<and> \<not> tx_spi a then Some (a\<lparr>tx_spi := (as_int v = SPI_OK_CONNECT)\<rparr>) else None)"
| "tx_next a (Spi SPI_finish) v = (if tx_spi a then Some (a\<lparr>tx_spi := False\<rparr>) else None)"
| "tx_next a (Spi c) v = (if needs_spi c \<longrightarrow> tx_spi a then Some a else None)"
| "tx_next a (Mem c) v = Some a"
| "tx_next a (Fn c) v = (if fn_free c \<or> tx_open a then Some a else None)"
| "tx_next a (Obs c) v = Some a"
| "tx_next a (Exec c) v = (if exec_free c \<or> tx_open a then Some a else None)"
| "tx_next a (Plan c) v = (if plan_free c \<or> tx_open a then Some a else None)"
| "tx_next a (Client c) v = (if tx_open a then Some a else None)"
| "tx_next a (Net c) v = Some a"

definition tx_step :: "tx \<Rightarrow> pg_call event \<Rightarrow> tx option" where
  "tx_step a e =
    (case e of (c, Val v) \<Rightarrow> tx_next a c v
     | (c, Unwind p) \<Rightarrow> (if tx_next a c V_Unit = None then None else Some a))"

lemma tx_step_simps [simp]:
  "tx_step a (c, Val v) = tx_next a c v"
  "tx_step a (c, Unwind p) = (if tx_next a c V_Unit = None then None else Some a)"
  by (simp_all add: tx_step_def)

lemmas tx_defs = tx_idle_def tx_cmd_def

text \<open>The postcondition of a path: when it returns it is in phase \<open>a\<close>.\<close>

definition settles :: "tx \<Rightarrow> 'r outcome \<Rightarrow> tx \<Rightarrow> bool" where
  "settles a r b = (case r of Val _ \<Rightarrow> b = a | Unwind _ \<Rightarrow> True)"

lemma settles_simps [simp]: "settles a (Val x) b \<longleftrightarrow> b = a" "settles a (Unwind p) b"
  by (simp_all add: settles_def)

lemma settles_case: "settles a r b = (\<forall>x. r = Val x \<longrightarrow> b = a)"
  by (cases r) auto

text \<open>The body leaves the phase as it found it when it returns; when it unwinds, anything goes.\<close>

definition tx_stable :: "(pg_call, 's, 'r) prog \<Rightarrow> tx \<Rightarrow> bool" where
  "tx_stable m a \<longleftrightarrow> keeps tx_step m a (settles a)"

text \<open>The whole path is safe: its calls are accepted, and it is idle again when it returns.\<close>

definition at_rest :: "'r outcome \<Rightarrow> tx \<Rightarrow> bool" where
  "at_rest r b = (case r of Val _ \<Rightarrow> \<exists>c. b = tx_idle c | Unwind _ \<Rightarrow> True)"

lemma at_rest_simps [simp]: "at_rest (Val x) b \<longleftrightarrow> (\<exists>c. b = tx_idle c)" "at_rest (Unwind p) b"
  by (simp_all add: at_rest_def)

lemma at_rest_idle [simp, intro]: "at_rest r (tx_idle c)"
  by (cases r) auto

definition tx_safe :: "(pg_call, 's, 'r) prog \<Rightarrow> tx \<Rightarrow> bool" where
  "tx_safe m a \<longleftrightarrow> keeps tx_step m a at_rest"

lemma tx_cmd_simps [simp]:
  "tx_open (tx_cmd n spi)" "tx_snapshots (tx_cmd n spi) = n" "tx_spi (tx_cmd n spi) = spi"
  "tx_checked (tx_cmd n spi)" "\<not> tx_open (tx_idle c)" "tx_snapshots (tx_idle c) = 0"
  "\<not> tx_spi (tx_idle c)" "tx_checked (tx_idle c) = c"
  "(tx_cmd n spi)\<lparr>tx_snapshots := m\<rparr> = tx_cmd m spi" "(tx_cmd n spi)\<lparr>tx_spi := b\<rparr> = tx_cmd n b"
  "(tx_idle True)\<lparr>tx_open := True\<rparr> = tx_cmd 0 False" "(tx_cmd n spi)\<lparr>tx_open := True\<rparr> = tx_cmd n spi"
  "(tx_idle c)\<lparr>tx_checked := c'\<rparr> = tx_idle c'" "(tx_cmd n spi)\<lparr>tx_checked := True\<rparr> = tx_cmd n spi"
  by (simp_all add: tx_defs)

subsection \<open>Rules for single calls\<close>

lemma keeps_tx:
  assumes "\<And>v. tx_next a c v = Some (b v)" "\<And>v. Q (Val v) (b v)" "\<And>p. Q (Unwind p) a"
  shows "keeps tx_step (call pg c) a Q"
proof (rule keeps_call)
  fix r show "\<exists>b. tx_step a (c, r) = Some b \<and> Q r b" using assms by (cases r) auto
qed

lemma tx_bind:
  assumes "\<And>v. tx_next a c v = Some (b v)" "\<And>v. keeps tx_step (k v) (b v) Q" "\<And>p. Q (Unwind p) a"
  shows "keeps tx_step (bind_prog (call pg c) k) a Q"
  by (rule keeps_bind, rule keeps_tx[OF assms(1)]) (simp_all add: assms)

lemma tx_calls:
  assumes "\<And>v. tx_next a c v = Some (b v)" "\<And>v. keeps tx_step (calls pg cs) (b v) Q" "\<And>p. Q (Unwind p) a"
  shows "keeps tx_step (calls pg (c # cs)) a Q"
  unfolding calls.simps then_prog_def by (rule tx_bind[OF assms(1)]) (simp_all add: assms)

lemma tx_then_calls:
  assumes "keeps tx_step (calls pg cs) a (\<lambda>r b. case r of Val _ \<Rightarrow> keeps tx_step k b Q | Unwind p \<Rightarrow> Q (Unwind p) b)"
  shows "keeps tx_step (then_prog (calls pg cs) k) a Q"
  by (rule keeps_then) (rule assms)

text \<open>A stable piece in front of a continuation.\<close>

lemma tx_bind_stable:
  assumes "tx_stable m a" "\<And>x. keeps tx_step (k x) a Q" "\<And>p b. Q (Unwind p) b"
  shows "keeps tx_step (bind_prog m k) a Q"
  by (rule keeps_bind, rule keeps_conseq[OF assms(1)[unfolded tx_stable_def]])
    (auto split: outcome.splits intro: assms)

lemma tx_stable_ret [simp]: "tx_stable (ret x) a"
  by (simp add: tx_stable_def keeps_ret)

lemma tx_stable_bind:
  assumes "tx_stable m a" "\<And>x. tx_stable (k x) a"
  shows "tx_stable (bind_prog m k) a"
  using tx_bind_stable[OF assms(1), of k "settles a"] assms(2) by (simp add: tx_stable_def)

lemma tx_stable_then: "tx_stable m a \<Longrightarrow> tx_stable k a \<Longrightarrow> tx_stable (then_prog m k) a"
  unfolding then_prog_def by (rule tx_stable_bind)

lemma tx_stable_call: "(\<And>v. tx_next a c v = Some a) \<Longrightarrow> tx_stable (call pg c) a"
  unfolding tx_stable_def by (rule keeps_tx) auto

lemma tx_stable_calls: "(\<And>c v. c \<in> set cs \<Longrightarrow> tx_next a c v = Some a) \<Longrightarrow> tx_stable (calls pg cs) a"
  by (induction cs) (auto simp: calls.simps intro!: tx_stable_then tx_stable_call)

lemma tx_stable_try:
  assumes "tx_stable m a" "\<And>x. tx_stable (k x) a"
  shows "tx_stable (try_prog m k) a"
  unfolding try_prog_def by (rule tx_stable_bind[OF assms(1)]) (auto split: sum.split intro: assms)

lemma tx_stable_for_each: "(\<And>x. tx_stable (f x) a) \<Longrightarrow> tx_stable (for_each f xs) a"
  by (induction xs) (auto intro!: tx_stable_try)

text \<open>
  A piece whose calls the protocol ignores: the workers inside a bracket, on the SPI
  path and on the direct one.
\<close>

fun worker_call :: "pg_call \<Rightarrow> bool" where
  "worker_call (Tx c) = (c = GetActiveSnapshot)"
| "worker_call (Spi c) = (c \<noteq> SPI_connect \<and> c \<noteq> SPI_finish)"
| "worker_call (Obs c) = False"
| "worker_call c = True"

fun direct_call :: "pg_call \<Rightarrow> bool" where
  "direct_call (Tx c) = False"
| "direct_call (Spi c) = (\<not> needs_spi c)"
| "direct_call (Obs c) = False"
| "direct_call c = True"

text \<open>Plain calls: no transaction, no session, and no memory context made or deleted.\<close>

fun plain_call :: "pg_call \<Rightarrow> bool" where
  "plain_call (Tx c) = False"
| "plain_call (Spi c) = (\<not> needs_spi c)"
| "plain_call (Obs c) = False"
| "plain_call (Mem (AllocSetContextCreate p n)) = False"
| "plain_call (Mem (MemoryContextDelete d)) = False"
| "plain_call c = True"

lemma plain_direct [simp]: "plain_call c \<Longrightarrow> direct_call c"
  by (cases c) auto

lemma plain_worker [simp]: "plain_call c \<Longrightarrow> worker_call c"
  by (cases c) auto

lemma direct_worker: "direct_call c \<Longrightarrow> worker_call c"
  by (cases c) auto

lemma worker_tx_next: "worker_call c \<Longrightarrow> tx_next (tx_cmd (Suc n) True) c v = Some (tx_cmd (Suc n) True)"
proof (cases c)
  case (Spi d) then show "worker_call c \<Longrightarrow> ?thesis" by (cases d) auto
qed auto

lemma direct_tx_open: "direct_call c \<Longrightarrow> tx_open a \<Longrightarrow> tx_next a c v = Some a"
proof (cases c)
  case (Spi d) then show "direct_call c \<Longrightarrow> ?thesis" by (cases d) auto
qed auto

lemma direct_tx_next: "direct_call c \<Longrightarrow> tx_next (tx_cmd n b) c v = Some (tx_cmd n b)"
proof (cases c)
  case (Spi d) then show "direct_call c \<Longrightarrow> ?thesis" by (cases d) auto
qed auto

lemma tx_stable_within:
  assumes "within P m" "\<And>c v. P c \<Longrightarrow> tx_next a c v = Some a"
  shows "tx_stable m a"
proof -
  have "tx_step a (c, r) = Some a" if "P c" for c r using assms(2)[OF that] by (cases r) auto
  from keeps_within[OF assms(1), of tx_step a, OF this] show ?thesis
    unfolding tx_stable_def by (rule keeps_conseq) (auto simp: settles_case)
qed

lemma worker_stable: "within worker_call m \<Longrightarrow> tx_stable m (tx_cmd (Suc n) True)"
  by (erule tx_stable_within) (rule worker_tx_next)

lemma direct_stable: "within direct_call m \<Longrightarrow> tx_stable m (tx_cmd n b)"
  by (erule tx_stable_within) (rule direct_tx_next)

lemma direct_stable_open: "within direct_call m \<Longrightarrow> tx_open a \<Longrightarrow> tx_stable m a"
  by (erule tx_stable_within) (rule direct_tx_open)

lemma tx_stable_if: "(b \<Longrightarrow> tx_stable m a) \<Longrightarrow> (\<not> b \<Longrightarrow> tx_stable k a) \<Longrightarrow> tx_stable (if b then m else k) a"
  by simp

lemmas tx_stable_intros = tx_stable_ret tx_stable_bind tx_stable_then tx_stable_try tx_stable_for_each
  tx_stable_calls tx_stable_call

section \<open>The end of a batch\<close>

text \<open>
  A batch ends with one successful commit or with one abort, and makes no call after
  it.  A commit that raises has not happened.
\<close>

datatype batch = Batch_Open | Batch_Committed | Batch_Aborted

definition ends_batch :: "pg_call \<Rightarrow> bool" where
  "ends_batch c \<longleftrightarrow> c = Tx CommitTransactionCommand \<or> c = Tx AbortCurrentTransaction"

lemma ends_batch_simps [simp]:
  "ends_batch (Tx c) \<longleftrightarrow> c = CommitTransactionCommand \<or> c = AbortCurrentTransaction"
  "\<not> ends_batch (Spi d)" "\<not> ends_batch (Fn e)" "\<not> ends_batch (Exec f)" "\<not> ends_batch (Mem m)" "\<not> ends_batch (Plan p)"
  by (simp_all add: ends_batch_def)

definition batch_step :: "batch \<Rightarrow> pg_call event \<Rightarrow> batch option" where
  "batch_step a e =
    (if a \<noteq> Batch_Open then None
     else case e of
       (Tx CommitTransactionCommand, Val v) \<Rightarrow> Some Batch_Committed
     | (Tx AbortCurrentTransaction, r) \<Rightarrow> Some Batch_Aborted
     | _ \<Rightarrow> Some Batch_Open)"

lemma batch_step_other: "\<not> ends_batch c \<Longrightarrow> batch_step Batch_Open (c, r) = Some Batch_Open"
  by (auto simp: batch_step_def ends_batch_def split: pg_call.split tx_call.split outcome.split)

lemma batch_idle: "within (\<lambda>c. \<not> ends_batch c) m \<Longrightarrow> keeps batch_step m Batch_Open (\<lambda>r b. b = Batch_Open)"
  by (erule keeps_within) (rule batch_step_other)

lemma batch_commit:
  assumes "\<And>v. Q (Val v) Batch_Committed" "\<And>p. Q (Unwind p) Batch_Open"
  shows "keeps batch_step (call pg (Tx CommitTransactionCommand)) Batch_Open Q"
proof (rule keeps_call)
  fix r show "\<exists>b. batch_step Batch_Open (Tx CommitTransactionCommand, r) = Some b \<and> Q r b"
    using assms by (cases r) (auto simp: batch_step_def)
qed

lemma batch_abort:
  assumes "\<And>r. Q r Batch_Aborted"
  shows "keeps batch_step (call pg (Tx AbortCurrentTransaction)) Batch_Open Q"
proof (rule keeps_call)
  fix r show "\<exists>b. batch_step Batch_Open (Tx AbortCurrentTransaction, r) = Some b \<and> Q r b"
    using assms by (cases r) (auto simp: batch_step_def)
qed

lemma worker_no_end: "worker_call c \<Longrightarrow> \<not> ends_batch c"
  by (auto simp: ends_batch_def)

text \<open>What a batch comes to: committed when it returns its responses, aborted otherwise.\<close>

definition batch_outcome :: "('e + 'a) outcome \<Rightarrow> batch \<Rightarrow> bool" where
  "batch_outcome r b = (case r of Val (Inr _) \<Rightarrow> b = Batch_Committed | _ \<Rightarrow> b = Batch_Aborted)"

text \<open>\<open>AbortCurrentTransaction\<close> and the error, as every failed batch ends.\<close>

lemma batch_abort_ret:
  "keeps batch_step (then_prog (calls pg [Tx AbortCurrentTransaction]) (ret (Inl e))) Batch_Open batch_outcome"
  unfolding calls.simps then_prog_def
  by (rule keeps_bind, rule keeps_bind, rule batch_abort)
    (auto simp: batch_outcome_def split: outcome.split intro!: keeps_ret)

end
