(* ===== verification/Spi.thy ===== *)
theory Spi
  imports Pg_Api
begin

text \<open>
  \<open>backend/spi.rs\<close>: the transaction and SPI session around a statement, and the
  accessors of SPI results and types.  The contract of a transaction bracket, which
  \<open>with_spi\<close> and the direct path's \<open>with_xact\<close> share, is the locale \<open>xact_bracket\<close>.
\<close>

type_synonym ('s, 'a) pg_result = "(pg_call, 's, error_info + 'a) prog"

section \<open>The contract of a bracket\<close>

locale xact_bracket =
  fixes bracket :: "(pg_call, 's, 'e + 'a) prog \<Rightarrow> (pg_call, 's, 'e + 'a) prog"
    and inner :: tx
  assumes bracket_safe: "tx_stable body inner \<Longrightarrow> tx_safe (bracket body) (tx_idle True)"
begin

lemma idle_or_unwound:
  assumes "tx_stable body inner" "bracket body s = (r, t, s')"
  shows "\<exists>b. run_events tx_step (tx_idle True) t = Some b \<and> at_rest r b"
  using bracket_safe[OF assms(1)] assms(2) unfolding tx_safe_def by (rule keepsD)

text \<open>
  A statement behind the check of the aborted state, and a loop over such statements,
  keep the protocol: after every statement the command is closed.
\<close>

lemma checked_statement:
  assumes body: "tx_stable body inner" and other: "\<And>c. tx_safe other (tx_idle c)"
  shows "tx_safe (bind_prog (call pg (Tx IsAbortedTransactionBlockState))
           (\<lambda>v. if as_bool v \<or> skip then other else bracket body)) (tx_idle c)"
  unfolding tx_safe_def
proof (rule tx_bind)
  fix v
  show "keeps tx_step (if as_bool v \<or> skip then other else bracket body) (tx_idle (\<not> as_bool v)) at_rest"
    using bracket_safe[OF body] other by (auto simp: tx_safe_def)
qed simp_all

end

text \<open>A loop over safe statements is safe.\<close>

lemma tx_safe_for_each:
  assumes "\<And>x c. tx_safe (f x) (tx_idle c)"
  shows "tx_safe (for_each f xs) (tx_idle c)"
proof -
  let ?I = "\<lambda>b. \<exists>c. b = tx_idle c"
  have "keeps tx_step (f x) a (\<lambda>r b. case r of Val (Inr y) \<Rightarrow> ?I b | Val (Inl e) \<Rightarrow> ?I b | Unwind p \<Rightarrow> True)"
    if "?I a" for x a
  proof -
    obtain c where "a = tx_idle c" using \<open>?I a\<close> by blast
    then show ?thesis
      using assms[of x c] unfolding tx_safe_def
      by (auto elim!: keeps_conseq simp: at_rest_def split: outcome.splits sum.splits)
  qed
  from keeps_for_each[of xs ?I tx_step f "\<lambda>e. ?I" "\<lambda>p b. True", OF this]
  show ?thesis
    unfolding tx_safe_def by (rule keeps_conseq) (auto simp: at_rest_def split: outcome.splits sum.splits)
qed

section \<open>\<open>with_spi\<close>\<close>

definition rc_error :: "(pg_call, 's) pg_env \<Rightarrow> bytes \<Rightarrow> int \<Rightarrow> (pg_call, 's, error_info) prog" where
  "rc_error pg api rc =
    bind_prog (call pg (Spi (SPI_result_code_string rc)))
      (\<lambda>v. ret (spi_rc_error api rc (case v of V_Bytes n \<Rightarrow> Some n | _ \<Rightarrow> None)))"

text \<open>\<open>body_result.and(Err(e))\<close>: the error of the body wins over the one of the finish.\<close>

definition spi_session :: "(pg_call, 's) pg_env \<Rightarrow> ('s, 'a) pg_result \<Rightarrow> ('s, 'a) pg_result" where
  "spi_session pg body =
    bind_prog (call pg (Spi SPI_connect)) (\<lambda>rc.
      if as_int rc \<noteq> SPI_OK_CONNECT
      then bind_prog (rc_error pg (lit ''SPI_connect'') (as_int rc)) (\<lambda>e. ret (Inl e))
      else bind_prog body (\<lambda>body_result.
        bind_prog (call pg (Spi SPI_finish)) (\<lambda>frc.
          if as_int frc \<noteq> SPI_OK_FINISH
          then bind_prog (rc_error pg (lit ''SPI_finish'') (as_int frc))
                 (\<lambda>e. ret (case body_result of Inl be \<Rightarrow> Inl be | Inr _ \<Rightarrow> Inl e))
          else ret body_result)))"

definition with_spi :: "(pg_call, 's) pg_env \<Rightarrow> ('s, 'a) pg_result \<Rightarrow> ('s, 'a) pg_result" where
  "with_spi pg body =
    then_prog (calls pg [Tx SetCurrentStatementStartTimestamp, Tx StartTransactionCommand,
                         Tx GetTransactionSnapshot, Tx PushActiveSnapshot])
      (bind_prog (catch_unwind (spi_session pg body)) (\<lambda>result. case result of
         Inr (Inr value) \<Rightarrow> then_prog (calls pg [Tx PopActiveSnapshot, Tx CommitTransactionCommand]) (ret (Inr value))
       | Inr (Inl err) \<Rightarrow> then_prog (calls pg [Tx PopActiveSnapshot, Tx CommitTransactionCommand]) (ret (Inl err))
       | Inl payload \<Rightarrow> then_prog (calls pg [Tx AbortCurrentTransaction]) (ret (Inl (panic_to_pgwire payload)))))"

subsection \<open>The bracket of \<open>with_spi\<close> meets the contract\<close>

lemma rc_error_stable: "tx_stable (rc_error pg api rc) a"
  unfolding rc_error_def by (intro tx_stable_intros) simp

text \<open>Inside the session the body may rely on the pushed snapshot and an open SPI session.\<close>

lemma spi_session_keeps:
  fixes body :: "('s, 'a) pg_result"
  assumes "tx_stable body (tx_cmd n True)"
  shows "tx_stable (spi_session pg body) (tx_cmd n False)"
proof -
  have finish: "keeps tx_step (bind_prog (call pg (Spi SPI_finish)) (\<lambda>frc.
          if as_int frc \<noteq> SPI_OK_FINISH
          then bind_prog (rc_error pg (lit ''SPI_finish'') (as_int frc))
                 (\<lambda>e. ret (case br of Inl be \<Rightarrow> Inl be | Inr _ \<Rightarrow> Inl e))
          else ret br)) (tx_cmd n True) (settles (tx_cmd n False))" for br :: "error_info + 'a"
    by (rule tx_bind, simp) (auto intro!: tx_bind_stable rc_error_stable keeps_ret)
  show ?thesis
    unfolding tx_stable_def spi_session_def
    by (rule tx_bind, simp)
      (auto intro!: tx_bind_stable[OF assms] tx_bind_stable[OF rc_error_stable] keeps_ret finish
        simp del: lit_simps)
qed

lemma with_spi_safe:
  fixes body :: "('s, 'a) pg_result"
  assumes "tx_stable body (tx_cmd 1 True)"
  shows "tx_safe (with_spi pg body) (tx_idle True)"
proof -
  have commit: "keeps tx_step (then_prog (calls pg [Tx PopActiveSnapshot, Tx CommitTransactionCommand]) (ret x))
      (tx_cmd (Suc 0) False) at_rest" for x :: "error_info + 'a"
    by (intro tx_then_calls tx_calls keeps_calls_Nil) (auto intro: keeps_ret)
  have abort: "keeps tx_step (then_prog (calls pg [Tx AbortCurrentTransaction]) (ret x)) b
      at_rest" for x :: "error_info + 'a" and b
    by (intro tx_then_calls tx_calls keeps_calls_Nil) (auto intro: keeps_ret)
  have session: "keeps tx_step (catch_unwind (spi_session pg body)) (tx_cmd (Suc 0) False)
      (\<lambda>r b. case r of Val (Inr _) \<Rightarrow> b = tx_cmd (Suc 0) False | Val (Inl _) \<Rightarrow> True | Unwind _ \<Rightarrow> False)"
    by (rule keeps_catch, rule keeps_conseq[OF spi_session_keeps[OF assms[unfolded One_nat_def], unfolded tx_stable_def]])
      (auto simp: settles_def split: outcome.splits)
  have tail: "keeps tx_step (bind_prog (catch_unwind (spi_session pg body)) (\<lambda>result. case result of
         Inr (Inr value) \<Rightarrow> then_prog (calls pg [Tx PopActiveSnapshot, Tx CommitTransactionCommand]) (ret (Inr value))
       | Inr (Inl err) \<Rightarrow> then_prog (calls pg [Tx PopActiveSnapshot, Tx CommitTransactionCommand]) (ret (Inl err))
       | Inl payload \<Rightarrow> then_prog (calls pg [Tx AbortCurrentTransaction]) (ret (Inl (panic_to_pgwire payload)))))
      (tx_cmd (Suc 0) False) at_rest"
    by (rule keeps_bind, rule keeps_conseq[OF session])
      (auto split: outcome.splits sum.splits intro: commit abort)
  show ?thesis
    unfolding tx_safe_def with_spi_def
    by (intro tx_then_calls tx_calls keeps_calls_Nil) (auto intro: tail)
qed

interpretation spi_bracket: xact_bracket "with_spi pg" "tx_cmd 1 True" for pg
  by unfold_locales (rule with_spi_safe)

section \<open>Errors of the bindings' try block\<close>

text \<open>
  \<open>PgTryBuilder\<close> turns every payload into a \<open>CaughtError\<close>: the ones it raised itself
  are passed on, for any other the bindings make a report.
\<close>

definition caught_error_to_pgwire :: "libs \<Rightarrow> payload \<Rightarrow> error_info" where
  "caught_error_to_pgwire lib p =
    error_report_to_pgwire (case extract_report p of Some r \<Rightarrow> r | None \<Rightarrow> panic_report lib p)"

section \<open>Kept plans\<close>

definition keep_plan :: "(pg_call, 's) pg_env \<Rightarrow> nat \<Rightarrow> ('s, nat) pg_result" where
  "keep_plan pg raw =
    bind_prog (call pg (Spi (SPI_keepplan raw))) (\<lambda>rc.
      if as_int rc \<noteq> 0
      then bind_prog (rc_error pg (lit ''SPI_keepplan'') (as_int rc)) (\<lambda>e. ret (Inl e))
      else ret (Inr raw))"

definition spi_plan_drop :: "(pg_call, 's) pg_env \<Rightarrow> nat option \<Rightarrow> (pg_call, 's, unit) prog" where
  "spi_plan_drop pg ptr = (case ptr of None \<Rightarrow> ret () | Some p \<Rightarrow> calls pg [Spi (SPI_freeplan p)])"

definition arg_count :: "(pg_call, 's) pg_env \<Rightarrow> nat \<Rightarrow> (pg_call, 's, nat) prog" where
  "arg_count pg p = bind_prog (call pg (Spi (SPI_getargcount p))) (\<lambda>v. ret (nat (as_int v)))"

definition arg_type :: "(pg_call, 's) pg_env \<Rightarrow> nat \<Rightarrow> nat \<Rightarrow> (pg_call, 's, nat) prog" where
  "arg_type pg p i = bind_prog (call pg (Spi (SPI_getargtypeid p i))) (\<lambda>v. ret (as_handle v))"

section \<open>The tuple table\<close>

record spi_tuples =
  st_table :: nat
  st_rows :: nat

definition spi_tuples_current :: "(pg_call, 's) pg_env \<Rightarrow> (pg_call, 's, spi_tuples option) prog" where
  "spi_tuples_current pg =
    bind_prog (call pg (Spi SPI_tuptable)) (\<lambda>t. case as_ptr t of
      None \<Rightarrow> ret None
    | Some table \<Rightarrow> bind_prog (call pg (Spi SPI_processed))
        (\<lambda>n. ret (Some \<lparr>st_table = table, st_rows = nat (as_int n)\<rparr>)))"

definition processed_rows_without_table :: "(pg_call, 's) pg_env \<Rightarrow> (pg_call, 's, nat) prog" where
  "processed_rows_without_table pg = bind_prog (call pg (Spi SPI_processed)) (\<lambda>n. ret (nat (as_int n)))"

definition tuples_ncols :: "(pg_call, 's) pg_env \<Rightarrow> (pg_call, 's, nat) prog" where
  "tuples_ncols pg = bind_prog (call pg (Spi Tuptable_tupdesc))
     (\<lambda>d. ret (case as_desc d of None \<Rightarrow> 0 | Some attrs \<Rightarrow> length attrs))"

text \<open>\<open>None\<close> is SQL NULL; a cell out of range panics.\<close>

definition tuples_cell :: "(pg_call, 's) pg_env \<Rightarrow> spi_tuples \<Rightarrow> nat \<Rightarrow> nat \<Rightarrow> (pg_call, 's, nat option) prog" where
  "tuples_cell pg t row col =
    bind_prog (tuples_ncols pg) (\<lambda>ncols.
      if row < st_rows t \<and> col < ncols
      then bind_prog (call pg (Spi (SPI_getbinval row (col + 1)))) (\<lambda>v. ret (as_ptr v))
      else panic (Panic_String (lit ''cell ('' @ show_nat row @ lit '','' @ show_nat col @ lit '') out of range (''
             @ show_nat (st_rows t) @ lit '','' @ show_nat ncols @ lit '')'')))"

text \<open>The result columns of a plan: of its first source, when that has a descriptor.\<close>

definition plan_result_columns :: "(pg_call, 's) pg_env \<Rightarrow> nat \<Rightarrow> (pg_call, 's, attribute list option) prog" where
  "plan_result_columns pg p =
    bind_prog (call pg (Spi (SPI_plan_get_plan_sources p))) (\<lambda>v. ret (
      case as_sources v of
        None \<Rightarrow> None
      | Some [] \<Rightarrow> None
      | Some (None # _) \<Rightarrow> None
      | Some (Some result_desc # _) \<Rightarrow> result_desc))"

section \<open>Type input and output\<close>

definition TEXTOID :: nat where "TEXTOID = 25"
definition UNKNOWNOID :: nat where "UNKNOWNOID = 705"

definition resolve_oid_or_text :: "nat \<Rightarrow> nat" where
  "resolve_oid_or_text oid = (if oid = 0 \<or> oid = UNKNOWNOID then TEXTOID else oid)"

text \<open>The function to call and its type parameter.\<close>

type_synonym type_io = "nat \<times> nat"

definition type_input_for_type :: "(pg_call, 's) pg_env \<Rightarrow> nat \<Rightarrow> (pg_call, 's, type_io) prog" where
  "type_input_for_type pg oid =
    bind_prog (call pg (Fn (GetTypeInputInfo (resolve_oid_or_text oid)))) (\<lambda>v. ret (as_pair v))"

definition type_input_call :: "(pg_call, 's) pg_env \<Rightarrow> type_io \<Rightarrow> bytes \<Rightarrow> ('s, nat) pg_result" where
  "type_input_call pg io text =
    (if 0 \<in> set text
     then ret (Inl (generic_error (lit ''pg_transport spi'') (lit ''text parameter contains an interior NUL byte'')))
     else bind_prog (call pg (Fn (OidInputFunctionCall (fst io) text (snd io) (-1)))) (\<lambda>v. ret (Inr (as_handle v))))"

definition type_receive_for_type :: "(pg_call, 's) pg_env \<Rightarrow> nat \<Rightarrow> (pg_call, 's, type_io) prog" where
  "type_receive_for_type pg oid =
    bind_prog (call pg (Fn (GetTypeBinaryInputInfo (resolve_oid_or_text oid)))) (\<lambda>v. ret (as_pair v))"

definition type_receive_call :: "(pg_call, 's) pg_env \<Rightarrow> type_io \<Rightarrow> bytes \<Rightarrow> (pg_call, 's, nat) prog" where
  "type_receive_call pg io data =
    bind_prog (call pg (Fn (OidReceiveFunctionCall (fst io) data (snd io) (-1)))) (\<lambda>v. ret (as_handle v))"

definition type_output_for_type :: "(pg_call, 's) pg_env \<Rightarrow> nat \<Rightarrow> (pg_call, 's, nat) prog" where
  "type_output_for_type pg oid =
    bind_prog (call pg (Fn (GetTypeOutputInfo oid))) (\<lambda>f.
      bind_prog (call pg (Fn (Fmgr_info (as_handle f)))) (\<lambda>finfo. ret (as_handle finfo)))"

definition type_send_for_type :: "(pg_call, 's) pg_env \<Rightarrow> nat \<Rightarrow> (pg_call, 's, nat) prog" where
  "type_send_for_type pg oid =
    bind_prog (call pg (Fn (GetTypeBinaryOutputInfo oid))) (\<lambda>f.
      bind_prog (call pg (Fn (Fmgr_info (as_handle f)))) (\<lambda>finfo. ret (as_handle finfo)))"

text \<open>None of them leaves the open session.\<close>

lemmas spi_worker_defs = rc_error_def keep_plan_def arg_count_def arg_type_def spi_tuples_current_def
  processed_rows_without_table_def tuples_ncols_def tuples_cell_def plan_result_columns_def
  type_input_for_type_def type_input_call_def type_receive_for_type_def type_receive_call_def
  type_output_for_type_def type_send_for_type_def

lemma spi_workers [intro!, simp]:
  "within worker_call (rc_error pg api rc)"
  "within worker_call (keep_plan pg raw)"
  "within worker_call (arg_count pg p)"
  "within worker_call (arg_type pg p i)"
  "within worker_call (spi_tuples_current pg)"
  "within worker_call (processed_rows_without_table pg)"
  "within worker_call (tuples_ncols pg)"
  "within worker_call (tuples_cell pg t row col)"
  "within worker_call (plan_result_columns pg p)"
  unfolding spi_worker_defs
  by (auto intro!: within_intros split: option.split)

lemma type_io_plain [intro!]:
  assumes "\<And>c. plain_call c \<Longrightarrow> P c"
  shows "within P (rc_error pg api rc)"
    "within P (type_input_for_type pg oid)"
    "within P (type_input_call pg io text)"
    "within P (type_receive_for_type pg oid)"
    "within P (type_receive_call pg io data)"
    "within P (type_output_for_type pg oid)"
    "within P (type_send_for_type pg oid)"
  unfolding spi_worker_defs
  by (auto intro!: within_intros assms)

lemma within_direct_worker: "within direct_call m \<Longrightarrow> within worker_call m"
  by (erule within_mono) (rule direct_worker)

end
