(* ===== verification/Dest_Receiver.thy ===== *)
theory Dest_Receiver
  imports Spi
begin

text \<open>
  \<open>backend/dest_receiver.rs\<close>: rows in the wire's format, and the values the wire
  library carries to the client.  Every cell is a big-endian 32-bit length and the
  bytes, \<open>-1\<close> for NULL.
\<close>

section \<open>Values of the wire library\<close>

text \<open>A type of the wire library is its OID; \<open>from_oid\<close> answers for the OIDs it knows.\<close>

datatype field_format = Fmt_Text | Fmt_Binary

record field_info =
  fi_name :: bytes
  fi_type :: nat
  fi_format :: field_format

record data_row =
  dr_data :: bytes
  dr_field_count :: "16 word"

text \<open>\<open>Tag\<close> with its row count, and \<open>QueryResponse\<close> with its command tag when one was set.\<close>

datatype response =
    Execution bytes "nat option"
  | Query "field_info list" "data_row list" "bytes option"

definition type_from_oid :: "libs \<Rightarrow> nat \<Rightarrow> nat option" where
  "type_from_oid lib oid = (if known_type lib oid then Some oid else None)"

definition column_type :: "libs \<Rightarrow> nat \<Rightarrow> nat" where
  "column_type lib oid = (case type_from_oid lib oid of Some t \<Rightarrow> t | None \<Rightarrow> TEXTOID)"

section \<open>Encoding\<close>

definition put_i32 :: "32 word \<Rightarrow> bytes" where
  "put_i32 w = (let n = unat w in
     [of_nat (n div 0x1000000), of_nat (n div 0x10000), of_nat (n div 0x100), of_nat n])"

fun get_i32 :: "bytes \<Rightarrow> 32 word" where
  "get_i32 [a, b, c, d] = of_nat (((unat a * 0x100 + unat b) * 0x100 + unat c) * 0x100 + unat d)"
| "get_i32 _ = 0"

abbreviation NULL_LEN :: "32 word" where "NULL_LEN \<equiv> 0xFFFFFFFF"

lemma length_put_i32 [simp]: "length (put_i32 w) = 4"
  by (simp add: put_i32_def Let_def)

lemma base256:
  assumes "n < 0x100000000"
  shows "((n div 0x1000000 mod 0x100 * 0x100 + n div 0x10000 mod 0x100) * 0x100 + n div 0x100 mod 0x100) * 0x100
    + n mod 0x100 = (n :: nat)"
proof -
  have "n div 0x10000 = n div 0x100 div 0x100" "n div 0x1000000 = n div 0x100 div 0x100 div 0x100"
    by (simp_all add: div_mult2_eq[symmetric])
  moreover have "n div 0x100 div 0x100 div 0x100 < 0x100"
    using assms by (simp add: div_mult2_eq[symmetric] less_mult_imp_div_less)
  ultimately show ?thesis by (simp add: mod_less)
qed

lemma unat_byte: "unat (of_nat k :: 8 word) = k mod 0x100"
  by (simp add: unat_of_nat)

lemma get_put_i32 [simp]: "get_i32 (put_i32 w) = w"
proof -
  have "unat w < 0x100000000" using unsigned_less[of w] by simp
  then show ?thesis
    by (simp only: put_i32_def Let_def get_i32.simps unat_byte base256) simp
qed

text \<open>The bytes of one cell: \<open>put_i32(-1)\<close>, or the length (as an \<open>i32\<close>) and the value.\<close>

definition encode_field :: "bytes option \<Rightarrow> bytes" where
  "encode_field c = (case c of None \<Rightarrow> put_i32 NULL_LEN | Some v \<Rightarrow> put_i32 (of_nat (length v)) @ v)"

section \<open>Column encoders\<close>

datatype column_encoder = Enc_Text nat | Enc_Binary nat

definition column_encoder_for_column ::
  "(pg_call, 's) pg_env \<Rightarrow> nat \<Rightarrow> field_format \<Rightarrow> (pg_call, 's, column_encoder) prog" where
  "column_encoder_for_column pg oid fmt =
    (case fmt of
       Fmt_Text \<Rightarrow> bind_prog (type_output_for_type pg oid) (\<lambda>f. ret (Enc_Text f))
     | Fmt_Binary \<Rightarrow> bind_prog (type_send_for_type pg oid) (\<lambda>f. ret (Enc_Binary f)))"

text \<open>
  The output function's result, and the buffer after \<open>encode_into\<close>.  A text value is
  a C string: it ends before the first NUL byte.
\<close>

definition output_call :: "column_encoder \<Rightarrow> nat \<Rightarrow> fn_call" where
  "output_call enc datum = (case enc of Enc_Text f \<Rightarrow> OutputFunctionCall f datum | Enc_Binary f \<Rightarrow> SendFunctionCall f datum)"

definition field_bytes :: "column_encoder \<Rightarrow> bytes \<Rightarrow> bytes" where
  "field_bytes enc out = (case enc of Enc_Text _ \<Rightarrow> takeWhile (\<lambda>b. b \<noteq> 0) out | Enc_Binary _ \<Rightarrow> out)"

definition encode_into ::
  "(pg_call, 's) pg_env \<Rightarrow> column_encoder \<Rightarrow> nat \<Rightarrow> bytes \<Rightarrow> (pg_call, 's, bytes) prog" where
  "encode_into pg enc datum buf =
    bind_prog (call pg (Fn (output_call enc datum))) (\<lambda>v.
      then_prog (calls pg [Mem (Pfree (as_handle v))])
        (ret (buf @ encode_field (Some (field_bytes enc (as_bytes v))))))"

text \<open>\<open>wire_receive_slot\<close>: one row of the executor, the first \<open>ncols\<close> columns of the slot.\<close>

fun receive_columns ::
  "(pg_call, 's) pg_env \<Rightarrow> (column_encoder \<times> bool \<times> nat) list \<Rightarrow> bytes \<Rightarrow> (pg_call, 's, bytes) prog" where
  "receive_columns pg [] buf = ret buf"
| "receive_columns pg ((enc, is_null, datum) # cs) buf =
    (if is_null then receive_columns pg cs (buf @ encode_field None)
     else bind_prog (encode_into pg enc datum buf) (receive_columns pg cs))"

definition wire_receive_slot ::
  "(pg_call, 's) pg_env \<Rightarrow> column_encoder list \<Rightarrow> nat \<Rightarrow> data_row list \<Rightarrow> slot_row
    \<Rightarrow> (pg_call, 's, data_row list) prog" where
  "wire_receive_slot pg encoders ncols rows slot =
    bind_prog (receive_columns pg (zip encoders (take ncols slot)) [])
      (\<lambda>buf. ret (rows @ [\<lparr>dr_data = buf, dr_field_count = of_nat ncols\<rparr>]))"

fun receive_rows ::
  "(pg_call, 's) pg_env \<Rightarrow> column_encoder list \<Rightarrow> nat \<Rightarrow> slot_row list \<Rightarrow> data_row list
    \<Rightarrow> (pg_call, 's, data_row list) prog" where
  "receive_rows pg encoders ncols [] rows = ret rows"
| "receive_rows pg encoders ncols (slot # slots) rows =
    bind_prog (wire_receive_slot pg encoders ncols rows slot) (receive_rows pg encoders ncols slots)"

section \<open>Tags and schemas\<close>

definition command_tag_name :: "(pg_call, 's) pg_env \<Rightarrow> int \<Rightarrow> (pg_call, 's, bytes) prog" where
  "command_tag_name pg tag =
    bind_prog (call pg (Exec (GetCommandTagName tag)))
      (\<lambda>v. ret (case as_str v of None \<Rightarrow> lit ''OK'' | Some n \<Rightarrow> n))"

fun collect :: "('c, 's, 'a) prog list \<Rightarrow> ('c, 's, 'a list) prog" where
  "collect [] = ret []"
| "collect (m # ms) = bind_prog m (\<lambda>x. bind_prog (collect ms) (\<lambda>xs. ret (x # xs)))"

definition schema_and_encoders_uniform ::
  "(pg_call, 's) pg_env \<Rightarrow> libs \<Rightarrow> attribute list \<Rightarrow> field_format
    \<Rightarrow> (pg_call, 's, field_info list \<times> column_encoder list) prog" where
  "schema_and_encoders_uniform pg lib tupdesc fmt =
    bind_prog (collect (map (\<lambda>(name, oid). column_encoder_for_column pg oid fmt) tupdesc)) (\<lambda>encoders.
      ret (map (\<lambda>(name, oid). \<lparr>fi_name = name, fi_type = column_type lib oid, fi_format = fmt\<rparr>) tupdesc, encoders))"

section \<open>The workers stay inside the open command\<close>

lemma within_collect: "(\<And>m. m \<in> set ms \<Longrightarrow> within P m) \<Longrightarrow> within P (collect ms)"
  by (induction ms) (auto intro!: within_intros)

lemma dest_plain [intro!]:
  assumes "\<And>c. plain_call c \<Longrightarrow> P c"
  shows "within P (column_encoder_for_column pg oid fmt)"
    "within P (encode_into pg enc datum buf)"
  by (auto simp: column_encoder_for_column_def encode_into_def output_call_def
      intro!: within_intros assms split: field_format.split column_encoder.split)

lemma receive_plain [intro!]:
  assumes "\<And>c. plain_call c \<Longrightarrow> P c"
  shows "within P (receive_columns pg cs buf)"
    "within P (wire_receive_slot pg encoders ncols rows slot)"
    "within P (receive_rows pg encoders ncols slots rows)"
proof -
  show *: "within P (receive_columns pg cs buf)" for cs buf
    by (induction cs arbitrary: buf) (auto intro!: within_intros assms)
  show **: "within P (wire_receive_slot pg encoders ncols rows slot)" for rows slot
    unfolding wire_receive_slot_def by (intro within_intros *)
  show "within P (receive_rows pg encoders ncols slots rows)"
    by (induction slots arbitrary: rows) (auto intro!: within_intros **)
qed

lemma schema_plain [intro!]:
  assumes "\<And>c. plain_call c \<Longrightarrow> P c"
  shows "within P (schema_and_encoders_uniform pg lib tupdesc fmt)"
    "within P (command_tag_name pg tag)"
  by (auto simp: schema_and_encoders_uniform_def command_tag_name_def intro!: within_intros within_collect assms)

section \<open>Reading a row back\<close>

text \<open>The reader of a row with \<open>n\<close> columns; a negative length other than \<open>-1\<close> is an error.\<close>

fun decode_fields :: "nat \<Rightarrow> bytes \<Rightarrow> bytes option list option" where
  "decode_fields 0 bs = (if bs = [] then Some [] else None)"
| "decode_fields (Suc n) bs =
    (if length bs < 4 then None
     else let len = get_i32 (take 4 bs); rest = drop 4 bs in
       if len = NULL_LEN then map_option (Cons None) (decode_fields n rest)
       else if 0x80000000 \<le> unat len \<or> length rest < unat len then None
       else map_option (Cons (Some (take (unat len) rest))) (decode_fields n (drop (unat len) rest)))"

definition field_fits :: "bytes option \<Rightarrow> bool" where
  "field_fits c = (case c of None \<Rightarrow> True | Some v \<Rightarrow> length v < 0x80000000)"

lemma decode_encode_field:
  assumes "field_fits c"
  shows "decode_fields (Suc n) (encode_field c @ rest) = map_option (Cons c) (decode_fields n rest)"
proof (cases c)
  case (Some v)
  have v: "length v < 0x80000000" using assms Some by (simp add: field_fits_def)
  have u: "unat (of_nat (length v) :: 32 word) = length v"
    using v by (simp add: unat_of_nat)
  have "(of_nat (length v) :: 32 word) \<noteq> NULL_LEN"
  proof
    assume "(of_nat (length v) :: 32 word) = NULL_LEN"
    then have "length v = unat NULL_LEN" using u by metis
    with v show False by simp
  qed
  then show ?thesis using v by (simp add: Some encode_field_def u Let_def)
qed (simp add: encode_field_def Let_def)

lemma decode_encode_fields:
  "list_all field_fits cells \<Longrightarrow> decode_fields (length cells) (concat (map encode_field cells)) = Some cells"
proof (induction cells)
  case (Cons c cells)
  have "decode_fields (Suc (length cells)) (encode_field c @ concat (map encode_field cells)) =
      map_option (Cons c) (decode_fields (length cells) (concat (map encode_field cells)))"
    by (rule decode_encode_field) (use Cons.prems in simp)
  then show ?case using Cons by (simp del: decode_fields.simps)
qed simp

text \<open>The answers of the output functions in a trace, and the cells they stand for.\<close>

fun outputs :: "pg_call event list \<Rightarrow> bytes list" where
  "outputs [] = []"
| "outputs ((Fn c, Val v) # t) = as_bytes v # outputs t"
| "outputs (e # t) = outputs t"

fun cells_of :: "(column_encoder \<times> bool \<times> nat) list \<Rightarrow> bytes list \<Rightarrow> bytes option list" where
  "cells_of [] outs = []"
| "cells_of ((enc, True, d) # cs) outs = None # cells_of cs outs"
| "cells_of ((enc, False, d) # cs) outs =
    (case outs of [] \<Rightarrow> [] | v # vs \<Rightarrow> Some (field_bytes enc v) # cells_of cs vs)"

lemma encode_into_Val:
  assumes "encode_into pg enc datum buf s = (Val out, t, s')"
  shows "\<exists>v. (\<forall>t'. outputs (t @ t') = v # outputs t') \<and> out = buf @ encode_field (Some (field_bytes enc v))"
  using assms
  by (auto simp: encode_into_def bind_prog_def then_prog_def calls.simps call_def ret_def Let_def
      split: prod.splits outcome.splits)

lemma receive_columns_Val:
  "receive_columns pg cs buf s = (Val out, t, s') \<Longrightarrow>
    length (cells_of cs (outputs t)) = length cs \<and>
    out = buf @ concat (map encode_field (cells_of cs (outputs t)))"
proof (induction cs arbitrary: buf s t)
  case (Cons c cs)
  obtain enc is_null datum where c: "c = (enc, is_null, datum)" by (cases c)
  show ?case
  proof (cases is_null)
    case True
    with Cons.prems Cons.IH[of "buf @ encode_field None" s t] show ?thesis by (simp add: c)
  next
    case False
    obtain r1 t1 s1 where e: "encode_into pg enc datum buf s = (r1, t1, s1)" by (metis prod_cases3)
    with Cons.prems False obtain b where r1: "r1 = Val b" by (cases r1) (auto simp: c bind_prog_def)
    obtain r2 t2 s2 where k: "receive_columns pg cs b s1 = (r2, t2, s2)" by (metis prod_cases3)
    from Cons.prems False e r1 k have "r2 = Val out" "t = t1 @ t2" by (auto simp: c bind_prog_def)
    moreover obtain v where "\<forall>t'. outputs (t1 @ t') = v # outputs t'" "b = buf @ encode_field (Some (field_bytes enc v))"
      using encode_into_Val[of pg enc datum buf s b t1 s1] e r1 by blast
    moreover have "s2 = s'" using Cons.prems False e r1 k by (simp add: c bind_prog_def)
    moreover from this have "receive_columns pg cs b s1 = (Val out, t2, s')" using k \<open>r2 = Val out\<close> by simp
    from Cons.IH[OF this] have "length (cells_of cs (outputs t2)) = length cs \<and>
      out = b @ concat (map encode_field (cells_of cs (outputs t2)))" .
    ultimately show ?thesis using False by (simp add: c)
  qed
qed (auto simp: ret_def)

lemma field_bytes_le: "length (field_bytes enc v) \<le> length v"
  by (cases enc) (simp_all add: field_bytes_def length_takeWhile_le)

lemma cells_fit:
  "list_all (\<lambda>v. length v < 0x80000000) outs \<Longrightarrow> list_all field_fits (cells_of cs outs)"
proof (induction cs outs rule: cells_of.induct)
  case (3 enc d cs outs)
  have "length v < n \<Longrightarrow> length (field_bytes enc v) < n" for v n using field_bytes_le[of enc v] by simp
  with 3 show ?case by (auto simp: field_fits_def split: list.split)
qed (simp_all add: field_fits_def)

text \<open>C25. Whatever the executor and the type output functions do, a row that
  \<open>wire_receive_slot\<close> pushes reads back, column by column, as NULL where the slot is
  null and as the output function's bytes elsewhere, and the rows pushed before it are
  kept; this holds as long as each value is shorter than 2 GiB.
\<close>

theorem wire_row_roundtrip:
  assumes "wire_receive_slot pg encoders ncols rows slot s = (Val rows', t, s')"
    and "length encoders = ncols" "ncols \<le> length slot"
    and "list_all (\<lambda>v. length v < 0x80000000) (outputs t)"
  shows "\<exists>row. rows' = rows @ [row] \<and> dr_field_count row = of_nat ncols \<and>
    decode_fields ncols (dr_data row) = Some (cells_of (zip encoders (take ncols slot)) (outputs t))"
proof -
  let ?cs = "zip encoders (take ncols slot)"
  obtain r1 t1 s1 where e: "receive_columns pg ?cs [] s = (r1, t1, s1)" by (metis prod_cases3)
  with assms(1) obtain buf where r1: "r1 = Val buf" "t1 = t"
    and rows': "rows' = rows @ [\<lparr>dr_data = buf, dr_field_count = of_nat ncols\<rparr>]"
    by (cases r1) (auto simp: wire_receive_slot_def bind_prog_def ret_def)
  from receive_columns_Val[of pg ?cs "[]" s buf t s1] e r1
  have "length (cells_of ?cs (outputs t)) = ncols" "buf = concat (map encode_field (cells_of ?cs (outputs t)))"
    using assms(2,3) by simp_all
  then show ?thesis
    using rows' decode_encode_fields[OF cells_fit[OF assms(4)], of ?cs] by auto
qed

definition demo_output_pg :: "(pg_call, unit) pg_env" where
  "demo_output_pg c s = (Val (V_Bytes [0x34, 0x32]), ())"

lemma wire_row_roundtrip_witness:
  "\<exists>row. fst (wire_receive_slot demo_output_pg [Enc_Text 1, Enc_Text 2] 2 [] [(False, 7), (True, 0)] ()) = Val ([] @ [row])
    \<and> dr_field_count row = of_nat 2 \<and> decode_fields 2 (dr_data row) = Some [Some [0x34, 0x32], None]"
proof -
  let ?m = "wire_receive_slot demo_output_pg [Enc_Text 1, Enc_Text 2] 2 [] [(False, 7), (True, 0)] ()"
  have run: "?m = (Val [\<lparr>dr_data = encode_field (Some [0x34, 0x32]) @ encode_field None, dr_field_count = of_nat 2\<rparr>],
      [(Fn (OutputFunctionCall 1 7), Val (V_Bytes [0x34, 0x32])), (Mem (Pfree 0), Val (V_Bytes [0x34, 0x32]))], ())"
    by (simp add: wire_receive_slot_def encode_into_def bind_prog_def then_prog_def calls.simps call_def
        ret_def demo_output_pg_def output_call_def field_bytes_def as_handle_def)
  from wire_row_roundtrip[OF run] show ?thesis
    unfolding run by (simp add: field_bytes_def)
qed

end
