(* ===== verification/Statement_Text.thy ===== *)
theory Statement_Text
  imports Dest_Receiver
begin

text \<open>
  From the raw parser's answer to the statements a batch runs: the spans of
  \<open>extract_statement_spans\<close>, their classification, and the slices of the query string
  (\<open>backend/spi_bridge.rs\<close>; \<open>backend/simple_direct.rs\<close> computes the same spans).
\<close>

section \<open>Transaction control\<close>

datatype xact_cmd = Xact_Begin | Xact_Commit | Xact_Rollback

record stmt_meta =
  sm_xact :: "xact_cmd option"
  sm_fetch_portalname :: "bytes option"

definition classify_raw_stmt :: "raw_stmt \<Rightarrow> xact_cmd option" where
  "classify_raw_stmt rs =
    (case rs_node rs of
       N_Transaction kind \<Rightarrow>
         (case kind of
            TRANS_STMT_BEGIN \<Rightarrow> Some Xact_Begin
          | TRANS_STMT_START \<Rightarrow> Some Xact_Begin
          | TRANS_STMT_COMMIT \<Rightarrow> Some Xact_Commit
          | TRANS_STMT_ROLLBACK \<Rightarrow> Some Xact_Rollback
          | _ \<Rightarrow> None)
     | _ \<Rightarrow> None)"

text \<open>The name is copied from a C string, so it has no NUL byte.\<close>

definition extract_fetch_portalname :: "raw_stmt \<Rightarrow> bytes option" where
  "extract_fetch_portalname rs =
    (case rs_node rs of
       N_Fetch move name \<Rightarrow>
         (if move then None else map_option (takeWhile (\<lambda>b. b \<noteq> 0)) name)
     | _ \<Rightarrow> None)"

definition is_xact_exit_stmt :: "stmt_meta \<Rightarrow> bool" where
  "is_xact_exit_stmt meta \<longleftrightarrow> sm_xact meta = Some Xact_Commit \<or> sm_xact meta = Some Xact_Rollback"

section \<open>Spans\<close>

text \<open>\<open>stmt_len = 0\<close> means up to the end of the input.\<close>

definition stmt_span :: "raw_stmt \<Rightarrow> nat \<Rightarrow> int \<times> int" where
  "stmt_span rs total_len =
    (let loc = rs_location rs; len = rs_len rs
     in if len = 0 then (max loc 0, int (total_len - nat (max loc 0)))
        else (max loc 0, len))"

definition extract_statement_spans :: "raw_stmt option list option \<Rightarrow> nat \<Rightarrow> (int \<times> int \<times> stmt_meta) list" where
  "extract_statement_spans parsed total_len =
    (case parsed of
       None \<Rightarrow> []
     | Some cells \<Rightarrow>
         map (\<lambda>rs. (fst (stmt_span rs total_len), snd (stmt_span rs total_len),
                     \<lparr>sm_xact = classify_raw_stmt rs, sm_fetch_portalname = extract_fetch_portalname rs\<rparr>))
           (map the (filter (\<lambda>c. c \<noteq> None) cells)))"

definition extract_raw_stmt_spans :: "raw_stmt option list option \<Rightarrow> nat \<Rightarrow> (int \<times> int \<times> raw_stmt) list" where
  "extract_raw_stmt_spans parsed total_len =
    (case parsed of
       None \<Rightarrow> []
     | Some cells \<Rightarrow>
         map (\<lambda>rs. (fst (stmt_span rs total_len), snd (stmt_span rs total_len), rs))
           (map the (filter (\<lambda>c. c \<noteq> None) cells)))"

text \<open>\<open>&query[loc..loc + len]\<close>: a panic (here \<open>None\<close>) out of range or inside a character.\<close>

definition is_char_boundary :: "bytes \<Rightarrow> nat \<Rightarrow> bool" where
  "is_char_boundary q i \<longleftrightarrow> i = 0 \<or> i = length q \<or> (i < length q \<and> \<not> cont_byte (q ! i))"

definition slice_str :: "bytes \<Rightarrow> int \<Rightarrow> int \<Rightarrow> bytes option" where
  "slice_str q loc len =
    (if 0 \<le> loc \<and> 0 \<le> len \<and> loc + len \<le> int (length q) \<and> is_char_boundary q (nat loc)
        \<and> is_char_boundary q (nat (loc + len))
     then Some (take (nat len) (drop (nat loc) q)) else None)"

fun slice_all :: "bytes \<Rightarrow> (int \<times> int \<times> 'm) list \<Rightarrow> (bytes \<times> 'm) list option" where
  "slice_all q [] = Some []"
| "slice_all q ((loc, len, m) # spans) =
    (case slice_str q loc len of
       None \<Rightarrow> None
     | Some text \<Rightarrow> map_option (Cons (text, m)) (slice_all q spans))"

text \<open>\<open>text.trim().is_empty()\<close>: only Unicode white space, in its UTF-8 encoding.\<close>

definition ascii_space :: "8 word \<Rightarrow> bool" where
  "ascii_space b \<longleftrightarrow> in_range 0x09 0x0D b \<or> b = 0x20"

definition wide_space :: "8 word \<Rightarrow> 8 word \<Rightarrow> 8 word \<Rightarrow> bool" where
  "wide_space a b c \<longleftrightarrow>
    a = 0xE1 \<and> b = 0x9A \<and> c = 0x80
    \<or> a = 0xE2 \<and> b = 0x80 \<and> (in_range 0x80 0x8A c \<or> c = 0xA8 \<or> c = 0xA9 \<or> c = 0xAF)
    \<or> a = 0xE2 \<and> b = 0x81 \<and> c = 0x9F
    \<or> a = 0xE3 \<and> b = 0x80 \<and> c = 0x80"

fun trims_to_empty :: "bytes \<Rightarrow> bool" where
  "trims_to_empty [] = True"
| "trims_to_empty (a # s) =
    (if ascii_space a then trims_to_empty s
     else case s of [] \<Rightarrow> False | b # s1 \<Rightarrow>
       if a = 0xC2 \<and> (b = 0x85 \<or> b = 0xA0) then trims_to_empty s1
       else case s1 of [] \<Rightarrow> False | c # s2 \<Rightarrow> wide_space a b c \<and> trims_to_empty s2)"

section \<open>What the spans are\<close>

lemma slice_str_length:
  assumes "slice_str q loc len = Some text"
  shows "int (length text) = len \<and> (\<exists>pre post. q = pre @ text @ post \<and> int (length pre) = loc)"
proof -
  let ?l = "nat loc" and ?n = "nat len"
  have b: "0 \<le> loc" "0 \<le> len" "loc + len \<le> int (length q)" and body: "text = take ?n (drop ?l q)"
    using assms by (auto simp: slice_str_def split: if_splits)
  have "?l + ?n \<le> length q" using b by linarith
  moreover have "q = take ?l q @ text @ drop ?n (drop ?l q)"
    unfolding body by (simp only: append_take_drop_id)
  ultimately show ?thesis using b body by (intro conjI exI[of _ "take ?l q"] exI) auto
qed

text \<open>A slice of valid UTF-8 starts and ends between characters, so it is a string again.\<close>

lemma slice_all_Some_iff:
  "slice_all q spans = Some r \<longleftrightarrow>
    list_all2 (\<lambda>sp st. slice_str q (fst sp) (fst (snd sp)) = Some (fst st) \<and> snd (snd sp) = snd st) spans r"
proof (induction spans arbitrary: r)
  case (Cons sp spans)
  obtain loc len m where sp: "sp = (loc, len, m)" by (cases sp)
  show ?case
  proof (cases r)
    case Nil
    then show ?thesis by (simp add: sp split: option.split)
  next
    case (Cons st r')
    then show ?thesis using Cons.IH[of r'] by (cases st) (auto simp: sp split: option.split)
  qed
qed auto

lemma slice_all_metas: "slice_all q spans = Some r \<Longrightarrow> map snd r = map (snd \<circ> snd) spans"
  unfolding slice_all_Some_iff by (induction rule: list_all2_induct) auto

lemma stmt_slice:
  assumes "slice_str query (fst (stmt_span rs (length query))) (snd (stmt_span rs (length query))) = Some body"
  shows "\<exists>pre post. query = pre @ body @ post \<and> int (length pre) = max (rs_location rs) 0 \<and>
        (if rs_len rs = 0 then post = [] else int (length body) = rs_len rs)"
proof -
  obtain pre post where q: "query = pre @ body @ post" "int (length pre) = fst (stmt_span rs (length query))"
    and len: "int (length body) = snd (stmt_span rs (length query))"
    using slice_str_length[OF assms] by blast
  have loc: "fst (stmt_span rs (length query)) = max (rs_location rs) 0" by (simp add: stmt_span_def Let_def)
  have "post = []" if "rs_len rs = 0"
  proof -
    have "length body = length query - length pre"
      using len that loc q(2) by (simp add: stmt_span_def Let_def)
    moreover have "length query = length pre + length body + length post" using q(1) by simp
    ultimately show ?thesis by simp
  qed
  moreover have "int (length body) = rs_len rs" if "rs_len rs \<noteq> 0"
    using len that by (simp add: stmt_span_def Let_def)
  ultimately show ?thesis using q loc by (intro exI[of _ pre] exI[of _ post]) auto
qed

text \<open>C26. The statements a batch runs, when slicing succeeds: one per non-null entry of
  the parse list, in its order, each with the classification and the cursor name of its
  own parse node, and its text is the substring at the reported location, of the
  reported length, or the whole rest of the query when the parser reports length 0.
\<close>

theorem statements_of_parse_list:
  assumes "slice_all query (extract_statement_spans (Some cells) (length query)) = Some stmts"
  shows "list_all2 (\<lambda>rs (text, meta).
      sm_xact meta = classify_raw_stmt rs \<and> sm_fetch_portalname meta = extract_fetch_portalname rs \<and>
      (\<exists>pre post. query = pre @ text @ post \<and> int (length pre) = max (rs_location rs) 0 \<and>
        (if rs_len rs = 0 then post = [] else int (length text) = rs_len rs)))
    (map the (filter (\<lambda>c. c \<noteq> None) cells)) stmts"
proof -
  let ?rss = "map the (filter (\<lambda>c. c \<noteq> None) cells)"
  let ?f = "\<lambda>rs. (fst (stmt_span rs (length query)), snd (stmt_span rs (length query)),
      \<lparr>sm_xact = classify_raw_stmt rs, sm_fetch_portalname = extract_fetch_portalname rs\<rparr>)"
  have "list_all2 (\<lambda>rs (text, meta). slice_str query (fst (stmt_span rs (length query))) (snd (stmt_span rs (length query)))
      = Some text \<and> \<lparr>sm_xact = classify_raw_stmt rs, sm_fetch_portalname = extract_fetch_portalname rs\<rparr> = meta) ?rss stmts"
    using assms unfolding slice_all_Some_iff extract_statement_spans_def option.case list_all2_map1
    by (rule list_all2_mono) (auto split: prod.split)
  then show ?thesis
    by (rule list_all2_mono) (use stmt_slice in fastforce)
qed

text \<open>``\<open>BEGIN;SELECT 1\<close>'': the second statement runs to the end.\<close>

lemma statements_of_parse_list_witness:
  "\<exists>pre post. lit ''BEGIN;SELECT 1'' = pre @ lit ''SELECT 1'' @ post \<and> int (length pre) = 6 \<and> post = []"
proof -
  let ?cells = "[Some \<lparr>rs_node = N_Transaction TRANS_STMT_BEGIN, rs_location = 0, rs_len = 5\<rparr>, None,
                 Some \<lparr>rs_node = N_Other 0, rs_location = 6, rs_len = 0\<rparr>]"
  have "slice_all (lit ''BEGIN;SELECT 1'') (extract_statement_spans (Some ?cells) (length (lit ''BEGIN;SELECT 1''))) =
      Some [(lit ''BEGIN'', \<lparr>sm_xact = Some Xact_Begin, sm_fetch_portalname = None\<rparr>),
            (lit ''SELECT 1'', \<lparr>sm_xact = None, sm_fetch_portalname = None\<rparr>)]"
    by code_simp
  from statements_of_parse_list[OF this] show ?thesis by simp
qed

end
