(* ===== verification/Observability.thy ===== *)
theory Observability
  imports Pg_Api
begin

text \<open>
  \<open>backend/observability.rs\<close>: the guards around a query.  \<open>DebugQueryGuard\<close> pins
  \<open>debug_query_string\<close> and the activity report, \<open>StatementTimeoutGuard\<close> arms the
  statement timer unless it already runs.  Both undo their work when they go out of
  scope, on a return, an error and an unwind: the contract is the locale \<open>scope_guard\<close>.
\<close>

section \<open>The guards\<close>

definition STATEMENT_TIMEOUT :: int where "STATEMENT_TIMEOUT = 3"

definition debug_query_install :: "(pg_call, 's) pg_env \<Rightarrow> bytes \<Rightarrow> (pg_call, 's, bytes option) prog" where
  "debug_query_install pg sql =
    bind_prog (call pg (Obs Debug_query_string)) (\<lambda>prev.
      then_prog (calls pg [Obs (Set_debug_query_string (Some sql)), Obs (Pgstat_report_activity True (Some sql))])
        (ret (as_str prev)))"

definition debug_query_drop :: "(pg_call, 's) pg_env \<Rightarrow> bytes option \<Rightarrow> (pg_call, 's, unit) prog" where
  "debug_query_drop pg prev = calls pg [Obs (Set_debug_query_string prev), Obs (Pgstat_report_activity False None)]"

definition debug_query_guard :: "(pg_call, 's) pg_env \<Rightarrow> bytes \<Rightarrow> (pg_call, 's, 'r) prog \<Rightarrow> (pg_call, 's, 'r) prog" where
  "debug_query_guard pg sql body =
    bind_prog (debug_query_install pg sql) (\<lambda>prev. with_guard (debug_query_drop pg prev) body)"

definition timeout_install :: "(pg_call, 's) pg_env \<Rightarrow> (pg_call, 's, bool) prog" where
  "timeout_install pg =
    bind_prog (call pg (Obs StatementTimeout)) (\<lambda>ms.
      if as_int ms \<le> 0 then ret False
      else bind_prog (call pg (Obs (Get_timeout_active STATEMENT_TIMEOUT))) (\<lambda>active.
        if as_bool active then ret False
        else then_prog (calls pg [Obs (Enable_timeout_after STATEMENT_TIMEOUT (as_int ms))]) (ret True)))"

definition timeout_drop :: "(pg_call, 's) pg_env \<Rightarrow> bool \<Rightarrow> (pg_call, 's, unit) prog" where
  "timeout_drop pg armed_by_us =
    (if armed_by_us then calls pg [Obs (Disable_timeout STATEMENT_TIMEOUT False)] else ret ())"

definition statement_timeout_guard :: "(pg_call, 's) pg_env \<Rightarrow> (pg_call, 's, 'r) prog \<Rightarrow> (pg_call, 's, 'r) prog" where
  "statement_timeout_guard pg body =
    bind_prog (timeout_install pg) (\<lambda>armed. with_guard (timeout_drop pg armed) body)"

text \<open>The prelude of every entry point: both guards, the timer's inside the other's.\<close>

definition query_guards :: "(pg_call, 's) pg_env \<Rightarrow> bytes \<Rightarrow> (pg_call, 's, 'r) prog \<Rightarrow> (pg_call, 's, 'r) prog" where
  "query_guards pg sql body = debug_query_guard pg sql (statement_timeout_guard pg body)"

section \<open>What the guards keep\<close>

text \<open>
  The globals as the code wrote them.  \<open>Obs_Lost\<close>: the server did not behave like
  memory and timers (one of these calls raised, or a read did not give what was written).
\<close>

datatype obs = Obs_Lost | Obs_At (pinned: "bytes option") (running: bool) (armed: bool)

fun obs_next :: "obs \<Rightarrow> obs_call \<Rightarrow> pg_value \<Rightarrow> obs" where
  "obs_next Obs_Lost c v = Obs_Lost"
| "obs_next (Obs_At q r t) Debug_query_string v = (if as_str v = q then Obs_At q r t else Obs_Lost)"
| "obs_next (Obs_At q r t) (Set_debug_query_string p) v = Obs_At p r t"
| "obs_next (Obs_At q r t) (Pgstat_report_activity b p) v = Obs_At q b t"
| "obs_next (Obs_At q r t) StatementTimeout v = Obs_At q r t"
| "obs_next (Obs_At q r t) (Get_timeout_active i) v = (if as_bool v = t then Obs_At q r t else Obs_Lost)"
| "obs_next (Obs_At q r t) (Enable_timeout_after i ms) v = Obs_At q r True"
| "obs_next (Obs_At q r t) (Disable_timeout i k) v = Obs_At q r False"

definition obs_step :: "obs \<Rightarrow> pg_call event \<Rightarrow> obs option" where
  "obs_step a e =
    (case e of
       (Obs c, Val v) \<Rightarrow> Some (obs_next a c v)
     | (Obs c, Unwind p) \<Rightarrow> Some Obs_Lost
     | _ \<Rightarrow> Some a)"

definition restored :: "obs \<Rightarrow> 'r outcome \<Rightarrow> obs \<Rightarrow> bool" where
  "restored a r b \<longleftrightarrow> b = a \<or> b = Obs_Lost"

fun no_obs :: "pg_call \<Rightarrow> bool" where
  "no_obs (Obs c) = False"
| "no_obs c = True"

lemma obs_step_other: "no_obs c \<Longrightarrow> obs_step a (c, r) = Some a"
  by (cases c) (auto simp: obs_step_def)

lemma no_obs_restored: "within no_obs m \<Longrightarrow> keeps obs_step m a (restored a)"
  by (rule keeps_conseq, rule keeps_within[of no_obs]) (auto simp: restored_def obs_step_other)

text \<open>A scope: the body runs in a phase of its own, and the phase before is back afterwards.\<close>

locale scope_guard =
  fixes scope :: "(pg_call, 's, 'r) prog \<Rightarrow> (pg_call, 's, 'r) prog"
    and outside :: "obs \<Rightarrow> bool"
  assumes scope_restores:
    "outside a \<Longrightarrow> (\<And>b. keeps obs_step body b (restored b)) \<Longrightarrow> keeps obs_step (scope body) a (restored a)"
begin

lemma scope_around:
  assumes "within no_obs body" "outside a"
  shows "keeps obs_step (scope body) a (restored a)"
  using assms no_obs_restored by (intro scope_restores) auto

end

text \<open>Rules for single calls, for the calls of this theory.\<close>

lemma keeps_obs:
  assumes "\<And>v. Q (Val v) (obs_next a c v)" "\<And>p. Q (Unwind p) Obs_Lost"
  shows "keeps obs_step (call pg (Obs c)) a Q"
proof (rule keeps_call)
  fix r show "\<exists>b. obs_step a (Obs c, r) = Some b \<and> Q r b" using assms by (cases r) (auto simp: obs_step_def)
qed

lemma obs_bind:
  assumes "\<And>v. keeps obs_step (k v) (obs_next a c v) Q" "\<And>p. Q (Unwind p) Obs_Lost"
  shows "keeps obs_step (bind_prog (call pg (Obs c)) k) a Q"
  by (rule keeps_bind, rule keeps_obs) (simp_all add: assms)

lemma obs_calls:
  assumes "\<And>v. keeps obs_step (calls pg cs) (obs_next a c v) Q" "\<And>p. Q (Unwind p) Obs_Lost"
  shows "keeps obs_step (calls pg (Obs c # cs)) a Q"
  unfolding calls.simps then_prog_def by (rule obs_bind) (simp_all add: assms)

text \<open>A lost phase stays lost.\<close>

lemma obs_lost_step: "obs_step Obs_Lost e = Some Obs_Lost"
  by (cases e) (auto simp: obs_step_def split: pg_call.split outcome.split)

lemma keeps_lost: "keeps obs_step m Obs_Lost (\<lambda>r b. b = Obs_Lost)"
  unfolding keeps_def by (auto intro!: run_events_idle simp: obs_lost_step)

lemma keeps_lost_Q: "(\<And>r. Q r Obs_Lost) \<Longrightarrow> keeps obs_step m Obs_Lost Q"
  by (rule keeps_conseq[OF keeps_lost]) simp

lemma restored_simps [simp]: "restored a r a" "restored a r Obs_Lost" "restored Obs_Lost r b \<longleftrightarrow> b = Obs_Lost"
  by (auto simp: restored_def)

text \<open>A guard whose install call ends in a phase from which its drop code leads back.\<close>

lemma guard_restores:
  fixes body :: "(pg_call, 's, 'r) prog"
  assumes install: "keeps obs_step install a (\<lambda>r b. b = Obs_Lost \<or> (case r of Val x \<Rightarrow> I x b | Unwind p \<Rightarrow> False))"
    and drop: "\<And>x b. I x b \<Longrightarrow> keeps obs_step (drop_code x) b (\<lambda>r' c. c = a \<or> c = Obs_Lost)"
    and body: "\<And>b. keeps obs_step body b (restored b)"
  shows "keeps obs_step (bind_prog install (\<lambda>x. with_guard (drop_code x) body)) a (restored a)"
proof (rule keeps_bind, rule keeps_conseq[OF install])
  fix r b
  assume rb: "b = Obs_Lost \<or> (case r of Val x \<Rightarrow> I x b | Unwind p \<Rightarrow> False)"
  show "case r of Val x \<Rightarrow> keeps obs_step (with_guard (drop_code x) body) b (restored a) | Unwind p \<Rightarrow> restored a (Unwind p) b"
  proof (cases "b = Obs_Lost")
    case True
    then show ?thesis by (auto split: outcome.split intro: keeps_lost_Q)
  next
    case False
    then obtain x where r: "r = Val x" and I: "I x b" using rb by (cases r) auto
    have "keeps obs_step (drop_code x) b' (\<lambda>r' c. restored a (case r' of Val _ \<Rightarrow> y | Unwind p \<Rightarrow> Unwind p) c)"
      if "restored b y b'" for y :: "'r outcome" and b'
    proof (cases "b' = Obs_Lost")
      case True
      then show ?thesis by (auto intro: keeps_lost_Q)
    next
      case False
      then have "b' = b" using that by (simp add: restored_def)
      then show ?thesis using keeps_conseq[OF drop[OF I]] by (auto simp: restored_def)
    qed
    then show ?thesis by (simp add: r keeps_guard keeps_conseq[OF body])
  qed
qed

lemma debug_query_guard_restores:
  assumes "a = Obs_Lost \<or> \<not> running a" "\<And>b. keeps obs_step body b (restored b)"
  shows "keeps obs_step (debug_query_guard pg sql body) a (restored a)"
proof (cases a)
  case Obs_Lost
  then show ?thesis by (simp add: keeps_lost_Q)
next
  case (Obs_At q r t)
  then have r: "r = False" using assms(1) by simp
  show ?thesis
    unfolding debug_query_guard_def
  proof (rule guard_restores[where I = "\<lambda>x b. x = q \<and> b = Obs_At (Some sql) True t"])
    show "keeps obs_step (debug_query_install pg sql) a
        (\<lambda>r b. b = Obs_Lost \<or> (case r of Val x \<Rightarrow> x = q \<and> b = Obs_At (Some sql) True t | Unwind p \<Rightarrow> False))"
      unfolding debug_query_install_def Obs_At then_prog_def
      by (rule obs_bind)
        (auto intro!: keeps_bind obs_calls keeps_calls_Nil keeps_ret keeps_lost_Q split: outcome.split)
    fix x b assume "x = q \<and> b = Obs_At (Some sql) True t"
    then show "keeps obs_step (debug_query_drop pg x) b (\<lambda>r' c. c = a \<or> c = Obs_Lost)"
      unfolding debug_query_drop_def by (auto simp: Obs_At r intro!: obs_calls keeps_calls_Nil)
  qed (rule assms)
qed

text \<open>The timer is disarmed only when this guard armed it.\<close>

lemma statement_timeout_guard_restores:
  assumes "\<And>b. keeps obs_step body b (restored b)"
  shows "keeps obs_step (statement_timeout_guard pg body) a (restored a)"
proof (cases a)
  case Obs_Lost
  then show ?thesis by (simp add: keeps_lost_Q)
next
  case (Obs_At q r t)
  show ?thesis
    unfolding statement_timeout_guard_def
  proof (rule guard_restores[where I = "\<lambda>x b. b = Obs_At q r (t \<or> x) \<and> (x \<longrightarrow> \<not> t)"])
    show "keeps obs_step (timeout_install pg) a
        (\<lambda>rr b. b = Obs_Lost \<or> (case rr of Val x \<Rightarrow> b = Obs_At q r (t \<or> x) \<and> (x \<longrightarrow> \<not> t) | Unwind p \<Rightarrow> False))"
      unfolding timeout_install_def Obs_At then_prog_def
      by (rule obs_bind)
        (auto intro!: keeps_bind[where m = "calls pg cs" for cs] obs_bind obs_calls keeps_calls_Nil keeps_ret keeps_lost_Q split: outcome.split)
    fix x b assume "b = Obs_At q r (t \<or> x) \<and> (x \<longrightarrow> \<not> t)"
    then show "keeps obs_step (timeout_drop pg x) b (\<lambda>r' c. c = a \<or> c = Obs_Lost)"
      unfolding timeout_drop_def by (cases x) (auto simp: Obs_At intro!: obs_calls keeps_calls_Nil keeps_ret)
  qed (rule assms)
qed

interpretation debug_scope: scope_guard "debug_query_guard pg sql" "\<lambda>a. a = Obs_Lost \<or> \<not> running a" for pg sql
  by unfold_locales (rule debug_query_guard_restores)

interpretation timeout_scope: scope_guard "statement_timeout_guard pg" "\<lambda>a. True" for pg
  by unfold_locales (rule statement_timeout_guard_restores)

lemma query_guards_restore:
  assumes "a = Obs_Lost \<or> \<not> running a" "within no_obs body"
  shows "keeps obs_step (query_guards pg sql body) a (restored a)"
  unfolding query_guards_def
  by (rule debug_scope.scope_restores[OF assms(1)], rule timeout_scope.scope_around[OF assms(2)]) simp

text \<open>The guards themselves call nothing else.\<close>

lemma guards_within:
  assumes "within P body" "\<And>c. P (Obs c)"
  shows "within P (query_guards pg sql body)"
  unfolding query_guards_def debug_query_guard_def debug_query_install_def debug_query_drop_def
    statement_timeout_guard_def timeout_install_def timeout_drop_def
  by (auto intro!: within_intros assms)

text \<open>They keep the transaction protocol of the body.\<close>

lemma obs_tx_free: "within (\<lambda>c. \<exists>d. c = Obs d) m \<Longrightarrow> tx_stable m a"
  by (erule tx_stable_within) auto

lemma guard_tx:
  fixes body :: "(pg_call, 's, 'r) prog"
  assumes "within (\<lambda>c. \<exists>d. c = Obs d) install" "\<And>x. within (\<lambda>c. \<exists>d. c = Obs d) (drop_code x)"
    and "keeps tx_step body a at_rest"
  shows "keeps tx_step (bind_prog install (\<lambda>x. with_guard (drop_code x) body)) a at_rest"
proof (rule tx_bind_stable[OF obs_tx_free[OF assms(1)]])
  fix x
  have "keeps tx_step (drop_code x) c (\<lambda>r' d. at_rest (case r' of Val _ \<Rightarrow> y | Unwind p \<Rightarrow> Unwind p) d)"
    if "at_rest y c" for y :: "'r outcome" and c
    using that by (intro keeps_conseq[OF obs_tx_free[OF assms(2)[of x], of c, unfolded tx_stable_def]])
      (auto simp: at_rest_def split: outcome.splits)
  then show "keeps tx_step (with_guard (drop_code x) body) a at_rest"
    by (intro keeps_guard keeps_conseq[OF assms(3)])
qed simp

lemma query_guards_tx:
  assumes "keeps tx_step body a at_rest"
  shows "keeps tx_step (query_guards pg sql body) a at_rest"
  unfolding query_guards_def debug_query_guard_def statement_timeout_guard_def
  by (intro guard_tx assms)
    (auto simp: debug_query_install_def debug_query_drop_def timeout_install_def timeout_drop_def intro!: within_intros)

end
