(* ===== verification/Spi_Bridge.thy ===== *)
theory Spi_Bridge
  imports Statement_Text Observability
begin

text \<open>
  \<open>backend/spi_bridge.rs\<close>: simple queries through SPI.  The parse with its scratch
  memory context, transaction control, one statement, the implicit block of a batch,
  and the entry point.
\<close>

section \<open>Parse and classify\<close>

definition nul_error :: "bytes \<Rightarrow> error_info" where
  "nul_error prefix = generic_error prefix (lit ''query string contains a NUL byte'')"

definition slice_panic :: "('c, 's, 'a) prog" where
  "slice_panic = panic (Panic_Str (lit ''byte index out of range or not on a char boundary''))"

definition parse_in_scratch :: "(pg_call, 's) pg_env \<Rightarrow> bytes \<Rightarrow> (pg_call, 's, (int \<times> int \<times> stmt_meta) list) prog" where
  "parse_in_scratch pg query =
    bind_prog (call pg (Mem CurrentMemoryContext)) (\<lambda>saved.
      bind_prog (call pg (Mem (AllocSetContextCreate (as_handle saved) (lit ''pg_transport_raw_parse'')))) (\<lambda>scratch.
        then_prog (calls pg [Mem (MemoryContextSwitchTo (as_handle scratch))])
          (bind_prog (call pg (Fn (Raw_parser query))) (\<lambda>parsed.
            then_prog (calls pg [Mem (MemoryContextSwitchTo (as_handle saved)),
                                 Mem (MemoryContextDelete (as_handle scratch))])
              (ret (extract_statement_spans (as_stmts parsed) (length query)))))))"

definition parse_and_classify ::
  "(pg_call, 's) pg_env \<Rightarrow> libs \<Rightarrow> bytes \<Rightarrow> ('s, (bytes \<times> stmt_meta) list) pg_result" where
  "parse_and_classify pg lib query =
    (if 0 \<in> set query then ret (Inl (nul_error (lit ''pg_transport'')))
     else bind_prog (catch_unwind (parse_in_scratch pg query)) (\<lambda>outcome. case outcome of
       Inl caught \<Rightarrow> ret (Inl (caught_error_to_pgwire lib caught))
     | Inr spans \<Rightarrow> (case slice_all query spans of
         None \<Rightarrow> slice_panic
       | Some stmts \<Rightarrow> ret (Inr stmts))))"

section \<open>Transaction control\<close>

definition xact_tag :: "xact_cmd \<Rightarrow> bytes" where
  "xact_tag cmd = (case cmd of Xact_Begin \<Rightarrow> lit ''BEGIN'' | Xact_Commit \<Rightarrow> lit ''COMMIT'' | Xact_Rollback \<Rightarrow> lit ''ROLLBACK'')"

definition xact_block_call :: "xact_cmd \<Rightarrow> tx_call" where
  "xact_block_call cmd = (case cmd of Xact_Begin \<Rightarrow> BeginTransactionBlock
     | Xact_Commit \<Rightarrow> EndTransactionBlock False | Xact_Rollback \<Rightarrow> UserAbortTransactionBlock False)"

text \<open>\<open>BEGIN\<close> inside a block and the other two outside one only report their tag.\<close>

definition xact_is_noop :: "xact_cmd \<Rightarrow> bool \<Rightarrow> bool" where
  "xact_is_noop cmd in_block = (case cmd of Xact_Begin \<Rightarrow> in_block | _ \<Rightarrow> \<not> in_block)"

definition xact_control_body :: "(pg_call, 's) pg_env \<Rightarrow> xact_cmd \<Rightarrow> bool \<Rightarrow> (pg_call, 's, bytes) prog" where
  "xact_control_body pg cmd in_block =
    (if xact_is_noop cmd in_block then ret (xact_tag cmd)
     else then_prog (calls pg [Tx SetCurrentStatementStartTimestamp, Tx StartTransactionCommand,
                               Tx (xact_block_call cmd), Tx CommitTransactionCommand])
            (ret (xact_tag cmd)))"

definition handle_xact_control_one :: "(pg_call, 's) pg_env \<Rightarrow> xact_cmd \<Rightarrow> ('s, response) pg_result" where
  "handle_xact_control_one pg cmd =
    bind_prog (call pg (Tx IsTransactionBlock)) (\<lambda>in_block.
      bind_prog (catch_unwind (xact_control_body pg cmd (as_bool in_block))) (\<lambda>outcome. case outcome of
        Inr tag \<Rightarrow> ret (Inr (Execution tag None))
      | Inl payload \<Rightarrow> then_prog (calls pg [Tx AbortCurrentTransaction]) (ret (Inl (panic_to_pgwire payload)))))"

definition handle_xact_control :: "(pg_call, 's) pg_env \<Rightarrow> xact_cmd \<Rightarrow> ('s, response list) pg_result" where
  "handle_xact_control pg cmd = try_prog (handle_xact_control_one pg cmd) (\<lambda>r. ret (Inr [r]))"

section \<open>One statement\<close>

definition CURSOR_OPT_BINARY :: int where "CURSOR_OPT_BINARY = 1"

text \<open>The format of a cursor's rows; an unknown cursor is text and SPI reports it.\<close>

definition portal_format :: "(pg_call, 's) pg_env \<Rightarrow> bytes \<Rightarrow> (pg_call, 's, field_format) prog" where
  "portal_format pg name =
    bind_prog (call pg (Fn (GetPortalByName name))) (\<lambda>p. case as_ptr p of
      None \<Rightarrow> ret Fmt_Text
    | Some portal \<Rightarrow> bind_prog (call pg (Fn (Portal_cursorOptions portal))) (\<lambda>opts.
        ret (if and (as_int opts) CURSOR_OPT_BINARY \<noteq> 0 then Fmt_Binary else Fmt_Text)))"

definition fetch_format :: "(pg_call, 's) pg_env \<Rightarrow> bytes option \<Rightarrow> (pg_call, 's, field_format) prog" where
  "fetch_format pg name = (case name of None \<Rightarrow> ret Fmt_Text | Some n \<Rightarrow> portal_format pg n)"

text \<open>One row of the tuple table, and all of them.\<close>

fun spi_row :: "(pg_call, 's) pg_env \<Rightarrow> spi_tuples \<Rightarrow> nat \<Rightarrow> (nat \<times> column_encoder) list \<Rightarrow> bytes \<Rightarrow> (pg_call, 's, bytes) prog" where
  "spi_row pg t row [] buf = ret buf"
| "spi_row pg t row ((c, enc) # cs) buf =
    bind_prog (tuples_cell pg t row c) (\<lambda>cell. case cell of
      None \<Rightarrow> spi_row pg t row cs (buf @ encode_field None)
    | Some datum \<Rightarrow> bind_prog (encode_into pg enc datum buf) (spi_row pg t row cs))"

definition spi_rows ::
  "(pg_call, 's) pg_env \<Rightarrow> spi_tuples \<Rightarrow> column_encoder list \<Rightarrow> nat \<Rightarrow> (pg_call, 's, data_row list) prog" where
  "spi_rows pg t encoders ncols =
    collect (map (\<lambda>row. bind_prog (spi_row pg t row (enumerate 0 encoders) [])
      (\<lambda>buf. ret \<lparr>dr_data = buf, dr_field_count = of_nat ncols\<rparr>)) [0..<st_rows t])"

definition report_ids_reset :: "(pg_call, 's) pg_env \<Rightarrow> (pg_call, 's, unit) prog" where
  "report_ids_reset pg = calls pg [Fn (Pgstat_report_query_id 0 True), Fn (Pgstat_report_plan_id 0 True)]"

definition execution_ok :: "(pg_call, 's) pg_env \<Rightarrow> ('s, response list) pg_result" where
  "execution_ok pg = bind_prog (processed_rows_without_table pg) (\<lambda>n. ret (Inr [Execution (lit ''OK'') (Some n)]))"

text \<open>The result set of a statement: schema and encoders from the descriptor, then the rows.\<close>

definition spi_result_set ::
  "(pg_call, 's) pg_env \<Rightarrow> libs \<Rightarrow> field_format \<Rightarrow> spi_tuples \<Rightarrow> ('s, response list) pg_result" where
  "spi_result_set pg lib fmt t =
    bind_prog (tuples_ncols pg) (\<lambda>ncols.
      bind_prog (call pg (Spi Tuptable_tupdesc)) (\<lambda>d.
        bind_prog (schema_and_encoders_uniform pg lib (take ncols (case as_desc d of None \<Rightarrow> [] | Some attrs \<Rightarrow> attrs)) fmt)
          (\<lambda>(schema, encoders).
            bind_prog (spi_rows pg t encoders ncols) (\<lambda>rows. ret (Inr [Query schema rows None])))))"

definition run_via_spi ::
  "(pg_call, 's) pg_env \<Rightarrow> libs \<Rightarrow> bytes \<Rightarrow> bytes option \<Rightarrow> ('s, response list) pg_result" where
  "run_via_spi pg lib query fetch_portalname =
    (if 0 \<in> set query then ret (Inl (nul_error (lit ''simple-query'')))
     else bind_prog (fetch_format pg fetch_portalname) (\<lambda>result_format.
       then_prog (report_ids_reset pg)
         (bind_prog (call pg (Spi (SPI_execute query False 0))) (\<lambda>exec_rc.
           if as_int exec_rc < 0
           then bind_prog (rc_error pg (lit ''SPI_execute'') (as_int exec_rc)) (\<lambda>e. ret (Inl e))
           else bind_prog (spi_tuples_current pg) (\<lambda>tuples. case tuples of
             None \<Rightarrow> execution_ok pg
           | Some t \<Rightarrow> bind_prog (tuples_ncols pg) (\<lambda>ncols.
               if ncols > 0 then spi_result_set pg lib result_format t else execution_ok pg))))))"

definition run_spi_statement ::
  "(pg_call, 's) pg_env \<Rightarrow> libs \<Rightarrow> bytes \<Rightarrow> bytes option \<Rightarrow> ('s, response list) pg_result" where
  "run_spi_statement pg lib query fetch_portalname = with_spi pg (run_via_spi pg lib query fetch_portalname)"

definition execute_one_statement ::
  "(pg_call, 's) pg_env \<Rightarrow> libs \<Rightarrow> bytes \<Rightarrow> stmt_meta \<Rightarrow> ('s, response list) pg_result" where
  "execute_one_statement pg lib query meta =
    bind_prog (call pg (Tx IsAbortedTransactionBlockState)) (\<lambda>aborted.
      if as_bool aborted \<and> \<not> is_xact_exit_stmt meta then ret (Inl aborted_transaction_block_error)
      else case sm_xact meta of
        Some cmd \<Rightarrow> handle_xact_control pg cmd
      | None \<Rightarrow> run_spi_statement pg lib query (sm_fetch_portalname meta))"

section \<open>The implicit block of a batch\<close>

text \<open>One statement between its open and its close; a failed \<open>SPI_connect\<close> pops the snapshot.\<close>

definition implicit_statement ::
  "(pg_call, 's) pg_env \<Rightarrow> libs \<Rightarrow> bytes \<Rightarrow> bytes option \<Rightarrow> ('s, response list) pg_result" where
  "implicit_statement pg lib query fetch =
    bind_prog (call pg (Tx IsAbortedTransactionBlockState)) (\<lambda>aborted.
      if as_bool aborted then ret (Inl aborted_transaction_block_error)
      else then_prog (calls pg [Tx SetCurrentStatementStartTimestamp, Tx StartTransactionCommand,
                                Tx BeginImplicitTransactionBlock, Tx GetTransactionSnapshot, Tx PushActiveSnapshot])
        (bind_prog (call pg (Spi SPI_connect)) (\<lambda>connect_rc.
          if as_int connect_rc \<noteq> SPI_OK_CONNECT
          then then_prog (calls pg [Tx PopActiveSnapshot])
                 (bind_prog (rc_error pg (lit ''SPI_connect'') (as_int connect_rc)) (\<lambda>e. ret (Inl e)))
          else bind_prog (run_via_spi pg lib query fetch) (\<lambda>body_result.
            bind_prog (call pg (Spi SPI_finish)) (\<lambda>finish_rc.
              then_prog (calls pg [Tx PopActiveSnapshot])
                (case body_result of
                   Inl e \<Rightarrow> ret (Inl e)
                 | Inr resp \<Rightarrow>
                     if as_int finish_rc \<noteq> SPI_OK_FINISH
                     then bind_prog (rc_error pg (lit ''SPI_finish'') (as_int finish_rc)) (\<lambda>e. ret (Inl e))
                     else ret (Inr resp)))))))"

definition implicit_tail :: "(pg_call, 's) pg_env \<Rightarrow> bool \<Rightarrow> (pg_call, 's, unit) prog" where
  "implicit_tail pg is_last =
    (if is_last then calls pg [Tx EndImplicitTransactionBlock, Tx CommitTransactionCommand]
     else calls pg [Tx CommandCounterIncrement])"

fun implicit_loop ::
  "(pg_call, 's) pg_env \<Rightarrow> libs \<Rightarrow> (bytes \<times> bytes option) list \<Rightarrow> ('s, response list) pg_result" where
  "implicit_loop pg lib [] = ret (Inr [])"
| "implicit_loop pg lib ((query, fetch) # rest) =
    try_prog (implicit_statement pg lib query fetch) (\<lambda>resp.
      then_prog (implicit_tail pg (rest = []))
        (try_prog (implicit_loop pg lib rest) (\<lambda>resps. ret (Inr (resp @ resps)))))"

definition non_empty_statements :: "(bytes \<times> 'm) list \<Rightarrow> (bytes \<times> 'm) list" where
  "non_empty_statements = filter (\<lambda>(text, _). \<not> trims_to_empty text)"

definition execute_with_implicit_block_spi ::
  "(pg_call, 's) pg_env \<Rightarrow> libs \<Rightarrow> (bytes \<times> stmt_meta) list \<Rightarrow> ('s, response list) pg_result" where
  "execute_with_implicit_block_spi pg lib stmts =
    bind_prog (catch_unwind (implicit_loop pg lib
        (map (\<lambda>(text, meta). (text, sm_fetch_portalname meta)) (non_empty_statements stmts)))) (\<lambda>outcome.
      case outcome of
        Inr (Inr responses) \<Rightarrow> ret (Inr responses)
      | Inr (Inl err) \<Rightarrow> then_prog (calls pg [Tx AbortCurrentTransaction]) (ret (Inl err))
      | Inl payload \<Rightarrow> then_prog (calls pg [Tx AbortCurrentTransaction]) (ret (Inl (panic_to_pgwire payload))))"

section \<open>The entry point\<close>

definition dispatch_statements ::
  "(pg_call, 's) pg_env \<Rightarrow> libs \<Rightarrow> (bytes \<times> stmt_meta) list \<Rightarrow> ('s, response list) pg_result" where
  "dispatch_statements pg lib stmts =
    (if length (non_empty_statements stmts) > 1 \<and> \<not> list_ex (\<lambda>(_, meta). sm_xact meta \<noteq> None) stmts
     then execute_with_implicit_block_spi pg lib stmts
     else try_prog (for_each (\<lambda>(text, meta). execute_one_statement pg lib text meta) (non_empty_statements stmts))
            (\<lambda>rs. ret (Inr (concat rs))))"

definition execute_simple_query :: "(pg_call, 's) pg_env \<Rightarrow> libs \<Rightarrow> bytes \<Rightarrow> ('s, response list) pg_result" where
  "execute_simple_query pg lib query =
    (if 0 \<in> set query then ret (Inl (nul_error (lit ''pg_transport'')))
     else query_guards pg query (try_prog (parse_and_classify pg lib query) (dispatch_statements pg lib)))"

section \<open>Every path keeps the transaction protocol\<close>

lemma spi_row_worker [intro!, simp]: "within worker_call (spi_row pg t row cs buf)"
  by (induction cs arbitrary: buf) (auto intro!: within_intros split: option.split)

lemma spi_rows_worker [intro!, simp]: "within worker_call (spi_rows pg t encoders ncols)"
  unfolding spi_rows_def by (auto intro!: within_collect within_intros)

lemma fetch_format_plain [intro!]:
  assumes "\<And>c. plain_call c \<Longrightarrow> P c"
  shows "within P (portal_format pg name)" "within P (fetch_format pg fetch)"
  by (auto simp: portal_format_def fetch_format_def intro!: within_intros assms split: option.split)

lemma execution_ok_worker [intro!, simp]: "within worker_call (execution_ok pg)"
  by (auto simp: execution_ok_def intro!: within_intros)

lemma spi_result_set_worker [intro!, simp]: "within worker_call (spi_result_set pg lib fmt t)"
  by (auto simp: spi_result_set_def intro!: within_intros split: prod.split)

lemma run_via_spi_worker [intro!, simp]: "within worker_call (run_via_spi pg lib query fetch)"
  unfolding run_via_spi_def report_ids_reset_def
  by (auto intro!: within_intros split: option.split)

lemma run_spi_statement_safe: "tx_safe (run_spi_statement pg lib query fetch) (tx_idle True)"
  unfolding run_spi_statement_def
  by (rule spi_bracket.bracket_safe) (use worker_stable[of "run_via_spi pg lib query fetch" 0] in simp)

lemma xact_control_body_keeps:
  "keeps tx_step (xact_control_body pg cmd in_block) (tx_idle c)
     (\<lambda>r b. case r of Val _ \<Rightarrow> b = tx_idle c \<or> b = tx_idle False | Unwind _ \<Rightarrow> True)"
  unfolding xact_control_body_def
  by (auto intro!: keeps_ret tx_then_calls tx_calls keeps_calls_Nil simp: xact_block_call_def split: xact_cmd.split)

lemma abort_safe: "keeps tx_step (then_prog (calls pg [Tx AbortCurrentTransaction]) (ret x)) b at_rest"
  by (auto intro!: keeps_ret tx_then_calls tx_calls keeps_calls_Nil)

lemma handle_xact_control_one_safe: "tx_safe (handle_xact_control_one pg cmd) (tx_idle c)"
proof -
  have "keeps tx_step (bind_prog (catch_unwind (xact_control_body pg cmd in_block)) (\<lambda>outcome. case outcome of
        Inr tag \<Rightarrow> ret (Inr (Execution tag None))
      | Inl payload \<Rightarrow> then_prog (calls pg [Tx AbortCurrentTransaction]) (ret (Inl (panic_to_pgwire payload)))))
      (tx_idle c) at_rest" for in_block
    by (rule keeps_bind, rule keeps_catch, rule keeps_conseq[OF xact_control_body_keeps])
      (auto split: outcome.splits intro!: abort_safe keeps_ret)
  then show ?thesis
    unfolding tx_safe_def handle_xact_control_one_def by (intro tx_bind) auto
qed

lemma handle_xact_control_safe: "tx_safe (handle_xact_control pg cmd) (tx_idle c)"
  unfolding tx_safe_def handle_xact_control_def
  by (rule keeps_try, rule keeps_conseq[OF handle_xact_control_one_safe[unfolded tx_safe_def]])
    (auto split: outcome.splits sum.splits intro!: keeps_ret)

lemma execute_one_statement_safe: "tx_safe (execute_one_statement pg lib query meta) (tx_idle c)"
proof -
  have "keeps tx_step (if as_bool v \<and> \<not> is_xact_exit_stmt meta then ret (Inl aborted_transaction_block_error)
      else case sm_xact meta of
        Some cmd \<Rightarrow> handle_xact_control pg cmd
      | None \<Rightarrow> run_spi_statement pg lib query (sm_fetch_portalname meta)) (tx_idle (\<not> as_bool v)) at_rest" for v
    using handle_xact_control_safe run_spi_statement_safe
    by (auto simp: is_xact_exit_stmt_def tx_safe_def split: option.split intro!: keeps_ret)
  then show ?thesis
    unfolding tx_safe_def execute_one_statement_def by (rule tx_bind[rotated]) auto
qed

subsection \<open>The implicit block\<close>

text \<open>
  Between two statements of the block the command is open, before the first it may be
  closed; the first check of the aborted state comes before the first snapshot.
\<close>

definition between_statements :: "tx \<Rightarrow> bool" where
  "between_statements a \<longleftrightarrow> tx_snapshots a = 0 \<and> \<not> tx_spi a"

lemma tx_cmd_of: "tx_open a \<Longrightarrow> tx_checked a \<Longrightarrow> a = tx_cmd (tx_snapshots a) (tx_spi a)"
  by (cases a) (simp add: tx_cmd_def)

lemma open_checked:
  "tx_snapshots a = 0 \<Longrightarrow> \<not> tx_spi a \<Longrightarrow> a\<lparr>tx_checked := True, tx_open := True\<rparr> = tx_cmd 0 False"
  by (cases a) (simp add: tx_cmd_def)

definition statement_done :: "('e + 'a) outcome \<Rightarrow> tx \<Rightarrow> bool" where
  "statement_done r b = (case r of Val (Inr _) \<Rightarrow> b = tx_cmd 0 False | _ \<Rightarrow> True)"

lemma statement_done_simps [simp]:
  "statement_done (Val (Inl e)) b" "statement_done (Unwind p) b" "statement_done (Val (Inr x)) b \<longleftrightarrow> b = tx_cmd 0 False"
  by (simp_all add: statement_done_def)

lemma implicit_statement_keeps:
  assumes "between_statements a"
  shows "keeps tx_step (implicit_statement pg lib query fetch) a statement_done"
proof -
  let ?Q = "statement_done :: (error_info + response list) outcome \<Rightarrow> tx \<Rightarrow> bool"
  have rc: "keeps tx_step (bind_prog (rc_error pg api rc) (\<lambda>e. ret (Inl e))) b ?Q" for api rc b
    unfolding rc_error_def by (intro keeps_bind tx_bind) (auto intro!: keeps_ret)
  have pop: "keeps tx_step (then_prog (calls pg [Tx PopActiveSnapshot]) m) (tx_cmd (Suc 0) False) ?Q"
    if "keeps tx_step m (tx_cmd 0 False) ?Q" for m
    by (intro tx_then_calls tx_calls keeps_calls_Nil) (use that in auto)
  have worker: "tx_stable (run_via_spi pg lib query fetch) (tx_cmd (Suc 0) True)"
    by (rule worker_stable) simp
  have session: "keeps tx_step (bind_prog (call pg (Spi SPI_connect)) (\<lambda>connect_rc.
          if as_int connect_rc \<noteq> SPI_OK_CONNECT
          then then_prog (calls pg [Tx PopActiveSnapshot])
                 (bind_prog (rc_error pg (lit ''SPI_connect'') (as_int connect_rc)) (\<lambda>e. ret (Inl e)))
          else bind_prog (run_via_spi pg lib query fetch) (\<lambda>body_result.
            bind_prog (call pg (Spi SPI_finish)) (\<lambda>finish_rc.
              then_prog (calls pg [Tx PopActiveSnapshot])
                (case body_result of
                   Inl e \<Rightarrow> ret (Inl e)
                 | Inr resp \<Rightarrow>
                     if as_int finish_rc \<noteq> SPI_OK_FINISH
                     then bind_prog (rc_error pg (lit ''SPI_finish'') (as_int finish_rc)) (\<lambda>e. ret (Inl e))
                     else ret (Inr resp)))))) (tx_cmd (Suc 0) False) ?Q"
    by (rule tx_bind, simp)
      (auto intro!: pop rc tx_bind_stable[OF worker] tx_bind[where c = "Spi SPI_finish"] keeps_ret split: sum.split simp del: lit_simps)
  have opened: "keeps tx_step (calls pg [Tx SetCurrentStatementStartTimestamp, Tx StartTransactionCommand,
        Tx BeginImplicitTransactionBlock, Tx GetTransactionSnapshot, Tx PushActiveSnapshot]) (a\<lparr>tx_checked := True\<rparr>)
      (\<lambda>r b. case r of Val _ \<Rightarrow> b = tx_cmd (Suc 0) False | Unwind _ \<Rightarrow> True)"
    using assms
    by (intro tx_calls keeps_calls_Nil) (auto simp: between_statements_def open_checked)
  show ?thesis
    unfolding implicit_statement_def
    by (rule tx_bind, simp)
      (auto intro!: keeps_ret tx_then_calls keeps_conseq[OF opened] session split: outcome.splits simp del: lit_simps)
qed

lemma implicit_tail_keeps:
  "keeps tx_step (implicit_tail pg is_last) (tx_cmd 0 False)
    (\<lambda>r b. case r of Val _ \<Rightarrow> b = (if is_last then tx_idle False else tx_cmd 0 False) | Unwind _ \<Rightarrow> True)"
  by (auto simp: implicit_tail_def intro!: tx_calls keeps_calls_Nil)

text \<open>What the loop leaves when it returns its responses.\<close>

definition loop_done :: "('e + 'a) outcome \<Rightarrow> tx \<Rightarrow> bool" where
  "loop_done r b = (case r of Val (Inr _) \<Rightarrow> \<exists>c. b = tx_idle c | _ \<Rightarrow> True)"

lemma loop_done_simps [simp]:
  "loop_done (Val (Inl e)) b" "loop_done (Unwind p) b" "loop_done (Val (Inr x)) b \<longleftrightarrow> (\<exists>c. b = tx_idle c)"
  by (simp_all add: loop_done_def)

lemma implicit_loop_keeps:
  assumes "between_statements a" "xs = [] \<Longrightarrow> \<exists>c. a = tx_idle c"
  shows "keeps tx_step (implicit_loop pg lib xs) a loop_done"
  using assms
proof (induction xs arbitrary: a)
  case Nil
  then show ?case by (auto intro!: keeps_ret)
next
  case (Cons x xs)
  obtain query fetch where x: "x = (query, fetch)" by (cases x)
  let ?b = "if xs = [] then tx_idle False else tx_cmd 0 False"
  have "keeps tx_step (implicit_loop pg lib xs) ?b loop_done"
    by (rule Cons.IH) (auto simp: between_statements_def)
  then have rest: "keeps tx_step (try_prog (implicit_loop pg lib xs) (\<lambda>resps. ret (Inr (resp @ resps)))) ?b loop_done"
    for resp by (rule keeps_try_map) auto
  have tail: "keeps tx_step (then_prog (implicit_tail pg (xs = []))
      (try_prog (implicit_loop pg lib xs) (\<lambda>resps. ret (Inr (resp @ resps))))) (tx_cmd 0 False) loop_done" for resp
    by (rule keeps_then[OF keeps_conseq[OF implicit_tail_keeps]])
      (use rest in \<open>auto split: outcome.splits\<close>)
  show ?case
    unfolding x implicit_loop.simps
    by (rule keeps_try[OF keeps_conseq[OF implicit_statement_keeps[OF Cons.prems(1)]]])
      (use tail in \<open>auto split: outcome.splits sum.splits\<close>)
qed

lemma implicit_block_safe: "tx_safe (execute_with_implicit_block_spi pg lib stmts) (tx_idle c)"
  unfolding tx_safe_def execute_with_implicit_block_spi_def
  by (rule keeps_bind, rule keeps_catch, rule keeps_conseq[OF implicit_loop_keeps])
    (auto simp: between_statements_def split: outcome.splits sum.splits intro!: abort_safe keeps_ret)

subsection \<open>The whole simple query\<close>

lemma dispatch_statements_safe: "tx_safe (dispatch_statements pg lib stmts) (tx_idle c)"
proof -
  have "tx_safe (for_each (\<lambda>(text, meta). execute_one_statement pg lib text meta) xs) (tx_idle c)" for xs
    by (rule tx_safe_for_each) (auto intro: execute_one_statement_safe)
  then have "tx_safe (try_prog (for_each (\<lambda>(text, meta). execute_one_statement pg lib text meta) xs)
            (\<lambda>rs. ret (Inr (concat rs)))) (tx_idle c)" for xs
    unfolding tx_safe_def by (rule keeps_try_map) auto
  then show ?thesis by (simp add: dispatch_statements_def implicit_block_safe)
qed

lemma parse_and_classify_stable: "tx_stable (parse_and_classify pg lib query) (tx_idle c)"
proof -
  have "within (\<lambda>c. \<exists>d. c = Mem d \<or> c = Fn (Raw_parser query)) (parse_and_classify pg lib query)"
    unfolding parse_and_classify_def parse_in_scratch_def slice_panic_def
    by (auto intro!: within_intros split: sum.split option.split)
  then show ?thesis by (rule tx_stable_within) auto
qed

lemma execute_simple_query_safe: "tx_safe (execute_simple_query pg lib query) (tx_idle c)"
proof -
  have "keeps tx_step (try_prog (parse_and_classify pg lib query) (dispatch_statements pg lib)) (tx_idle c) at_rest"
    by (rule keeps_try[OF keeps_conseq[OF parse_and_classify_stable[unfolded tx_stable_def]]])
      (use dispatch_statements_safe in \<open>auto simp: tx_safe_def settles_def split: outcome.splits sum.splits\<close>)
  then show ?thesis
    unfolding tx_safe_def execute_simple_query_def by (auto intro: keeps_ret query_guards_tx)
qed

subsection \<open>The end of the implicit block\<close>

lemma run_via_spi_no_end [intro!]: "within (\<lambda>c. \<not> ends_batch c) (run_via_spi pg lib query fetch)"
  by (rule within_mono[OF run_via_spi_worker]) (rule worker_no_end)

lemma implicit_statement_no_end: "within (\<lambda>c. \<not> ends_batch c) (implicit_statement pg lib query fetch)"
  unfolding implicit_statement_def rc_error_def
  by (auto intro!: within_intros split: sum.split)

lemma end_block_batch:
  "keeps batch_step (call pg (Tx EndImplicitTransactionBlock)) Batch_Open (\<lambda>r b. b = Batch_Open)"
  by (rule batch_idle, rule within_call) (simp add: ends_batch_def)

lemma implicit_tail_batch:
  "keeps batch_step (implicit_tail pg is_last) Batch_Open
    (\<lambda>r b. b = (case r of Val _ \<Rightarrow> if is_last then Batch_Committed else Batch_Open | Unwind _ \<Rightarrow> Batch_Open))"
proof (cases is_last)
  case True
  have commit: "keeps batch_step (then_prog (call pg (Tx CommitTransactionCommand)) (ret ())) Batch_Open
      (\<lambda>r b. b = (case r of Val _ \<Rightarrow> Batch_Committed | Unwind _ \<Rightarrow> Batch_Open))"
    by (rule keeps_then, rule batch_commit) (auto intro!: keeps_ret)
  have "keeps batch_step (then_prog (call pg (Tx EndImplicitTransactionBlock))
      (then_prog (call pg (Tx CommitTransactionCommand)) (ret ()))) Batch_Open
      (\<lambda>r b. b = (case r of Val _ \<Rightarrow> Batch_Committed | Unwind _ \<Rightarrow> Batch_Open))"
    by (rule keeps_then[OF keeps_conseq[OF end_block_batch]]) (auto split: outcome.split intro: commit)
  then show ?thesis by (simp add: True implicit_tail_def calls.simps)
next
  case False
  have "keeps batch_step (implicit_tail pg is_last) Batch_Open (\<lambda>r b. b = Batch_Open)"
    by (rule batch_idle) (auto simp: False implicit_tail_def ends_batch_def intro!: within_intros)
  then show ?thesis by (rule keeps_conseq) (auto simp: False split: outcome.split)
qed

definition loop_batch :: "('e + 'a) outcome \<Rightarrow> batch \<Rightarrow> bool" where
  "loop_batch r b = (b = (case r of Val (Inr _) \<Rightarrow> Batch_Committed | _ \<Rightarrow> Batch_Open))"

lemma implicit_loop_batch:
  "xs \<noteq> [] \<Longrightarrow> keeps batch_step (implicit_loop pg lib xs) Batch_Open loop_batch"
proof (induction xs)
  case (Cons x xs)
  obtain query fetch where x: "x = (query, fetch)" by (cases x)
  let ?b = "if xs = [] then Batch_Committed else Batch_Open"
  have rest: "keeps batch_step (try_prog (implicit_loop pg lib xs) (\<lambda>resps. ret (Inr (resp @ resps)))) ?b loop_batch"
    for resp
  proof (cases "xs = []")
    case True
    then show ?thesis by (auto simp: loop_batch_def intro!: keeps_try keeps_ret)
  next
    case False
    with Cons.IH show ?thesis
      by (auto intro!: keeps_try[OF keeps_conseq] keeps_ret simp: loop_batch_def split: outcome.splits sum.splits)
  qed
  have tail: "keeps batch_step (then_prog (implicit_tail pg (xs = []))
      (try_prog (implicit_loop pg lib xs) (\<lambda>resps. ret (Inr (resp @ resps))))) Batch_Open loop_batch" for resp
    by (rule keeps_then[OF keeps_conseq[OF implicit_tail_batch]])
      (use rest in \<open>auto simp: loop_batch_def split: outcome.splits\<close>)
  show ?case
    unfolding x implicit_loop.simps
    by (rule keeps_try[OF keeps_conseq[OF batch_idle[OF implicit_statement_no_end]]])
      (use tail in \<open>auto simp: loop_batch_def split: outcome.splits sum.splits\<close>)
qed simp

lemma implicit_block_batch:
  assumes "non_empty_statements stmts \<noteq> []"
  shows "keeps batch_step (execute_with_implicit_block_spi pg lib stmts) Batch_Open batch_outcome"
  unfolding execute_with_implicit_block_spi_def
  by (rule keeps_bind, rule keeps_catch, rule keeps_conseq[OF implicit_loop_batch])
    (use assms in \<open>auto simp: loop_batch_def split: outcome.splits sum.splits intro!: batch_abort_ret keeps_ret\<close>,
     simp add: batch_outcome_def)

end
