(* ===== verification/Executor.thy ===== *)
theory Executor
  imports Spi_Bridge
begin

text \<open>
  \<open>backend/executor.rs\<close>: the transaction bracket without SPI, the owners of cached
  plans, parameter lists, portals and memory contexts, and the name of an anonymous
  portal.  Every owner is a guard: its release runs on every exit of its scope.
\<close>

section \<open>\<open>with_xact\<close>\<close>

text \<open>Pop (if pushed) and commit: the end of a body that returned.\<close>

definition xact_close :: "(pg_call, 's) pg_env \<Rightarrow> bool \<Rightarrow> (pg_call, 's, unit) prog" where
  "xact_close pg needs_snapshot =
    calls pg ((if needs_snapshot then [Tx PopActiveSnapshot] else []) @ [Tx CommitTransactionCommand])"

definition with_xact :: "(pg_call, 's) pg_env \<Rightarrow> bool \<Rightarrow> ('s, 'a) pg_result \<Rightarrow> ('s, 'a) pg_result" where
  "with_xact pg needs_snapshot body =
    then_prog (calls pg ([Tx SetCurrentStatementStartTimestamp, Tx StartTransactionCommand]
        @ (if needs_snapshot then [Tx GetTransactionSnapshot, Tx PushActiveSnapshot] else [])))
      (bind_prog (catch_unwind body) (\<lambda>outcome. case outcome of
          Inr (Inr value) \<Rightarrow> then_prog (xact_close pg needs_snapshot) (ret (Inr value))
        | Inr (Inl err) \<Rightarrow> then_prog (xact_close pg needs_snapshot) (ret (Inl err))
        | Inl payload \<Rightarrow> then_prog (calls pg [Tx AbortCurrentTransaction]) (ret (Inl (panic_to_pgwire payload)))))"

definition xact_phase :: "bool \<Rightarrow> bool \<Rightarrow> tx" where
  "xact_phase needs_snapshot checked =
    \<lparr>tx_open = True, tx_snapshots = (if needs_snapshot then 1 else 0), tx_spi = False, tx_checked = checked\<rparr>"

lemma xact_phase_simps [simp]:
  "tx_open (xact_phase n c)" "\<not> tx_spi (xact_phase n c)" "tx_snapshots (xact_phase n c) = (if n then 1 else 0)"
  "tx_checked (xact_phase n c) = c"
  by (simp_all add: xact_phase_def)

lemma with_xact_keeps:
  fixes body :: "('s, 'a) pg_result"
  assumes body: "tx_stable body (xact_phase needs c)" and "needs \<Longrightarrow> c"
  shows "tx_safe (with_xact pg needs body) (tx_idle c)"
proof -
  have close: "keeps tx_step (then_prog (xact_close pg needs) (ret x)) (xact_phase needs c) at_rest"
    for x :: "error_info + 'a"
    unfolding xact_close_def by (cases needs) (auto intro!: tx_then_calls tx_calls keeps_calls_Nil keeps_ret)
  have run: "keeps tx_step (catch_unwind body) (xact_phase needs c)
      (\<lambda>r b. case r of Val (Inr _) \<Rightarrow> b = xact_phase needs c | Val (Inl _) \<Rightarrow> True | Unwind _ \<Rightarrow> False)"
    by (rule keeps_catch, rule keeps_conseq[OF body[unfolded tx_stable_def]]) (auto simp: settles_def split: outcome.splits)
  have tail: "keeps tx_step (bind_prog (catch_unwind body) (\<lambda>outcome. case outcome of
          Inr (Inr value) \<Rightarrow> then_prog (xact_close pg needs) (ret (Inr value))
        | Inr (Inl err) \<Rightarrow> then_prog (xact_close pg needs) (ret (Inl err))
        | Inl payload \<Rightarrow> then_prog (calls pg [Tx AbortCurrentTransaction]) (ret (Inl (panic_to_pgwire payload)))))
      (xact_phase needs c) at_rest"
    by (rule keeps_bind, rule keeps_conseq[OF run])
      (auto split: outcome.splits sum.splits intro!: close abort_safe)
  have start: "(tx_idle c)\<lparr>tx_open := True, tx_snapshots := (if needs then 1 else 0)\<rparr> = xact_phase needs c"
    by (simp add: tx_idle_def xact_phase_def)
  have "keeps tx_step (calls pg ([Tx SetCurrentStatementStartTimestamp, Tx StartTransactionCommand]
        @ (if needs then [Tx GetTransactionSnapshot, Tx PushActiveSnapshot] else []))) (tx_idle c)
      (\<lambda>r b. case r of Val _ \<Rightarrow> b = xact_phase needs c | Unwind _ \<Rightarrow> True)"
    using assms(2) by (cases needs) (auto intro!: tx_calls keeps_calls_Nil simp: tx_idle_def xact_phase_def)
  from keeps_conseq[OF this] show ?thesis
    unfolding tx_safe_def with_xact_def by (intro tx_then_calls) (use tail in \<open>auto split: outcome.splits\<close>)
qed

interpretation direct_bracket: xact_bracket "with_xact pg True" "tx_cmd 1 False" for pg
proof unfold_locales
  fix body :: "('a, 'b) pg_result"
  assume "tx_stable body (tx_cmd 1 False)"
  moreover have "tx_cmd 1 False = xact_phase True True" by (simp add: tx_cmd_def xact_phase_def)
  ultimately have "tx_stable body (xact_phase True True)" by (simp only:)
  then show "tx_safe (with_xact pg True body) (tx_idle True)" by (rule with_xact_keeps) simp
qed

interpretation direct_bare_bracket: xact_bracket "with_xact pg False" "tx_cmd 0 False" for pg
proof unfold_locales
  fix body :: "('a, 'b) pg_result"
  assume "tx_stable body (tx_cmd 0 False)"
  moreover have "tx_cmd 0 False = xact_phase False True" by (simp add: tx_cmd_def xact_phase_def)
  ultimately have "tx_stable body (xact_phase False True)" by (simp only:)
  then show "tx_safe (with_xact pg False body) (tx_idle True)" by (rule with_xact_keeps) simp
qed

section \<open>Owners\<close>

text \<open>\<open>CachedPlanSource\<close>: a saved source outlives the call that made it.\<close>

definition cached_plan_source_create ::
  "(pg_call, 's) pg_env \<Rightarrow> raw_stmt \<Rightarrow> bytes \<Rightarrow> int \<Rightarrow> (pg_call, 's, nat) prog" where
  "cached_plan_source_create pg raw_stmt sql tag =
    bind_prog (call pg (Plan (CreateCachedPlan raw_stmt sql tag))) (\<lambda>v. ret (as_handle v))"

definition cached_plan_source_complete ::
  "(pg_call, 's) pg_env \<Rightarrow> nat \<Rightarrow> nat \<Rightarrow> nat \<Rightarrow> nat list \<Rightarrow> int \<Rightarrow> bool \<Rightarrow> (pg_call, 's, unit) prog" where
  "cached_plan_source_complete pg src querytrees query_ctx param_types cursor_options fixed_result =
    calls pg [Plan (CompleteCachedPlan src querytrees query_ctx param_types cursor_options fixed_result)]"

definition cached_plan_source_save :: "(pg_call, 's) pg_env \<Rightarrow> nat \<Rightarrow> (pg_call, 's, unit) prog" where
  "cached_plan_source_save pg src = calls pg [Plan (SaveCachedPlan src)]"

definition cached_plan_source_drop :: "(pg_call, 's) pg_env \<Rightarrow> nat \<Rightarrow> (pg_call, 's, unit) prog" where
  "cached_plan_source_drop pg src = calls pg [Plan (DropCachedPlan src)]"

definition cached_plan_source_result_desc ::
  "(pg_call, 's) pg_env \<Rightarrow> nat \<Rightarrow> (pg_call, 's, attribute list option) prog" where
  "cached_plan_source_result_desc pg src =
    bind_prog (call pg (Plan (CachedPlanSource_resultDesc src))) (\<lambda>d. ret (as_desc d))"

text \<open>\<open>get_plan\<close> and the \<open>CachedPlan\<close> it returns, which is released when its scope ends.\<close>

definition with_cached_plan ::
  "(pg_call, 's) pg_env \<Rightarrow> nat \<Rightarrow> nat option \<Rightarrow> (nat \<Rightarrow> (pg_call, 's, 'r) prog) \<Rightarrow> (pg_call, 's, 'r) prog" where
  "with_cached_plan pg src params body =
    bind_prog (call pg (Plan CurrentResourceOwner)) (\<lambda>owner.
      bind_prog (call pg (Plan (GetCachedPlan src params (as_handle owner)))) (\<lambda>plan.
        with_guard (calls pg [Plan (ReleaseCachedPlan (as_handle plan) (as_handle owner))])
          (body (as_handle plan))))"

definition index_panic :: "('c, 's, 'r) prog" where
  "index_panic = panic (Panic_Str (lit ''index out of bounds''))"

text \<open>\<open>ParamList::build\<close>: one entry per type; a missing value or flag panics.\<close>

fun param_entries ::
  "(pg_call, 's) pg_env \<Rightarrow> nat \<Rightarrow> nat \<Rightarrow> nat list \<Rightarrow> nat list \<Rightarrow> bool list \<Rightarrow> (pg_call, 's, unit) prog" where
  "param_entries pg raw i [] values nulls = ret ()"
| "param_entries pg raw i (oid # oids) (v # vs) (n # ns) =
    then_prog (calls pg [Plan (Set_param raw i v n oid)]) (param_entries pg raw (i + 1) oids vs ns)"
| "param_entries pg raw i (oid # oids) values nulls = index_panic"

definition param_list_build ::
  "(pg_call, 's) pg_env \<Rightarrow> nat list \<Rightarrow> nat list \<Rightarrow> bool list \<Rightarrow> (pg_call, 's, nat option) prog" where
  "param_list_build pg param_oids values is_null =
    bind_prog (call pg (Plan (MakeParamList (length param_oids)))) (\<lambda>raw. case as_ptr raw of
      None \<Rightarrow> ret None
    | Some p \<Rightarrow> then_prog (param_entries pg p 0 param_oids values is_null) (ret (Some p)))"

text \<open>\<open>ScopedMemoryContext\<close> and the guard of \<open>switch_to\<close>.\<close>

definition with_memory_context ::
  "(pg_call, 's) pg_env \<Rightarrow> nat \<Rightarrow> bytes \<Rightarrow> (nat \<Rightarrow> (pg_call, 's, 'r) prog) \<Rightarrow> (pg_call, 's, 'r) prog" where
  "with_memory_context pg parent name body =
    bind_prog (call pg (Mem (AllocSetContextCreate parent name))) (\<lambda>raw.
      with_guard (calls pg [Mem (MemoryContextDelete (as_handle raw))]) (body (as_handle raw)))"

definition switched_to :: "(pg_call, 's) pg_env \<Rightarrow> nat \<Rightarrow> (pg_call, 's, 'r) prog \<Rightarrow> (pg_call, 's, 'r) prog" where
  "switched_to pg ctx body =
    bind_prog (call pg (Mem (MemoryContextSwitchTo ctx))) (\<lambda>prev.
      with_guard (calls pg [Mem (MemoryContextSwitchTo (as_handle prev))]) body)"

section \<open>Tuple descriptors\<close>

text \<open>
  \<open>TupleDescRef\<close>, a borrowed descriptor: its columns by index.  The models of the paths take
  the list of attributes that \<open>iter\<close> yields.
\<close>

definition tuple_desc_from_raw :: "attribute list option \<Rightarrow> attribute list option" where
  "tuple_desc_from_raw raw = (case raw of None \<Rightarrow> None | Some d \<Rightarrow> Some d)"

definition tuple_desc_is_empty :: "attribute list \<Rightarrow> bool" where
  "tuple_desc_is_empty d \<longleftrightarrow> length d = 0"

definition tuple_desc_get :: "attribute list \<Rightarrow> nat \<Rightarrow> attribute option" where
  "tuple_desc_get d i = (if i \<ge> length d then None else Some (d ! i))"

definition tuple_desc_col_name :: "attribute list \<Rightarrow> nat \<Rightarrow> bytes option" where
  "tuple_desc_col_name d i = map_option fst (tuple_desc_get d i)"

definition tuple_desc_col_type_oid :: "attribute list \<Rightarrow> nat \<Rightarrow> nat option" where
  "tuple_desc_col_type_oid d i = map_option snd (tuple_desc_get d i)"

text \<open>\<open>None\<close> would be the panic of an \<open>unwrap\<close>.\<close>

definition tuple_desc_iter :: "attribute list \<Rightarrow> attribute list option" where
  "tuple_desc_iter d = those (map (tuple_desc_get d) [0..<length d])"

lemma those_Some: "those (map Some xs) = Some xs"
  by (induction xs) simp_all

lemma tuple_desc_iter_total: "tuple_desc_iter d = Some d"
proof -
  have "map (tuple_desc_get d) [0..<length d] = map Some (map ((!) d) [0..<length d])"
    by (simp add: tuple_desc_get_def)
  then show ?thesis unfolding tuple_desc_iter_def by (simp only: those_Some map_nth)
qed

text \<open>
  \<open>pg_ident_to_string\<close>, the name of a column as a string, without a check of its encoding; a
  debug build (\<open>debug\<close>) panics (\<open>None\<close>) when it is not ASCII.  The paths are modelled as the
  release build runs them, where the bytes become the string as they are.
\<close>

definition pg_ident_to_string :: "bool \<Rightarrow> bytes \<Rightarrow> bytes option" where
  "pg_ident_to_string debug name = (if debug \<and> \<not> is_ascii name then None else Some name)"

lemma ident_ascii: "is_ascii name \<Longrightarrow> pg_ident_to_string debug name = Some name \<and> valid_utf8 name"
  by (simp add: pg_ident_to_string_def ascii_valid)

text \<open>
  The server admits letters outside ASCII in a name: an e with acute accent panics a debug
  build when it is UTF-8, and a release build takes it for a string when it is Latin-1.
\<close>

lemma ident_accent:
  "valid_utf8 [0xC3, 0xA9]" "pg_ident_to_string True [0xC3, 0xA9] = None"
  "pg_ident_to_string False [0xE9] = Some [0xE9]" "\<not> valid_utf8 [0xE9]"
  by code_simp+

section \<open>Portal names\<close>

text \<open>
  The decimal digits, written from the end of a buffer of 20 bytes; \<open>None\<close> is an index
  out of range.  The name goes into 32 zero bytes, after the prefix.
\<close>

function digit_loop :: "nat \<Rightarrow> nat \<Rightarrow> bytes \<Rightarrow> (nat \<times> bytes) option" where
  "digit_loop n d digits =
    (if n = 0 then Some (d, digits)
     else if d = 0 \<or> length digits < d then None
     else digit_loop (n div 10) (d - 1) (digits[d - 1 := 0x30 + of_nat (n mod 10)]))"
  by auto
termination by (relation "measure (\<lambda>(n, d, digits). n)") auto

declare digit_loop.simps [simp del]

definition portal_digits :: "64 word \<Rightarrow> bytes option" where
  "portal_digits uid =
    (let digits = replicate 20 0
     in map_option (\<lambda>(d, ds). drop d ds)
       (if uid = 0 then Some (19, digits[19 := 0x30]) else digit_loop (unat uid) 20 digits))"

definition portal_name :: "64 word \<Rightarrow> bytes option" where
  "portal_name uid =
    (case portal_digits uid of
       None \<Rightarrow> None
     | Some ds \<Rightarrow>
        (if length ds + 8 \<le> 32 then Some (lit ''pgxport_'' @ ds @ replicate (24 - length ds) 0) else None))"

text \<open>\<open>create_anonymous\<close>, and the portal in scope: it is dropped when the scope ends.\<close>

definition with_anonymous_portal ::
  "(pg_call, 's) pg_env \<Rightarrow> (nat \<Rightarrow> (pg_call, 's, 'r) prog) \<Rightarrow> (pg_call, 's, 'r) prog" where
  "with_anonymous_portal pg body =
    bind_prog (call pg (Exec NEXT_ID_fetch_add)) (\<lambda>uid.
      case portal_name (of_int (as_int uid)) of
        None \<Rightarrow> index_panic
      | Some name \<Rightarrow>
          bind_prog (call pg (Exec (CreatePortal (takeWhile (\<lambda>b. b \<noteq> 0) name) False True))) (\<lambda>portal.
            with_guard (case as_ptr portal of None \<Rightarrow> ret () | Some p \<Rightarrow> calls pg [Exec (PortalDrop p False)])
              (body (as_handle portal))))"

text \<open>The digits are the decimal notation of the counter, so names of different counters differ.\<close>

lemma drop_update: "e < length xs \<Longrightarrow> drop e (xs[e := x]) = x # drop (Suc e) xs"
  by (subst Cons_nth_drop_Suc[symmetric]) simp_all

lemma digit_loop_spec:
  assumes "n < 10 ^ d" "d \<le> length digits" "0 < n"
  shows "\<exists>d' ds. digit_loop n d digits = Some (d', ds) \<and> d' \<le> d \<and> length ds = length digits \<and>
    drop d' ds = show_nat n @ drop d digits"
  using assms
proof (induction n d digits rule: digit_loop.induct)
  case (1 n d digits)
  then have d: "d \<noteq> 0" by (cases d) auto
  then obtain e where e: "d = Suc e" by (cases d) auto
  let ?digits = "digits[d - 1 := 0x30 + of_nat (n mod 10)]"
  have step: "digit_loop n d digits = digit_loop (n div 10) (d - 1) ?digits"
    using 1 d by (subst digit_loop.simps) simp
  have drop: "drop e ?digits = (0x30 + of_nat (n mod 10)) # drop d digits"
    using 1(3) e drop_update[of e digits] by simp
  show ?case
  proof (cases "n div 10 = 0")
    case True
    then have "digit_loop n d digits = Some (e, ?digits)" using step e by (subst (asm) (2) digit_loop.simps) simp
    moreover have "show_nat n = [0x30 + of_nat (n mod 10)]"
      using True by (subst show_nat.simps) (auto simp: digit_def)
    ultimately show ?thesis using drop e by auto
  next
    case False
    have "n div 10 < 10 ^ (d - 1)" using 1(2) e by (simp add: less_mult_imp_div_less mult.commute)
    then have "\<exists>d' ds. digit_loop (n div 10) (d - 1) ?digits = Some (d', ds) \<and> d' \<le> d - 1 \<and>
        length ds = length ?digits \<and> drop d' ds = show_nat (n div 10) @ drop (d - 1) ?digits"
      using 1(2-) d False by (intro 1(1)) simp_all
    moreover have "show_nat n = show_nat (n div 10) @ [0x30 + of_nat (n mod 10)]"
      using False by (subst show_nat.simps) (auto simp: digit_def)
    ultimately show ?thesis using step drop e by auto
  qed
qed

lemma portal_digits_show: "portal_digits uid = Some (show_nat (unat uid)) \<and> length (show_nat (unat uid)) \<le> 20"
proof (cases "uid = 0")
  case True
  have "show_nat 0 = [0x30]" by (subst show_nat.simps) (simp add: digit_def)
  moreover have "drop 19 ((replicate 20 0)[19 := 0x30]) = [0x30 :: 8 word]" by (subst drop_update) simp_all
  ultimately show ?thesis by (simp add: True portal_digits_def)
next
  case False
  have "unat uid < 2 ^ 64" using unsigned_less[of uid] by simp
  then have "unat uid < 10 ^ 20" by simp
  then obtain d' ds where "digit_loop (unat uid) 20 (replicate 20 0) = Some (d', ds)" "length ds = 20"
    "drop d' ds = show_nat (unat uid)"
    using digit_loop_spec[of "unat uid" 20 "replicate 20 0"] False by (auto simp: unat_gt_0)
  then show ?thesis using False by (auto simp: portal_digits_def) (metis diff_le_self length_drop)
qed

lemma portal_name_eq:
  "portal_name uid = Some (lit ''pgxport_'' @ show_nat (unat uid) @ replicate (24 - length (show_nat (unat uid))) 0)"
  using portal_digits_show[of uid] by (simp add: portal_name_def)

end
