(* ===== verification/Simple_Direct.thy ===== *)
theory Simple_Direct
  imports Executor
begin

text \<open>
  \<open>backend/simple_direct.rs\<close>: simple queries through the planner and the executor.
  The parse tree lives in a memory context of its own for the whole query.
\<close>

section \<open>Parsing\<close>

definition parse_in_context :: "(pg_call, 's) pg_env \<Rightarrow> bytes \<Rightarrow> nat \<Rightarrow> (pg_call, 's, (int \<times> int \<times> raw_stmt) list) prog" where
  "parse_in_context pg query ctx =
    switched_to pg ctx
      (bind_prog (call pg (Fn (Raw_parser query)))
        (\<lambda>parsed. ret (extract_raw_stmt_spans (as_stmts parsed) (length query))))"

text \<open>
  \<open>parse_and_keep\<close> and the life of the \<open>ParsedQuery\<close> it returns: the context is deleted
  when the continuation \<open>k\<close>, which is the rest of the caller, is done.
\<close>

definition parse_and_keep ::
  "(pg_call, 's) pg_env \<Rightarrow> libs \<Rightarrow> bytes \<Rightarrow> ((bytes \<times> raw_stmt) list \<Rightarrow> nat \<Rightarrow> ('s, 'a) pg_result) \<Rightarrow> ('s, 'a) pg_result" where
  "parse_and_keep pg lib query k =
    (if 0 \<in> set query then ret (Inl (nul_error (lit ''pg_transport'')))
     else bind_prog (call pg (Mem TopMemoryContext)) (\<lambda>top.
       with_memory_context pg (as_handle top) (lit ''pg_transport_parse_ctx'') (\<lambda>ctx.
         bind_prog (catch_unwind (parse_in_context pg query ctx)) (\<lambda>outcome. case outcome of
           Inl caught \<Rightarrow> ret (Inl (caught_error_to_pgwire lib caught))
         | Inr spans \<Rightarrow> (case slice_all query spans of
             None \<Rightarrow> slice_panic
           | Some stmts \<Rightarrow> k stmts ctx)))))"

section \<open>Classification\<close>

definition is_transaction_stmt :: "raw_stmt \<Rightarrow> bool" where
  "is_transaction_stmt rs = (case rs_node rs of N_Transaction kind \<Rightarrow> True | _ \<Rightarrow> False)"

definition is_transaction_exit_stmt :: "raw_stmt \<Rightarrow> bool" where
  "is_transaction_exit_stmt rs =
    (case rs_node rs of
       N_Transaction kind \<Rightarrow>
         kind = TRANS_STMT_COMMIT \<or> kind = TRANS_STMT_ROLLBACK \<or> kind = TRANS_STMT_PREPARE \<or> kind = TRANS_STMT_ROLLBACK_TO
     | _ \<Rightarrow> False)"

definition fetch_result_format :: "(pg_call, 's) pg_env \<Rightarrow> raw_stmt \<Rightarrow> (pg_call, 's, field_format) prog" where
  "fetch_result_format pg rs =
    (case rs_node rs of
       N_Fetch move name \<Rightarrow>
         (if move then ret Fmt_Text
          else case name of None \<Rightarrow> ret Fmt_Text | Some n \<Rightarrow> portal_format pg n)
     | _ \<Rightarrow> ret Fmt_Text)"

section \<open>One statement\<close>

definition i64_MAX :: int where "i64_MAX = 0x7FFFFFFFFFFFFFFF"

text \<open>
  The life of the portal: plan in the parse context, start, encoders, run.  The result
  is the schema, the rows and the completion (tag and row count).
\<close>

definition direct_portal_run ::
  "(pg_call, 's) pg_env \<Rightarrow> libs \<Rightarrow> raw_stmt \<Rightarrow> nat \<Rightarrow>
    (pg_call, 's, field_info list \<times> data_row list \<times> int \<times> nat) prog" where
  "direct_portal_run pg lib rs portal =
    then_prog (calls pg [Exec (PortalStart portal None 0 None)])
      (bind_prog (fetch_result_format pg rs) (\<lambda>result_format.
        bind_prog (call pg (Exec (Portal_tupDesc portal))) (\<lambda>tupdesc.
          bind_prog (case as_desc tupdesc of
              Some td \<Rightarrow> schema_and_encoders_uniform pg lib td result_format
            | None \<Rightarrow> ret ([], [])) (\<lambda>(schema, encoders).
            then_prog (calls pg [Exec InitializeQueryCompletion])
              (bind_prog (call pg (Exec (PortalRun portal i64_MAX True))) (\<lambda>slots.
                bind_prog (receive_rows pg encoders (length schema) (as_rows slots) []) (\<lambda>data_rows.
                  bind_prog (call pg (Exec Qc_commandTag)) (\<lambda>tag.
                    bind_prog (call pg (Exec Qc_nprocessed)) (\<lambda>n.
                      ret (schema, data_rows, as_int tag, nat (as_int n)))))))))))"

definition direct_response ::
  "(pg_call, 's) pg_env \<Rightarrow> field_info list \<times> data_row list \<times> int \<times> nat \<Rightarrow> ('s, response) pg_result" where
  "direct_response pg = (\<lambda>(schema, data_rows, tag, nprocessed).
    bind_prog (command_tag_name pg tag) (\<lambda>tag_name.
      if schema = []
      then bind_prog (call pg (Exec (Command_tag_display_rowcount tag))) (\<lambda>display.
             ret (Inr (Execution tag_name (if as_bool display then Some nprocessed else None))))
      else ret (Inr (Query schema data_rows (Some tag_name)))))"

definition run_one_direct ::
  "(pg_call, 's) pg_env \<Rightarrow> libs \<Rightarrow> raw_stmt \<Rightarrow> bytes \<Rightarrow> nat \<Rightarrow> ('s, response) pg_result" where
  "run_one_direct pg lib rs sql parse_ctx =
    then_prog (report_ids_reset pg)
      (bind_prog (call pg (Exec (CreateCommandTag (rs_node rs)))) (\<lambda>command_tag.
        bind_prog (call pg (Mem (MemoryContextSwitchTo parse_ctx))) (\<lambda>prev_ctx.
          bind_prog (call pg (Exec (Analyze_fixedparams rs sql []))) (\<lambda>query_list.
            bind_prog (call pg (Exec (Plan_queries (as_ptr query_list) sql))) (\<lambda>plan_list.
              bind_prog
                (with_anonymous_portal pg (\<lambda>portal.
                  then_prog (calls pg [Exec (PortalDefineQuery portal sql (as_int command_tag) (as_ptr plan_list) None),
                                       Mem (MemoryContextSwitchTo (as_handle prev_ctx))])
                    (direct_portal_run pg lib rs portal)))
                (direct_response pg))))))"

section \<open>Batches\<close>

text \<open>A single statement: the aborted-state check, the snapshot gate, the bracket.\<close>

definition execute_single_direct ::
  "(pg_call, 's) pg_env \<Rightarrow> libs \<Rightarrow> bytes \<Rightarrow> nat \<Rightarrow> raw_stmt \<Rightarrow> ('s, response) pg_result" where
  "execute_single_direct pg lib sql parse_ctx rs =
    bind_prog (call pg (Tx IsAbortedTransactionBlockState)) (\<lambda>aborted.
      if as_bool aborted \<and> \<not> is_transaction_exit_stmt rs then ret (Inl aborted_transaction_block_error)
      else bind_prog (call pg (Fn (Analyze_requires_snapshot rs))) (\<lambda>needs_snapshot.
        with_xact pg (as_bool needs_snapshot) (run_one_direct pg lib rs sql parse_ctx)))"

text \<open>What opens and closes a statement of the implicit block; the snapshot only when it is needed.\<close>

definition implicit_open :: "(pg_call, 's) pg_env \<Rightarrow> bool \<Rightarrow> (pg_call, 's, unit) prog" where
  "implicit_open pg needs =
    calls pg ([Tx SetCurrentStatementStartTimestamp, Tx StartTransactionCommand, Tx BeginImplicitTransactionBlock]
      @ (if needs then [Tx GetTransactionSnapshot, Tx PushActiveSnapshot] else []))"

definition implicit_close :: "(pg_call, 's) pg_env \<Rightarrow> bool \<Rightarrow> (pg_call, 's, unit) prog" where
  "implicit_close pg needs = calls pg (if needs then [Tx PopActiveSnapshot] else [])"

definition implicit_direct_statement ::
  "(pg_call, 's) pg_env \<Rightarrow> libs \<Rightarrow> bytes \<Rightarrow> nat \<Rightarrow> raw_stmt \<Rightarrow> ('s, response) pg_result" where
  "implicit_direct_statement pg lib sql parse_ctx rs =
    bind_prog (call pg (Tx IsAbortedTransactionBlockState)) (\<lambda>aborted.
      if as_bool aborted \<and> \<not> is_transaction_exit_stmt rs then ret (Inl aborted_transaction_block_error)
      else bind_prog (call pg (Fn (Analyze_requires_snapshot rs))) (\<lambda>needs.
        then_prog (implicit_open pg (as_bool needs))
          (bind_prog (run_one_direct pg lib rs sql parse_ctx) (\<lambda>resp.
            then_prog (implicit_close pg (as_bool needs)) (ret resp)))))"

definition direct_tail :: "(pg_call, 's) pg_env \<Rightarrow> bool \<Rightarrow> raw_stmt \<Rightarrow> (pg_call, 's, unit) prog" where
  "direct_tail pg is_last rs =
    (if is_last then calls pg [Tx EndImplicitTransactionBlock, Tx CommitTransactionCommand]
     else if is_transaction_stmt rs then calls pg [Tx CommitTransactionCommand]
     else calls pg [Tx CommandCounterIncrement])"

fun direct_loop ::
  "(pg_call, 's) pg_env \<Rightarrow> libs \<Rightarrow> bytes \<Rightarrow> nat \<Rightarrow> raw_stmt list \<Rightarrow> ('s, response list) pg_result" where
  "direct_loop pg lib sql parse_ctx [] = ret (Inr [])"
| "direct_loop pg lib sql parse_ctx (rs # rest) =
    try_prog (implicit_direct_statement pg lib sql parse_ctx rs) (\<lambda>resp.
      then_prog (direct_tail pg (rest = []) rs)
        (try_prog (direct_loop pg lib sql parse_ctx rest) (\<lambda>resps. ret (Inr (resp # resps)))))"

definition execute_with_implicit_block ::
  "(pg_call, 's) pg_env \<Rightarrow> libs \<Rightarrow> bytes \<Rightarrow> nat \<Rightarrow> (bytes \<times> raw_stmt) list \<Rightarrow> ('s, response list) pg_result" where
  "execute_with_implicit_block pg lib sql parse_ctx stmts =
    bind_prog (catch_unwind (direct_loop pg lib sql parse_ctx (map snd (non_empty_statements stmts)))) (\<lambda>outcome.
      case outcome of
        Inr (Inr responses) \<Rightarrow> ret (Inr responses)
      | Inr (Inl err) \<Rightarrow> then_prog (calls pg [Tx AbortCurrentTransaction]) (ret (Inl err))
      | Inl payload \<Rightarrow> then_prog (calls pg [Tx AbortCurrentTransaction]) (ret (Inl (panic_to_pgwire payload))))"

definition dispatch_direct ::
  "(pg_call, 's) pg_env \<Rightarrow> libs \<Rightarrow> bytes \<Rightarrow> (bytes \<times> raw_stmt) list \<Rightarrow> nat \<Rightarrow> ('s, response list) pg_result" where
  "dispatch_direct pg lib sql stmts parse_ctx =
    (if length (non_empty_statements stmts) > 1
     then execute_with_implicit_block pg lib sql parse_ctx stmts
     else for_each (\<lambda>(text, rs). execute_single_direct pg lib sql parse_ctx rs) (non_empty_statements stmts))"

definition execute_simple_query_direct :: "(pg_call, 's) pg_env \<Rightarrow> libs \<Rightarrow> bytes \<Rightarrow> ('s, response list) pg_result" where
  "execute_simple_query_direct pg lib query =
    parse_and_keep pg lib query (\<lambda>stmts parse_ctx. query_guards pg query (dispatch_direct pg lib query stmts parse_ctx))"

section \<open>The path keeps the transaction protocol\<close>

text \<open>
  What the server documents of \<open>analyze_requires_snapshot\<close>: a transaction statement needs
  none.  Only these statements are run in an aborted block.
\<close>

definition txn_needs_no_snapshot :: "(pg_call, 's) pg_env \<Rightarrow> bool" where
  "txn_needs_no_snapshot pg \<longleftrightarrow>
    (\<forall>rs s v. is_transaction_stmt rs \<longrightarrow> fst (pg (Fn (Analyze_requires_snapshot rs)) s) = Val v \<longrightarrow> \<not> as_bool v)"

lemma exit_is_transaction: "is_transaction_exit_stmt rs \<Longrightarrow> is_transaction_stmt rs"
  by (auto simp: is_transaction_exit_stmt_def is_transaction_stmt_def split: raw_node.splits)

lemma run_one_direct_within [intro!]:
  assumes "\<And>c. plain_call c \<Longrightarrow> P c"
  shows "within P (run_one_direct pg lib rs sql ctx)"
  unfolding run_one_direct_def report_ids_reset_def with_anonymous_portal_def direct_portal_run_def direct_response_def
    fetch_result_format_def index_panic_def
  by (auto intro!: within_intros assms split: option.split prod.split raw_node.split)

lemma run_one_direct_stable: "tx_open a \<Longrightarrow> tx_stable (run_one_direct pg lib rs sql ctx) a"
  by (rule direct_stable_open) auto

text \<open>After the check and the snapshot question, a snapshot is wanted only when the block is not aborted.\<close>

lemma snapshot_gate:
  assumes "txn_needs_no_snapshot pg" "tx_checked a \<or> is_transaction_exit_stmt rs"
    and "\<And>v. (as_bool v \<Longrightarrow> tx_checked a) \<Longrightarrow> keeps tx_step (k v) a Q" "\<And>p. Q (Unwind p) a"
  shows "keeps tx_step (bind_prog (call pg (Fn (Analyze_requires_snapshot rs))) k) a Q"
proof (rule keeps_bind, rule keeps_call_env)
  fix s
  let ?r = "fst (pg (Fn (Analyze_requires_snapshot rs)) s)"
  show "\<exists>b. tx_step a (Fn (Analyze_requires_snapshot rs), ?r) = Some b \<and>
      (case ?r of Val v \<Rightarrow> keeps tx_step (k v) b Q | Unwind p \<Rightarrow> Q (Unwind p) b)"
  proof (cases ?r)
    case (Val v)
    have "as_bool v \<Longrightarrow> tx_checked a"
      using assms(1,2) Val exit_is_transaction unfolding txn_needs_no_snapshot_def by blast
    then show ?thesis using Val assms(3) by simp
  qed (simp add: assms(4))
qed

lemma execute_single_direct_safe:
  assumes "txn_needs_no_snapshot pg"
  shows "tx_safe (execute_single_direct pg lib sql ctx rs) (tx_idle c)"
proof -
  have bracket: "keeps tx_step (with_xact pg needs (run_one_direct pg lib rs sql ctx)) (tx_idle c) at_rest"
    if "needs \<Longrightarrow> c" for needs c
    using with_xact_keeps[OF run_one_direct_stable that] by (simp add: tx_safe_def)
  have "keeps tx_step (if as_bool v \<and> \<not> is_transaction_exit_stmt rs then ret (Inl aborted_transaction_block_error)
      else bind_prog (call pg (Fn (Analyze_requires_snapshot rs))) (\<lambda>needs_snapshot.
        with_xact pg (as_bool needs_snapshot) (run_one_direct pg lib rs sql ctx))) (tx_idle (\<not> as_bool v)) at_rest" for v
    by (auto intro!: keeps_ret snapshot_gate[OF assms] bracket)
  then show ?thesis
    unfolding tx_safe_def execute_single_direct_def by (rule tx_bind[rotated]) auto
qed

subsection \<open>The implicit block\<close>

definition direct_done :: "('e + 'a) outcome \<Rightarrow> tx \<Rightarrow> bool" where
  "direct_done r b = (case r of Val (Inr _) \<Rightarrow> tx_open b \<and> between_statements b | _ \<Rightarrow> True)"

lemma direct_done_simps [simp]:
  "direct_done (Val (Inl e)) b" "direct_done (Unwind p) b"
  "direct_done (Val (Inr x)) b \<longleftrightarrow> tx_open b \<and> between_statements b"
  by (simp_all add: direct_done_def)

lemma implicit_direct_open:
  assumes "between_statements a" "needs \<Longrightarrow> tx_checked a"
  shows "keeps tx_step (implicit_open pg needs) a
    (\<lambda>r b. case r of Val _ \<Rightarrow> tx_open b \<and> \<not> tx_spi b \<and> tx_snapshots b = (if needs then 1 else 0) | Unwind _ \<Rightarrow> True)"
  using assms unfolding implicit_open_def
  by (cases needs) (auto intro!: tx_calls keeps_calls_Nil simp: between_statements_def)

lemma implicit_direct_close:
  assumes "tx_open b" "\<not> tx_spi b" "tx_snapshots b = (if needs then 1 else 0)"
  shows "keeps tx_step (then_prog (implicit_close pg needs) (ret resp)) b direct_done"
proof -
  have Q: "direct_done (Val resp) b'" if "tx_open b'" "\<not> tx_spi b'" "tx_snapshots b' = 0" for b'
    using that by (cases resp) (auto simp: between_statements_def)
  have "keeps tx_step (implicit_close pg needs) b
      (\<lambda>r b. case r of Val _ \<Rightarrow> tx_open b \<and> \<not> tx_spi b \<and> tx_snapshots b = 0 | Unwind _ \<Rightarrow> True)"
    using assms unfolding implicit_close_def by (cases needs) (auto intro!: tx_calls keeps_calls_Nil)
  then show ?thesis
    by (intro keeps_then keeps_conseq[OF \<open>keeps tx_step _ b _\<close>]) (auto split: outcome.splits intro!: keeps_ret Q)
qed

lemma implicit_direct_statement_keeps:
  assumes "txn_needs_no_snapshot pg" "between_statements a"
  shows "keeps tx_step (implicit_direct_statement pg lib sql ctx rs) a direct_done"
proof -
  have body: "keeps tx_step (bind_prog (run_one_direct pg lib rs sql ctx) (\<lambda>resp.
            then_prog (implicit_close pg needs) (ret resp))) b direct_done"
    if "tx_open b" "\<not> tx_spi b" "tx_snapshots b = (if needs then 1 else 0)" for needs b
    by (rule tx_bind_stable[OF run_one_direct_stable[OF that(1)]], rule implicit_direct_close[OF that]) simp
  have opened: "keeps tx_step (then_prog (implicit_open pg needs)
          (bind_prog (run_one_direct pg lib rs sql ctx) (\<lambda>resp.
            then_prog (implicit_close pg needs) (ret resp)))) a' direct_done"
    if "between_statements a'" "needs \<Longrightarrow> tx_checked a'" for needs a'
    by (rule keeps_then, rule keeps_conseq[OF implicit_direct_open[OF that]])
      (auto split: outcome.splits intro!: body)
  have chk: "between_statements (a\<lparr>tx_checked := c\<rparr>)" for c using assms(2) by (simp add: between_statements_def)
  have "keeps tx_step (if as_bool v \<and> \<not> is_transaction_exit_stmt rs then ret (Inl aborted_transaction_block_error)
      else bind_prog (call pg (Fn (Analyze_requires_snapshot rs))) (\<lambda>needs.
        then_prog (implicit_open pg (as_bool needs))
          (bind_prog (run_one_direct pg lib rs sql ctx) (\<lambda>resp.
            then_prog (implicit_close pg (as_bool needs)) (ret resp)))))
      (a\<lparr>tx_checked := \<not> as_bool v\<rparr>) direct_done" for v
    by (auto intro!: keeps_ret snapshot_gate[OF assms(1)] opened chk)
  then show ?thesis
    unfolding implicit_direct_statement_def by (rule tx_bind[rotated]) auto
qed

lemma direct_tail_keeps:
  assumes "tx_open a" "between_statements a"
  shows "keeps tx_step (direct_tail pg is_last rs) a
    (\<lambda>r b. case r of Val _ \<Rightarrow> between_statements b \<and> (is_last \<longrightarrow> b = tx_idle False) | Unwind _ \<Rightarrow> True)"
  using assms by (auto simp: direct_tail_def between_statements_def intro!: tx_calls keeps_calls_Nil)

lemma direct_loop_keeps:
  assumes "txn_needs_no_snapshot pg" "between_statements a" "rss = [] \<Longrightarrow> \<exists>c. a = tx_idle c"
  shows "keeps tx_step (direct_loop pg lib sql ctx rss) a loop_done"
  using assms(2-)
proof (induction rss arbitrary: a)
  case Nil
  then show ?case by (auto intro!: keeps_ret)
next
  case (Cons rs rss)
  have rest: "keeps tx_step (try_prog (direct_loop pg lib sql ctx rss) (\<lambda>resps. ret (Inr (resp # resps)))) b loop_done"
    if "between_statements b" "rss = [] \<Longrightarrow> b = tx_idle False" for resp b
    by (rule keeps_try_map[OF Cons.IH]) (use that in auto)
  have tail: "keeps tx_step (then_prog (direct_tail pg (rss = []) rs)
      (try_prog (direct_loop pg lib sql ctx rss) (\<lambda>resps. ret (Inr (resp # resps))))) b loop_done"
    if "tx_open b" "between_statements b" for resp b
    by (rule keeps_then[OF keeps_conseq[OF direct_tail_keeps[OF that]]])
      (auto split: outcome.splits intro: rest)
  show ?case
    unfolding direct_loop.simps
    by (rule keeps_try[OF keeps_conseq[OF implicit_direct_statement_keeps[OF assms(1) Cons.prems(1)]]])
      (use tail in \<open>auto split: outcome.splits sum.splits\<close>)
qed

lemma execute_with_implicit_block_safe:
  assumes "txn_needs_no_snapshot pg"
  shows "tx_safe (execute_with_implicit_block pg lib sql ctx stmts) (tx_idle c)"
  unfolding tx_safe_def execute_with_implicit_block_def
  by (rule keeps_bind, rule keeps_catch, rule keeps_conseq[OF direct_loop_keeps[OF assms]])
    (auto simp: between_statements_def split: outcome.splits sum.splits intro!: abort_safe keeps_ret)

lemma dispatch_direct_safe:
  assumes "txn_needs_no_snapshot pg"
  shows "tx_safe (dispatch_direct pg lib sql stmts ctx) (tx_idle c)"
proof -
  have "tx_safe (for_each (\<lambda>(text, rs). execute_single_direct pg lib sql ctx rs) xs) (tx_idle c)" for xs :: "(bytes \<times> raw_stmt) list"
    by (rule tx_safe_for_each) (auto intro: execute_single_direct_safe[OF assms])
  then show ?thesis by (simp add: dispatch_direct_def execute_with_implicit_block_safe[OF assms])
qed

text \<open>Memory calls around a piece do not touch the transaction protocol.\<close>

lemma guard_at_rest:
  fixes m :: "(pg_call, 's, 'r) prog"
  assumes "keeps tx_step m a at_rest" "\<And>b. tx_stable d b"
  shows "keeps tx_step (with_guard d m) a at_rest"
proof (rule keeps_guard, rule keeps_conseq[OF assms(1)])
  fix r :: "'r outcome" and b assume "at_rest r b"
  then show "keeps tx_step d b (\<lambda>r' c. at_rest (case r' of Val _ \<Rightarrow> r | Unwind p \<Rightarrow> Unwind p) c)"
    by (intro keeps_conseq[OF assms(2)[of b, unfolded tx_stable_def]])
      (auto simp: at_rest_def settles_def split: outcome.splits)
qed

lemma parse_and_keep_safe:
  assumes "\<And>stmts ctx. tx_safe (k stmts ctx) (tx_idle c)"
  shows "tx_safe (parse_and_keep pg lib query k) (tx_idle c)"
proof -
  have parse: "tx_stable (catch_unwind (parse_in_context pg query ctx)) (tx_idle c)" for ctx
    unfolding parse_in_context_def switched_to_def
    by (rule tx_stable_within[where P = "\<lambda>c. \<exists>d. c = Mem d \<or> c = Fn (Raw_parser query)"])
      (auto intro!: within_intros)
  have "keeps tx_step (bind_prog (catch_unwind (parse_in_context pg query ctx)) (\<lambda>outcome. case outcome of
           Inl caught \<Rightarrow> ret (Inl (caught_error_to_pgwire lib caught))
         | Inr spans \<Rightarrow> (case slice_all query spans of None \<Rightarrow> slice_panic | Some stmts \<Rightarrow> k stmts ctx)))
         (tx_idle c) at_rest" for ctx
    by (rule tx_bind_stable[OF parse])
      (use assms in \<open>auto simp: tx_safe_def slice_panic_def split: sum.split option.split intro!: keeps_ret keeps_panic\<close>)
  then show ?thesis
    unfolding tx_safe_def parse_and_keep_def with_memory_context_def
    by (auto intro!: keeps_ret tx_bind[where c = "Mem d" for d] guard_at_rest tx_stable_calls)
qed

lemma execute_simple_query_direct_safe:
  assumes "txn_needs_no_snapshot pg"
  shows "tx_safe (execute_simple_query_direct pg lib query) (tx_idle c)"
  unfolding execute_simple_query_direct_def
proof (rule parse_and_keep_safe)
  fix stmts ctx
  show "tx_safe (query_guards pg query (dispatch_direct pg lib query stmts ctx)) (tx_idle c)"
    unfolding tx_safe_def by (rule query_guards_tx) (rule dispatch_direct_safe[OF assms, unfolded tx_safe_def])
qed

end
