(* ===== verification/Spi_Props.thy ===== *)
theory Spi_Props
  imports Spi_Bridge
begin

text \<open>The properties of the simple-query SPI path, for every behaviour of the server.\<close>

text \<open>C17. Whatever the server answers or raises, a simple query keeps the transaction
  protocol: snapshots are taken only in an open command whose block was seen not to be
  aborted, SPI calls happen only inside an SPI session, pushes and pops match, a
  command is committed only with the snapshot stack and the SPI session closed, and
  when the query returns (with responses or an error) no command is open.
\<close>

theorem simple_query_keeps_protocol:
  "case execute_simple_query pg lib query s of (r, t, s') \<Rightarrow>
     \<exists>b. run_events tx_step (tx_idle False) t = Some b \<and> at_rest r b"
  by (rule keeps_run) (rule execute_simple_query_safe[unfolded tx_safe_def])

text \<open>C23. A multi-statement batch without transaction control is all or nothing: it makes
  no call after its end, and its end is one commit, after the last statement, when it
  returns the responses of all statements, and one abort with no commit before it when
  it returns an error (even if the abort itself raises).
\<close>

theorem implicit_block_all_or_nothing:
  assumes "non_empty_statements stmts \<noteq> []"
  shows "case execute_with_implicit_block_spi pg lib stmts s of (r, t, s') \<Rightarrow>
     \<exists>b. run_events batch_step Batch_Open t = Some b \<and> batch_outcome r b"
  by (rule keeps_run) (rule implicit_block_batch[OF assms])

text \<open>C24. On every exit (result, error, unwind) of a simple query, \<open>debug_query_string\<close> is
  what it was before, the backend is reported idle, and the statement timer is armed
  exactly when it was armed before, unless one of those server calls itself failed.
\<close>

theorem simple_query_restores_globals:
  "case execute_simple_query pg lib query s of (r, t, s') \<Rightarrow>
     run_events obs_step (Obs_At prev False timer) t \<in> {Some (Obs_At prev False timer), Some Obs_Lost}"
proof -
  have noobs: "worker_call c \<Longrightarrow> no_obs c" for c by (cases c) auto
  have via: "within no_obs (run_via_spi pg lib q f)" for q f
    by (rule within_mono[OF run_via_spi_worker]) (rule noobs)
  have one: "within no_obs (execute_one_statement pg lib q m)" for q m
    unfolding execute_one_statement_def handle_xact_control_def handle_xact_control_one_def xact_control_body_def
      run_spi_statement_def with_spi_def spi_session_def rc_error_def
    by (auto intro!: within_intros via split: option.split sum.split)
  have "within no_obs (implicit_statement pg lib q f)" for q f
    unfolding implicit_statement_def rc_error_def by (auto intro!: within_intros via split: sum.split)
  then have "within no_obs (implicit_loop pg lib xs)" for xs
    by (induction xs) (auto intro!: within_intros simp: implicit_tail_def)
  then have "within no_obs (try_prog (parse_and_classify pg lib query) (dispatch_statements pg lib))"
    unfolding parse_and_classify_def parse_in_scratch_def slice_panic_def dispatch_statements_def
      execute_with_implicit_block_spi_def
    by (auto intro!: within_intros one split: option.split sum.split)
  then have "keeps obs_step (execute_simple_query pg lib query) (Obs_At prev False timer) (restored (Obs_At prev False timer))"
    unfolding execute_simple_query_def by (auto intro!: query_guards_restore keeps_ret)
  then show ?thesis unfolding keeps_def restored_def by (auto split: prod.split)
qed

text \<open>In an aborted transaction block every statement but \<open>COMMIT\<close> and \<open>ROLLBACK\<close> is
  answered with SQLSTATE 25P02 after the one state check, with no further call to the
  server (in particular no snapshot), and \<open>COMMIT\<close> and \<open>ROLLBACK\<close> go to the transaction
  control.
\<close>

theorem aborted_block_admits_exit_only:
  assumes "pg (Tx IsAbortedTransactionBlockState) s = (Val (V_Bool True), s1)"
  shows "execute_one_statement pg lib query meta s =
    (if sm_xact meta \<in> {Some Xact_Commit, Some Xact_Rollback}
     then (case handle_xact_control pg (the (sm_xact meta)) s1 of
             (r, t, s2) \<Rightarrow> (r, (Tx IsAbortedTransactionBlockState, Val (V_Bool True)) # t, s2))
     else (Val (Inl aborted_transaction_block_error),
           [(Tx IsAbortedTransactionBlockState, Val (V_Bool True))], s1))"
  using assms
  by (auto simp: execute_one_statement_def bind_prog_def call_def ret_def is_xact_exit_stmt_def split: prod.split)

text \<open>A server that answers every call with \<open>True\<close>-like values, and one whose parser raises.\<close>

definition demo_report :: report where
  "demo_report = \<lparr>rp_level = lit ''ERROR'', rp_code = lit ''42601'', rp_message = lit ''syntax error''\<rparr>"

fun demo_answer :: "pg_call \<Rightarrow> pg_value outcome" where
  "demo_answer (Tx IsAbortedTransactionBlockState) = Val (V_Bool True)"
| "demo_answer (Tx IsTransactionBlock) = Val (V_Bool True)"
| "demo_answer (Tx (EndTransactionBlock c)) = Val (V_Bool False)"
| "demo_answer (Fn (Raw_parser q)) = Unwind (Caught_Postgres demo_report)"
| "demo_answer c = Val (V_Ptr (Some 7))"

definition demo_pg :: "(pg_call, unit) pg_env" where
  "demo_pg c s = (demo_answer c, ())"

definition demo_libs :: libs where
  "demo_libs = \<lparr>known_type = (\<lambda>oid. oid \<in> {23, 25}), panic_report = (\<lambda>p. demo_report)\<rparr>"

lemma aborted_block_admits_exit_only_witness:
  "execute_one_statement demo_pg demo_libs (lit ''SELECT 1'') \<lparr>sm_xact = None, sm_fetch_portalname = None\<rparr> () =
    (Val (Inl aborted_transaction_block_error), [(Tx IsAbortedTransactionBlockState, Val (V_Bool True))], ())"
  by (subst aborted_block_admits_exit_only[where ?s1.0 = "()"]) (simp_all add: demo_pg_def)

lemma implicit_block_all_or_nothing_witness:
  "case execute_with_implicit_block_spi demo_pg demo_libs
      [(lit ''SELECT 1'', \<lparr>sm_xact = None, sm_fetch_portalname = None\<rparr>)] () of (r, t, s') \<Rightarrow>
     \<exists>b. run_events batch_step Batch_Open t = Some b \<and> batch_outcome r b"
  by (rule implicit_block_all_or_nothing) (simp add: non_empty_statements_def ascii_space_def in_range_def wide_space_def)

text \<open>\<open>COMMIT\<close> in a block, when the four calls return: the client is told \<open>COMMIT\<close>
  whatever \<open>EndTransactionBlock\<close> answers, also \<open>False\<close>, with which the server says that
  the block was aborted and is rolled back.
\<close>

theorem commit_tag_ignores_answer:
  assumes "pg (Tx IsTransactionBlock) s = (Val (V_Bool True), s1)"
    and "pg (Tx SetCurrentStatementStartTimestamp) s1 = (Val v1, s2)"
    and "pg (Tx StartTransactionCommand) s2 = (Val v2, s3)"
    and "pg (Tx (EndTransactionBlock False)) s3 = (Val (V_Bool committed), s4)"
    and "pg (Tx CommitTransactionCommand) s4 = (Val v3, s5)"
  shows "fst (handle_xact_control pg Xact_Commit s) = Val (Inr [Execution (lit ''COMMIT'') None])"
  using assms
  by (simp add: handle_xact_control_def handle_xact_control_one_def xact_control_body_def xact_is_noop_def
      try_prog_def bind_prog_def then_prog_def catch_unwind_def calls.simps call_def ret_def xact_tag_def
      xact_block_call_def)

lemma commit_tag_ignores_answer_witness:
  "demo_pg (Tx (EndTransactionBlock False)) () = (Val (V_Bool False), ()) \<and>
   fst (handle_xact_control demo_pg Xact_Commit ()) = Val (Inr [Execution (lit ''COMMIT'') None])"
proof
  show *: "demo_pg (Tx (EndTransactionBlock False)) () = (Val (V_Bool False), ())" by (simp add: demo_pg_def)
  show "fst (handle_xact_control demo_pg Xact_Commit ()) = Val (Inr [Execution (lit ''COMMIT'') None])"
    by (rule commit_tag_ignores_answer[where committed = False and ?s1.0 = "()" and ?s2.0 = "()" and ?s3.0 = "()"
          and ?s4.0 = "()" and ?s5.0 = "()"]) (simp_all add: demo_pg_def)
qed

text \<open>A syntax error leaves the scratch memory context behind: when the parser raises,
  the query gets the server's own report, and the calls end with the parser's: the
  context that was current before is not switched back and the scratch context is not
  deleted.
\<close>

theorem syntax_error_keeps_scratch_context:
  assumes "0 \<notin> set query"
    and "pg (Mem CurrentMemoryContext) s = (Val (V_Ptr (Some saved)), s1)"
    and "pg (Mem (AllocSetContextCreate saved (lit ''pg_transport_raw_parse''))) s1 = (Val (V_Ptr (Some scratch)), s2)"
    and "pg (Mem (MemoryContextSwitchTo scratch)) s2 = (Val v, s3)"
    and "pg (Fn (Raw_parser query)) s3 = (Unwind (Caught_Postgres rp), s4)"
  shows "parse_and_classify pg lib query s =
    (Val (Inl (error_report_to_pgwire rp)),
     [(Mem CurrentMemoryContext, Val (V_Ptr (Some saved))),
      (Mem (AllocSetContextCreate saved (lit ''pg_transport_raw_parse'')), Val (V_Ptr (Some scratch))),
      (Mem (MemoryContextSwitchTo scratch), Val v),
      (Fn (Raw_parser query), Unwind (Caught_Postgres rp))], s4)"
  using assms
  by (simp add: parse_and_classify_def parse_in_scratch_def bind_prog_def then_prog_def catch_unwind_def
      calls.simps call_def ret_def as_handle_def caught_error_to_pgwire_def del: lit_simps)

lemma syntax_error_keeps_scratch_context_witness:
  "\<exists>t. parse_and_classify demo_pg demo_libs (lit ''SELECTT 1'') () =
    (Val (Inl (error_report_to_pgwire demo_report)), t, ()) \<and> length t = 4"
proof -
  have q: "0 \<notin> set (lit ''SELECTT 1'')" by simp
  show ?thesis
    using syntax_error_keeps_scratch_context[OF q, of demo_pg "()" 7 "()" 7 "()" "V_Ptr (Some 7)" "()" demo_report "()" demo_libs]
    by (simp add: demo_pg_def del: lit_simps)
qed

end
