(* ===== verification/Direct_Props.thy ===== *)
theory Direct_Props
  imports Simple_Direct Spi_Props
begin

text \<open>The properties of the direct simple-query path and of portal names.\<close>

text \<open>C39. The direct path keeps the transaction protocol for every behaviour of the server
  in which \<open>analyze_requires_snapshot\<close> asks for no snapshot for transaction statements:
  no snapshot is taken in an aborted block, pushes and pops match, a commit finds the
  snapshot stack empty, planner and executor run only in an open command, and no command
  is open when the query returns.
\<close>

theorem direct_query_keeps_protocol:
  assumes "txn_needs_no_snapshot pg"
  shows "case execute_simple_query_direct pg lib query s of (r, t, s') \<Rightarrow>
     \<exists>b. run_events tx_step (tx_idle False) t = Some b \<and> at_rest r b"
  by (rule keeps_run) (rule execute_simple_query_direct_safe[OF assms, unfolded tx_safe_def])

lemma direct_query_keeps_protocol_witness:
  "case execute_simple_query_direct demo_pg demo_libs (lit ''ROLLBACK'') () of (r, t, s') \<Rightarrow>
     \<exists>b. run_events tx_step (tx_idle False) t = Some b \<and> at_rest r b"
  by (rule direct_query_keeps_protocol) (simp add: txn_needs_no_snapshot_def demo_pg_def)

section \<open>The parse context\<close>

text \<open>What becomes of the memory context of a query; \<open>Ctx_Failed\<close>: its deletion raised.\<close>

datatype parse_ctx_state = Ctx_None | Ctx_Live nat | Ctx_Freed | Ctx_Failed

fun ctx_next :: "parse_ctx_state \<Rightarrow> mem_call \<Rightarrow> pg_value outcome \<Rightarrow> parse_ctx_state" where
  "ctx_next Ctx_None (AllocSetContextCreate p n) (Val v) = Ctx_Live (as_handle v)"
| "ctx_next (Ctx_Live c) (MemoryContextDelete d) (Val v) = (if d = c then Ctx_Freed else Ctx_Live c)"
| "ctx_next (Ctx_Live c) (MemoryContextDelete d) (Unwind p) = (if d = c then Ctx_Failed else Ctx_Live c)"
| "ctx_next a d r = a"

definition ctx_step :: "parse_ctx_state \<Rightarrow> pg_call event \<Rightarrow> parse_ctx_state option" where
  "ctx_step a e = (case e of (Mem c, r) \<Rightarrow> Some (ctx_next a c r) | _ \<Rightarrow> Some a)"

fun no_ctx :: "pg_call \<Rightarrow> bool" where
  "no_ctx (Mem (AllocSetContextCreate p n)) = False"
| "no_ctx (Mem (MemoryContextDelete d)) = False"
| "no_ctx c = True"

lemma no_ctx_step: "no_ctx c \<Longrightarrow> ctx_step a (c, r) = Some a"
  by (cases c rule: no_ctx.cases) (auto simp: ctx_step_def elim: ctx_next.elims)

lemma plain_no_ctx: "plain_call c \<Longrightarrow> no_ctx c"
  by (cases c rule: plain_call.cases) auto

lemma dispatch_direct_no_ctx: "within no_ctx (query_guards pg q (dispatch_direct pg lib sql stmts ctx))"
proof -
  have one: "within no_ctx (run_one_direct pg lib rs sql ctx)" for rs
    by (rule run_one_direct_within) (rule plain_no_ctx)
  have "within no_ctx (implicit_direct_statement pg lib sql ctx rs)" for rs
    unfolding implicit_direct_statement_def implicit_open_def implicit_close_def
    by (auto intro!: within_intros one)
  then have loop: "within no_ctx (direct_loop pg lib sql ctx rss)" for rss
    by (induction rss) (auto intro!: within_intros simp: direct_tail_def)
  have single: "within no_ctx (execute_single_direct pg lib sql ctx rs)" for rs
    unfolding execute_single_direct_def with_xact_def xact_close_def
    by (auto intro!: within_intros one split: sum.split)
  show ?thesis
    unfolding dispatch_direct_def execute_with_implicit_block_def
    by (rule guards_within) (auto intro!: within_intros loop single split: sum.split)
qed

text \<open>A context in scope is freed, or its deletion raised.\<close>

lemma context_scope:
  assumes "within no_ctx m"
  shows "keeps ctx_step (with_guard (calls pg [Mem (MemoryContextDelete c)]) m) (Ctx_Live c)
    (\<lambda>r b. b = Ctx_Freed \<or> b = Ctx_Failed)"
proof -
  have del: "keeps ctx_step (calls pg [Mem (MemoryContextDelete c)]) (Ctx_Live c) (\<lambda>r b. b = Ctx_Freed \<or> b = Ctx_Failed)"
  proof (rule keeps_calls_Cons)
    fix r show "\<exists>b. ctx_step (Ctx_Live c) (Mem (MemoryContextDelete c), r) = Some b \<and>
        (case r of Val _ \<Rightarrow> keeps ctx_step (calls pg []) b (\<lambda>r b. b = Ctx_Freed \<or> b = Ctx_Failed)
         | Unwind p \<Rightarrow> b = Ctx_Freed \<or> b = Ctx_Failed)"
      by (cases r) (auto simp: ctx_step_def intro: keeps_calls_Nil)
  qed
  have "keeps ctx_step m (Ctx_Live c) (\<lambda>r b. b = Ctx_Live c)"
    by (rule keeps_within[OF assms]) (rule no_ctx_step)
  then show ?thesis
    by (intro keeps_guard keeps_conseq[OF \<open>keeps ctx_step m _ _\<close>]) (auto intro: keeps_conseq[OF del])
qed

text \<open>C40. The memory context of a direct simple query never outlives it: on every exit (a
  result, an error of any statement, a syntax error, an unwind) the context made for the
  parse tree has been deleted, whatever the server did in between.
\<close>

theorem direct_query_frees_parse_context:
  "case execute_simple_query_direct pg lib query s of (r, t, s') \<Rightarrow>
     run_events ctx_step Ctx_None t \<in> {Some Ctx_None, Some Ctx_Freed, Some Ctx_Failed}"
proof -
  let ?ok = "\<lambda>r b. b = Ctx_None \<or> b = Ctx_Freed \<or> b = Ctx_Failed"
  let ?body = "\<lambda>ctx. bind_prog (catch_unwind (parse_in_context pg query ctx)) (\<lambda>outcome. case outcome of
           Inl caught \<Rightarrow> ret (Inl (caught_error_to_pgwire lib caught))
         | Inr spans \<Rightarrow> (case slice_all query spans of
             None \<Rightarrow> slice_panic
           | Some stmts \<Rightarrow> query_guards pg query (dispatch_direct pg lib query stmts ctx)))"
  have body: "within no_ctx (?body c)" for c
    unfolding parse_in_context_def switched_to_def slice_panic_def
    by (auto intro!: within_intros dispatch_direct_no_ctx split: sum.split option.split)
  have ctx: "keeps ctx_step (with_memory_context pg top name ?body) Ctx_None ?ok" for top name
    unfolding with_memory_context_def
  proof (rule keeps_bind, rule keeps_call)
    fix r
    show "\<exists>b. ctx_step Ctx_None (Mem (AllocSetContextCreate top name), r) = Some b \<and>
        (case r of Val x \<Rightarrow> keeps ctx_step (with_guard (calls pg [Mem (MemoryContextDelete (as_handle x))]) (?body (as_handle x))) b ?ok
         | Unwind p \<Rightarrow> ?ok (Unwind p) b)"
    proof (cases r)
      case (Val x)
      have "keeps ctx_step (with_guard (calls pg [Mem (MemoryContextDelete (as_handle x))]) (?body (as_handle x)))
          (Ctx_Live (as_handle x)) ?ok"
        by (rule keeps_conseq[OF context_scope[OF body]]) auto
      then show ?thesis by (simp add: Val ctx_step_def)
    qed (simp add: ctx_step_def)
  qed
  have top: "keeps ctx_step (call pg (Mem TopMemoryContext)) Ctx_None (\<lambda>r b. b = Ctx_None)"
    by (rule keeps_within[of no_ctx]) (auto intro!: within_call no_ctx_step)
  have "keeps ctx_step (execute_simple_query_direct pg lib query) Ctx_None ?ok"
    unfolding execute_simple_query_direct_def parse_and_keep_def
    by (auto intro!: keeps_ret keeps_bind[OF keeps_conseq[OF top]] split: outcome.split) (use ctx in blast)
  from keeps_run[OF this, of s] show ?thesis by (auto split: prod.splits)
qed

text \<open>An anonymous portal's name is the prefix and the decimal digits of the process
  counter, NUL-terminated in its 32 bytes for every counter value; so two counters of
  the same name are equal, and no name is reused before the counter wraps.
\<close>

theorem portal_names_distinct:
  "\<exists>name. portal_name n = Some name \<and> length name = 32 \<and>
     takeWhile (\<lambda>b. b \<noteq> 0) name = lit ''pgxport_'' @ show_nat (unat n) \<and>
     (\<forall>m. portal_name m = Some name \<longleftrightarrow> m = n)"
proof -
  let ?name = "\<lambda>n :: 64 word. lit ''pgxport_'' @ show_nat (unat n)"
  have nz: "b \<noteq> 0" if "b \<in> set (?name m)" for b m
    using that show_nat_digits[of "unat m"] by (auto simp: list_all_iff is_digit_def)
  have cut: "takeWhile (\<lambda>b. b \<noteq> 0) (?name m @ replicate k 0) = ?name m" for m k
    by (subst takeWhile_append2[OF nz]) (simp_all del: lit_simps)
  have eq: "portal_name m = Some (?name m @ replicate (24 - length (show_nat (unat m))) 0)" for m
    using portal_name_eq[of m] by (simp only: append_assoc)
  have inj: "m = n" if "portal_name m = portal_name n" for m
  proof -
    have "?name m @ replicate (24 - length (show_nat (unat m))) 0 = ?name n @ replicate (24 - length (show_nat (unat n))) 0"
      using that by (simp only: eq option.inject)
    from arg_cong[where f = "takeWhile (\<lambda>b. b \<noteq> 0)", OF this] have "?name m = ?name n"
      by (simp only: cut)
    then show "m = n" by (simp add: show_nat_inj word_unat_eq_iff del: lit_simps)
  qed
  have "length (?name n @ replicate (24 - length (show_nat (unat n))) 0) = 32"
    using portal_digits_show[of n] by (simp del: lit_simps(2))
  moreover have "(portal_name m = Some (?name n @ replicate (24 - length (show_nat (unat n))) 0)) = (m = n)" for m
    using inj[of m] eq[of n] by metis
  ultimately show ?thesis using eq[of n] cut[of n] by blast
qed

end
