(* ===== verification/Block_Status.thy ===== *)
theory Block_Status
  imports Spi_Props
begin

text \<open>
  How the simple-query SPI path moves the session between idle, in a block and failed,
  the status a client is told after every query.  The server's transaction block is not
  part of the repository: \<open>block_step\<close> says what its documentation promises of the calls,
  and a run whose answers it does not accept is no run of that server.
\<close>

section \<open>Runs with documented answers\<close>

text \<open>
  Where \<open>keeps\<close> demands that a program keeps a protocol whatever the answers are,
  \<open>tracks\<close> follows an automaton of the answers as long as it accepts them.
\<close>

definition tracks :: "('a \<Rightarrow> 'c event \<Rightarrow> 'a option) \<Rightarrow> ('c, 's, 'r) prog \<Rightarrow> 'a \<Rightarrow> ('r outcome \<Rightarrow> 'a \<Rightarrow> bool) \<Rightarrow> bool" where
  "tracks step m a Q \<longleftrightarrow> (\<forall>s r t s' b. m s = (r, t, s') \<longrightarrow> run_events step a t = Some b \<longrightarrow> Q r b)"

lemma tracksD: "tracks step m a Q \<Longrightarrow> m s = (r, t, s') \<Longrightarrow> run_events step a t = Some b \<Longrightarrow> Q r b"
  unfolding tracks_def by blast

lemma tracks_conseq: "tracks step m a Q \<Longrightarrow> (\<And>r b. Q r b \<Longrightarrow> Q' r b) \<Longrightarrow> tracks step m a Q'"
  unfolding tracks_def by blast

lemma tracks_ret: "Q (Val x) a \<Longrightarrow> tracks step (ret x) a Q"
  by (auto simp: tracks_def ret_def)

lemma tracks_panic: "Q (Unwind p) a \<Longrightarrow> tracks step (panic p) a Q"
  by (auto simp: tracks_def panic_def)

lemma tracks_call:
  assumes "\<And>r b. step a (c, r) = Some b \<Longrightarrow> Q r b"
  shows "tracks step (call pg c) a Q"
  using assms by (auto simp: tracks_def call_def split: prod.splits option.splits)

lemma tracks_bind:
  assumes "tracks step m a (\<lambda>r b. case r of Val x \<Rightarrow> tracks step (k x) b Q | Unwind p \<Rightarrow> Q (Unwind p) b)"
  shows "tracks step (bind_prog m k) a Q"
  unfolding tracks_def
proof (intro allI impI)
  fix s r t s' c
  assume run: "bind_prog m k s = (r, t, s')" and ok: "run_events step a t = Some c"
  obtain r1 t1 s1 where m: "m s = (r1, t1, s1)" by (metis prod_cases3)
  show "Q r c"
  proof (cases r1)
    case (Val x)
    obtain r2 t2 s2 where k: "k x s1 = (r2, t2, s2)" by (metis prod_cases3)
    have eqs: "r = r2" "t = t1 @ t2" using run m k Val by (simp_all add: bind_prog_def)
    then obtain b where b: "run_events step a t1 = Some b" "run_events step b t2 = Some c"
      using ok by (auto simp: run_events_append split: option.splits)
    show ?thesis using tracksD[OF assms m b(1)] tracksD[of step "k x" b Q, OF _ k b(2)] Val eqs by simp
  next
    case (Unwind p)
    then show ?thesis using run m ok tracksD[OF assms m, of c] by (simp add: bind_prog_def)
  qed
qed

lemma tracks_then:
  assumes "tracks step m a (\<lambda>r b. case r of Val x \<Rightarrow> tracks step k b Q | Unwind p \<Rightarrow> Q (Unwind p) b)"
  shows "tracks step (then_prog m k) a Q"
  unfolding then_prog_def by (rule tracks_bind) (rule assms)

lemma tracks_call_bind:
  assumes "\<And>v b. step a (c, Val v) = Some b \<Longrightarrow> tracks step (k v) b Q" "\<And>p b. step a (c, Unwind p) = Some b \<Longrightarrow> Q (Unwind p) b"
  shows "tracks step (bind_prog (call pg c) k) a Q"
proof (rule tracks_bind, rule tracks_call)
  fix r b assume "step a (c, r) = Some b"
  then show "case r of Val x \<Rightarrow> tracks step (k x) b Q | Unwind p \<Rightarrow> Q (Unwind p) b"
    using assms by (cases r) auto
qed

lemma tracks_try:
  assumes "tracks step m a (\<lambda>r b. case r of Val (Inr x) \<Rightarrow> tracks step (k x) b Q
     | Val (Inl e) \<Rightarrow> Q (Val (Inl e)) b | Unwind p \<Rightarrow> Q (Unwind p) b)"
  shows "tracks step (try_prog m k) a Q"
  unfolding try_prog_def
  by (rule tracks_bind, rule tracks_conseq[OF assms]) (auto split: outcome.splits sum.splits intro: tracks_ret)

lemma tracks_catch:
  assumes "tracks step m a (\<lambda>r b. Q (case r of Val x \<Rightarrow> Val (Inr x) | Unwind p \<Rightarrow> Val (Inl p)) b)"
  shows "tracks step (catch_unwind m) a Q"
  unfolding tracks_def
proof (intro allI impI)
  fix s r t s' b
  assume run: "catch_unwind m s = (r, t, s')" and ok: "run_events step a t = Some b"
  obtain r1 t1 s1 where m: "m s = (r1, t1, s1)" by (metis prod_cases3)
  show "Q r b" using tracksD[OF assms m, of b] run m ok by (cases r1) (auto simp: catch_unwind_def)
qed

lemma tracks_caught:
  assumes "tracks step m a (\<lambda>r b. case r of Val x \<Rightarrow> tracks step (k (Inr x)) b Q | Unwind p \<Rightarrow> tracks step (k (Inl p)) b Q)"
  shows "tracks step (bind_prog (catch_unwind m) k) a Q"
  by (rule tracks_bind, rule tracks_catch, rule tracks_conseq[OF assms]) (auto split: outcome.splits)

lemma tracks_calls_Nil: "Q (Val ()) a \<Longrightarrow> tracks step (calls pg []) a Q"
  by (simp add: tracks_ret calls.simps)

lemma tracks_calls_Cons:
  assumes "\<And>v b. step a (c, Val v) = Some b \<Longrightarrow> tracks step (calls pg cs) b Q"
    "\<And>p b. step a (c, Unwind p) = Some b \<Longrightarrow> Q (Unwind p) b"
  shows "tracks step (calls pg (c # cs)) a Q"
  unfolding calls.simps then_prog_def by (rule tracks_call_bind) (use assms in auto)

text \<open>A piece whose calls the automaton ignores.\<close>

lemma run_events_still:
  "(\<And>e b. e \<in> set t \<Longrightarrow> step a e = Some b \<Longrightarrow> b = a) \<Longrightarrow> run_events step a t = Some b \<Longrightarrow> b = a"
proof (induction t)
  case (Cons e t)
  then obtain c where c: "step a e = Some c" "run_events step c t = Some b" by (auto split: option.splits)
  then have "c = a" using Cons.prems(1)[of e c] by simp
  show ?case
  proof (rule Cons.IH)
    show "b' = a" if "e' \<in> set t" "step a e' = Some b'" for e' b' using Cons.prems(1)[of e' b'] that by simp
  qed (use c \<open>c = a\<close> in simp)
qed simp

lemma tracks_within:
  assumes "within P m" "\<And>c r b. P c \<Longrightarrow> step a (c, r) = Some b \<Longrightarrow> b = a"
  shows "tracks step m a (\<lambda>r b. b = a)"
  unfolding tracks_def
proof (intro allI impI)
  fix s r t s' b
  assume m: "m s = (r, t, s')" and run: "run_events step a t = Some b"
  show "b = a"
  proof (rule run_events_still[OF _ run])
    fix e b' assume e: "e \<in> set t" "step a e = Some b'"
    then show "b' = a" using withinD[OF assms(1) m e(1)] assms(2)[of "fst e" "snd e" b'] by simp
  qed
qed

lemma tracks_bind_within:
  assumes "within P m" "\<And>c r b. P c \<Longrightarrow> step a (c, r) = Some b \<Longrightarrow> b = a"
    and "\<And>x. tracks step (k x) a Q" "\<And>p. Q (Unwind p) a"
  shows "tracks step (bind_prog m k) a Q"
  by (rule tracks_bind, rule tracks_conseq[OF tracks_within[OF assms(1)]])
    (use assms(2-) in \<open>auto split: outcome.split\<close>)

lemma tracks_guard:
  assumes "tracks step m a (\<lambda>r b. tracks step d b (\<lambda>r' c. Q (case r' of Val _ \<Rightarrow> r | Unwind p \<Rightarrow> Unwind p) c))"
  shows "tracks step (with_guard d m) a Q"
  unfolding tracks_def
proof (intro allI impI)
  fix s r t s' c
  assume run: "with_guard d m s = (r, t, s')" and ok: "run_events step a t = Some c"
  obtain r1 t1 s1 where m: "m s = (r1, t1, s1)" by (metis prod_cases3)
  obtain r2 t2 s2 where d: "d s1 = (r2, t2, s2)" by (metis prod_cases3)
  have eqs: "t = t1 @ t2" "r = (case r2 of Val _ \<Rightarrow> r1 | Unwind p \<Rightarrow> Unwind p)"
    using run m d by (auto simp: with_guard_def split: outcome.splits)
  then obtain b where "run_events step a t1 = Some b" "run_events step b t2 = Some c"
    using ok by (auto simp: run_events_append split: option.splits)
  then show "Q r c" using tracksD[OF assms m, of b] eqs(2) d unfolding tracks_def by blast
qed

text \<open>The outcome is one the program can have.\<close>

lemma tracks_outcome: "tracks step m a Q \<Longrightarrow> tracks step m a (\<lambda>r b. Q r b \<and> (\<exists>s t s'. m s = (r, t, s')))"
  unfolding tracks_def by blast

lemmas tracks_intros = tracks_ret tracks_call_bind tracks_caught tracks_then tracks_try tracks_catch tracks_calls_Nil tracks_calls_Cons

text \<open>An automaton that stops at some events; a run without them is one of it.\<close>

definition without :: "('e \<Rightarrow> bool) \<Rightarrow> ('a \<Rightarrow> 'e \<Rightarrow> 'a option) \<Rightarrow> 'a \<Rightarrow> 'e \<Rightarrow> 'a option" where
  "without E step a e = (if E e then None else step a e)"

lemma run_without:
  "run_events step a t = Some b \<Longrightarrow> (\<And>e. e \<in> set t \<Longrightarrow> \<not> E e) \<Longrightarrow> run_events (without E step) a t = Some b"
  by (induction t arbitrary: a) (auto simp: without_def split: option.splits)

lemma tracks_sub:
  assumes "\<And>b e b'. step b e = Some b' \<Longrightarrow> step' b e = Some b'" "tracks step' m a Q"
  shows "tracks step m a Q"
proof -
  have "run_events step a t = Some b \<Longrightarrow> run_events step' a t = Some b" for a t b
    by (induction t arbitrary: a) (auto split: option.splits dest: assms(1))
  then show ?thesis using assms(2) unfolding tracks_def by blast
qed

lemma tracks_without: "tracks step m a Q \<Longrightarrow> tracks (without E step) m a Q"
  by (erule tracks_sub[rotated]) (simp add: without_def split: if_splits)

section \<open>The server's transaction block\<close>

text \<open>The block states of the server that these calls can reach, by their names there.\<close>

datatype tblock =
    TBLOCK_DEFAULT | TBLOCK_STARTED | TBLOCK_BEGIN | TBLOCK_INPROGRESS | TBLOCK_IMPLICIT_INPROGRESS
  | TBLOCK_END | TBLOCK_ABORT | TBLOCK_ABORT_END | TBLOCK_ABORT_PENDING

text \<open>A call that returns; \<open>None\<close> is an answer the documentation excludes.\<close>

fun block_next :: "tblock \<Rightarrow> tx_call \<Rightarrow> pg_value \<Rightarrow> tblock option" where
  "block_next b StartTransactionCommand v =
     (if b = TBLOCK_DEFAULT then Some TBLOCK_STARTED
      else if b \<in> {TBLOCK_INPROGRESS, TBLOCK_IMPLICIT_INPROGRESS, TBLOCK_ABORT} then Some b else None)"
| "block_next b CommitTransactionCommand v =
     (case b of TBLOCK_DEFAULT \<Rightarrow> None | TBLOCK_BEGIN \<Rightarrow> Some TBLOCK_INPROGRESS
      | TBLOCK_INPROGRESS \<Rightarrow> Some b | TBLOCK_IMPLICIT_INPROGRESS \<Rightarrow> Some b | TBLOCK_ABORT \<Rightarrow> Some b
      | _ \<Rightarrow> Some TBLOCK_DEFAULT)"
| "block_next b AbortCurrentTransaction v =
     (if b \<in> {TBLOCK_INPROGRESS, TBLOCK_ABORT} then Some TBLOCK_ABORT else Some TBLOCK_DEFAULT)"
| "block_next b BeginTransactionBlock v =
     (if b \<in> {TBLOCK_STARTED, TBLOCK_IMPLICIT_INPROGRESS} then Some TBLOCK_BEGIN
      else if b \<in> {TBLOCK_INPROGRESS, TBLOCK_ABORT} then Some b else None)"
| "block_next b (EndTransactionBlock chain) v =
     (if b \<in> {TBLOCK_INPROGRESS, TBLOCK_IMPLICIT_INPROGRESS} \<and> v = V_Bool True then Some TBLOCK_END
      else if b = TBLOCK_ABORT \<and> v = V_Bool False then Some TBLOCK_ABORT_END
      else if b = TBLOCK_STARTED \<and> v = V_Bool True then Some b else None)"
| "block_next b (UserAbortTransactionBlock chain) v =
     (if b \<in> {TBLOCK_INPROGRESS, TBLOCK_STARTED, TBLOCK_IMPLICIT_INPROGRESS} then Some TBLOCK_ABORT_PENDING
      else if b = TBLOCK_ABORT then Some TBLOCK_ABORT_END else None)"
| "block_next b BeginImplicitTransactionBlock v =
     Some (if b = TBLOCK_STARTED then TBLOCK_IMPLICIT_INPROGRESS else b)"
| "block_next b EndImplicitTransactionBlock v =
     Some (if b = TBLOCK_IMPLICIT_INPROGRESS then TBLOCK_STARTED else b)"
| "block_next b IsTransactionBlock v =
     (if v = V_Bool (b \<notin> {TBLOCK_DEFAULT, TBLOCK_STARTED}) then Some b else None)"
| "block_next b IsAbortedTransactionBlockState v =
     (if v = V_Bool (b = TBLOCK_ABORT) then Some b else None)"
| "block_next b _ v = Some b"

text \<open>
  A call that raises leaves the block where it is.  \<open>served_step\<close> takes every statement that
  SPI or a portal runs for one that is no transaction control.  Portals run transaction
  control on the direct path, so \<open>block_step\<close> does not cover them; the SPI path has none.
\<close>

definition served_step :: "tblock \<Rightarrow> pg_call event \<Rightarrow> tblock option" where
  "served_step b e = (case e of (Tx c, Val v) \<Rightarrow> block_next b c v | _ \<Rightarrow> Some b)"

definition block_step :: "tblock \<Rightarrow> pg_call event \<Rightarrow> tblock option" where
  "block_step b e =
    (case e of (Tx c, Val v) \<Rightarrow> block_next b c v
     | (Exec (PortalRun p n m), _) \<Rightarrow> None
     | _ \<Rightarrow> Some b)"

lemma served_step_simps [simp]:
  "served_step b (Tx c, Val v) = block_next b c v" "served_step b (Tx c, Unwind p) = Some b"
  by (simp_all add: served_step_def)

lemma served_step_still: "(\<And>d. c \<noteq> Tx d) \<Longrightarrow> served_step b (c, r) = Some b"
  by (cases c) (auto simp: served_step_def split: outcome.split)

lemma block_step_served: "block_step b e = Some b' \<Longrightarrow> served_step b e = Some b'"
  by (auto simp: block_step_def served_step_def split: prod.splits pg_call.splits outcome.splits exec_call.splits)

lemma block_step_simps [simp]:
  "block_step b (Tx c, Val v) = block_next b c v" "block_step b (Tx c, Unwind p) = Some b"
  "block_step b (Spi d, r) = Some b" "block_step b (Fn f, r) = Some b" "block_step b (Mem m, r) = Some b"
  "block_step b (Obs ob, r) = Some b"
  by (simp_all add: block_step_def split: outcome.split)

lemma block_step_worker: "worker_call c \<Longrightarrow> block_step b (c, r) = Some b' \<Longrightarrow> b' = b"
  by (cases c) (auto simp: block_step_def split: outcome.splits exec_call.splits)

lemma served_step_worker: "worker_call c \<Longrightarrow> served_step b (c, r) = Some b' \<Longrightarrow> b' = b"
  by (cases c) (auto simp: served_step_def split: outcome.splits)

section \<open>The status of the session\<close>

text \<open>What \<open>ReadyForQuery\<close> tells the client between two queries: \<open>I\<close>, \<open>T\<close> or \<open>E\<close>.\<close>

datatype xact_status = Status_Idle | Status_In_Block | Status_Failed

fun resting :: "xact_status \<Rightarrow> tblock" where
  "resting Status_Idle = TBLOCK_DEFAULT"
| "resting Status_In_Block = TBLOCK_INPROGRESS"
| "resting Status_Failed = TBLOCK_ABORT"

text \<open>
  Where a statement may take the session, by its result.  In a failed block only the two
  exits are admitted; a statement that is no transaction control leaves a block, or its
  absence, as it is, but an error inside a block may fail it.
\<close>

fun plain_status :: "bool \<Rightarrow> xact_status \<Rightarrow> xact_status set" where
  "plain_status done Status_Idle = {Status_Idle}"
| "plain_status done Status_In_Block = (if done then {Status_In_Block} else {Status_In_Block, Status_Failed})"
| "plain_status done Status_Failed = (if done then {} else {Status_Failed})"

fun begin_status :: "bool \<Rightarrow> xact_status \<Rightarrow> xact_status set" where
  "begin_status done Status_Idle = (if done then {Status_In_Block} else {Status_Idle})"
| "begin_status done Status_In_Block = (if done then {Status_In_Block} else {})"
| "begin_status done Status_Failed = (if done then {} else {Status_Failed})"

fun exit_status :: "bool \<Rightarrow> xact_status \<Rightarrow> xact_status set" where
  "exit_status done Status_Idle = (if done then {Status_Idle} else {})"
| "exit_status done _ = (if done then {Status_Idle} else {Status_Idle, Status_Failed})"

definition stmt_status :: "stmt_meta \<Rightarrow> bool \<Rightarrow> xact_status \<Rightarrow> xact_status set" where
  "stmt_status meta = (case sm_xact meta of
     None \<Rightarrow> plain_status | Some Xact_Begin \<Rightarrow> begin_status | Some _ \<Rightarrow> exit_status)"

text \<open>Statements one by one, up to the first error; and the implicit block of a batch.\<close>

fun stmts_status :: "stmt_meta list \<Rightarrow> bool \<Rightarrow> xact_status \<Rightarrow> xact_status set" where
  "stmts_status [] done st = (if done then {st} else {})"
| "stmts_status (m # ms) done st =
    (\<Union>st1 \<in> stmt_status m True st. stmts_status ms done st1) \<union> (if done then {} else stmt_status m False st)"

fun batch_status :: "bool \<Rightarrow> xact_status \<Rightarrow> xact_status set" where
  "batch_status done Status_Idle = {Status_Idle}"
| "batch_status done Status_In_Block = (if done then {Status_In_Block} else {Status_Failed})"
| "batch_status done Status_Failed = (if done then {} else {Status_Failed})"

definition dispatch_status :: "(bytes \<times> stmt_meta) list \<Rightarrow> bool \<Rightarrow> xact_status \<Rightarrow> xact_status set" where
  "dispatch_status stmts =
    (if length (non_empty_statements stmts) > 1 \<and> \<not> list_ex (\<lambda>(_, meta). sm_xact meta \<noteq> None) stmts
     then batch_status else stmts_status (map snd (non_empty_statements stmts)))"

text \<open>A run that returns ends in a resting state the specification allows.\<close>

definition is_ok :: "'e + 'a \<Rightarrow> bool" where
  "is_ok x = (case x of Inl e \<Rightarrow> False | Inr y \<Rightarrow> True)"

lemma is_ok_simps [simp]: "\<not> is_ok (Inl e)" "is_ok (Inr x)"
  by (simp_all add: is_ok_def)

definition ends_in :: "(bool \<Rightarrow> xact_status set) \<Rightarrow> ('e + 'a) outcome \<Rightarrow> tblock \<Rightarrow> bool" where
  "ends_in S r b = (case r of Val x \<Rightarrow> b \<in> resting ` S (is_ok x) | Unwind p \<Rightarrow> True)"

lemma ends_in_simps [simp]:
  "ends_in S (Val (Inl e)) b \<longleftrightarrow> b \<in> resting ` S False" "ends_in S (Val (Inr x)) b \<longleftrightarrow> b \<in> resting ` S True"
  "ends_in S (Unwind p) b"
  by (simp_all add: ends_in_def)

abbreviation follows :: "(pg_call, 's, 'r) prog \<Rightarrow> tblock \<Rightarrow> ('r outcome \<Rightarrow> tblock \<Rightarrow> bool) \<Rightarrow> bool" where
  "follows \<equiv> tracks block_step"

lemma ends_in_mono: "ends_in S r b \<Longrightarrow> (\<And>ok. S ok \<subseteq> S' ok) \<Longrightarrow> ends_in S' r b"
  unfolding ends_in_def by (auto split: outcome.splits)

section \<open>The brackets\<close>

abbreviation serves :: "(pg_call, 's, 'r) prog \<Rightarrow> tblock \<Rightarrow> ('r outcome \<Rightarrow> tblock \<Rightarrow> bool) \<Rightarrow> bool" where
  "serves \<equiv> tracks served_step"

lemma follows_serves: "serves m b Q \<Longrightarrow> follows m b Q"
  by (rule tracks_sub[OF block_step_served])

lemma follows_worker: "within worker_call m \<Longrightarrow> follows m a (\<lambda>r b. b = a)"
  by (erule tracks_within) (rule block_step_worker)

lemma serves_abort:
  "Q (Val x) (if b \<in> {TBLOCK_INPROGRESS, TBLOCK_ABORT} then TBLOCK_ABORT else TBLOCK_DEFAULT) \<Longrightarrow> (\<And>p b. Q (Unwind p) b) \<Longrightarrow>
    serves (then_prog (calls pg [Tx AbortCurrentTransaction]) (ret x)) b Q"
  by (auto intro!: tracks_intros split: if_splits)

lemmas follows_abort = follows_serves[OF serves_abort]

text \<open>
  What a bracket does to the status: it opens and closes a command of the block it finds.
  It asks for nothing, so a failed block comes out as it went in, whatever the result.
\<close>

fun bracket_status :: "bool \<Rightarrow> xact_status \<Rightarrow> xact_status set" where
  "bracket_status done Status_Idle = {Status_Idle}"
| "bracket_status done Status_In_Block = (if done then {Status_In_Block} else {Status_In_Block, Status_Failed})"
| "bracket_status done Status_Failed = {Status_Failed}"

fun command_open :: "xact_status \<Rightarrow> tblock" where
  "command_open Status_Idle = TBLOCK_STARTED"
| "command_open Status_In_Block = TBLOCK_INPROGRESS"
| "command_open Status_Failed = TBLOCK_ABORT"

text \<open>The two ends of a bracket: the close after a result, the abort after an unwind.\<close>

lemma serves_close:
  "serves (then_prog (calls pg [Tx PopActiveSnapshot, Tx CommitTransactionCommand]) (ret x)) (command_open st)
    (ends_in (\<lambda>ok. bracket_status ok st))"
  by (cases st; cases x) (auto intro!: tracks_intros)

lemma serves_bracket_abort:
  "serves (then_prog (calls pg [Tx AbortCurrentTransaction]) (ret (Inl e))) (command_open st)
    (ends_in (\<lambda>ok. bracket_status ok st))"
  by (cases st) (auto intro!: serves_abort)

text \<open>The SPI session inside a bracket leaves the block alone.\<close>

lemma serves_session:
  assumes "within worker_call body"
  shows "serves (spi_session pg body) a (\<lambda>r b. b = a)"
  unfolding spi_session_def
  by (rule tracks_within[where P = "\<lambda>c. worker_call c \<or> (\<exists>d. c = Spi d)"])
    (auto intro!: within_intros within_mono[OF assms] within_mono[OF spi_workers(1)] dest: served_step_worker
      simp: served_step_still)

lemma serves_with_spi:
  assumes "within worker_call body"
  shows "serves (with_spi pg body) (resting st) (ends_in (\<lambda>ok. bracket_status ok st))"
proof -
  have tail: "serves (bind_prog (catch_unwind (spi_session pg body)) (\<lambda>result. case result of
         Inr (Inr value) \<Rightarrow> then_prog (calls pg [Tx PopActiveSnapshot, Tx CommitTransactionCommand]) (ret (Inr value))
       | Inr (Inl err) \<Rightarrow> then_prog (calls pg [Tx PopActiveSnapshot, Tx CommitTransactionCommand]) (ret (Inl err))
       | Inl payload \<Rightarrow> then_prog (calls pg [Tx AbortCurrentTransaction]) (ret (Inl (panic_to_pgwire payload)))))
      (command_open st) (ends_in (\<lambda>ok. bracket_status ok st))"
    by (rule tracks_caught, rule tracks_conseq[OF serves_session[OF assms]])
      (auto split: outcome.split sum.split intro!: serves_close serves_bracket_abort)
  show ?thesis
    unfolding with_spi_def by (cases st) (use tail in \<open>auto intro!: tracks_intros\<close>)
qed

lemma follows_with_spi:
  assumes "within worker_call body" "st \<noteq> Status_Failed"
  shows "follows (with_spi pg body) (resting st) (ends_in (\<lambda>ok. plain_status ok st))"
  by (rule follows_serves, rule tracks_conseq[OF serves_with_spi[OF assms(1)]], erule ends_in_mono)
    (use assms(2) in \<open>cases st; auto\<close>)

text \<open>Transaction control without a check: \<open>BEGIN\<close> in a failed block only reports its tag.\<close>

definition control_status :: "xact_cmd \<Rightarrow> bool \<Rightarrow> xact_status \<Rightarrow> xact_status set" where
  "control_status cmd done st =
    (if cmd = Xact_Begin then if st = Status_Failed then (if done then {Status_Failed} else {}) else begin_status done st
     else exit_status done st)"

lemma serves_xact_control:
  "serves (handle_xact_control_one pg cmd) (resting st) (ends_in (\<lambda>ok. control_status cmd ok st))"
  unfolding handle_xact_control_one_def xact_control_body_def control_status_def
  by (cases st; cases cmd)
    (auto intro!: tracks_intros serves_abort simp: xact_is_noop_def xact_block_call_def split: if_splits)

lemma follows_xact_control:
  assumes "st = Status_Failed \<longrightarrow> cmd \<noteq> Xact_Begin"
  shows "follows (handle_xact_control_one pg cmd) (resting st)
    (ends_in (\<lambda>ok. (if cmd = Xact_Begin then begin_status else exit_status) ok st))"
  by (rule follows_serves, rule tracks_conseq[OF serves_xact_control], erule ends_in_mono)
    (use assms in \<open>auto simp: control_status_def\<close>)

lemma follows_xact_control':
  assumes "st = Status_Failed \<longrightarrow> cmd \<noteq> Xact_Begin"
  shows "follows (handle_xact_control pg cmd) (resting st)
    (ends_in (\<lambda>ok. (if cmd = Xact_Begin then begin_status else exit_status) ok st))"
  unfolding handle_xact_control_def
  by (rule tracks_try, rule tracks_conseq[OF follows_xact_control[OF assms]])
    (auto split: outcome.split sum.split intro!: tracks_ret)

section \<open>Statements\<close>

lemma follows_one_statement:
  "follows (execute_one_statement pg lib query meta) (resting st) (ends_in (\<lambda>ok. stmt_status meta ok st))"
proof -
  have spi: "follows (run_spi_statement pg lib query fetch) (resting st) (ends_in (\<lambda>ok. plain_status ok st))"
    if "st \<noteq> Status_Failed" for fetch
    unfolding run_spi_statement_def by (rule follows_with_spi[OF run_via_spi_worker that])
  note control = follows_xact_control'[of st _ pg]
  show ?thesis
    unfolding execute_one_statement_def
    using spi control[of Xact_Begin] control[of Xact_Commit] control[of Xact_Rollback]
    by (cases st; cases "sm_xact meta"; cases "the (sm_xact meta)")
      (auto intro!: tracks_call_bind tracks_ret simp: stmt_status_def is_xact_exit_stmt_def split: if_splits)
qed

lemma follows_statements:
  "follows (for_each (\<lambda>(text, meta). execute_one_statement pg lib text meta) xs) (resting st)
     (ends_in (\<lambda>ok. stmts_status (map snd xs) ok st))"
proof (induction xs arbitrary: st)
  case (Cons x xs)
  obtain query meta where x: "x = (query, meta)" by (cases x)
  let ?Q = "ends_in (\<lambda>ok. stmts_status (meta # map snd xs) ok st) :: (error_info + response list list) outcome \<Rightarrow> _"
  have rest: "follows (try_prog (for_each (\<lambda>(text, meta). execute_one_statement pg lib text meta) xs)
      (\<lambda>ys. ret (Inr (y # ys)))) (resting st1) ?Q" if "st1 \<in> stmt_status meta True st" for y st1
    by (rule tracks_try, rule tracks_conseq[OF Cons.IH[of st1]])
      (use that in \<open>auto split: outcome.split sum.split intro!: tracks_ret imageI\<close>)
  have one: "follows (execute_one_statement pg lib query meta) (resting st) (\<lambda>r b. case r of
      Val (Inr y) \<Rightarrow> follows (try_prog (for_each (\<lambda>(text, meta). execute_one_statement pg lib text meta) xs)
          (\<lambda>ys. ret (Inr (y # ys)))) b ?Q
    | Val (Inl e) \<Rightarrow> ?Q (Val (Inl e)) b | Unwind p \<Rightarrow> ?Q (Unwind p) b)"
    by (rule tracks_conseq[OF follows_one_statement]) (use rest in \<open>auto split: outcome.split sum.split\<close>)
  show ?case unfolding x by (simp del: stmts_status.simps) (rule tracks_try, rule one)
qed (simp add: tracks_ret)

section \<open>The implicit block\<close>

text \<open>
  Between two statements of the implicit block the server is in it, or in the explicit
  block the client opened.
\<close>

fun batch_open :: "xact_status \<Rightarrow> tblock" where
  "batch_open Status_Idle = TBLOCK_IMPLICIT_INPROGRESS"
| "batch_open Status_In_Block = TBLOCK_INPROGRESS"
| "batch_open Status_Failed = TBLOCK_ABORT"

definition may_continue :: "xact_status \<Rightarrow> tblock \<Rightarrow> bool" where
  "may_continue st b \<longleftrightarrow> b \<in> {resting st, batch_open st}"

text \<open>The state an error may leave before the abort: never a resting one outside a block.\<close>

definition stopped :: "xact_status \<Rightarrow> tblock \<Rightarrow> bool" where
  "stopped st b \<longleftrightarrow> (st = Status_Idle \<longrightarrow> b \<notin> {TBLOCK_INPROGRESS, TBLOCK_ABORT})
     \<and> (st = Status_In_Block \<longrightarrow> b = TBLOCK_INPROGRESS) \<and> (st = Status_Failed \<longrightarrow> b = TBLOCK_ABORT)"

definition stmt_ends :: "xact_status \<Rightarrow> (error_info + 'a) outcome \<Rightarrow> tblock \<Rightarrow> bool" where
  "stmt_ends st r b = (case r of Val (Inr x) \<Rightarrow> st \<noteq> Status_Failed \<and> b = batch_open st | _ \<Rightarrow> stopped st b)"

lemma stmt_ends_simps [simp]:
  "stmt_ends st (Val (Inr x)) b \<longleftrightarrow> st \<noteq> Status_Failed \<and> b = batch_open st"
  "stmt_ends st (Val (Inl e)) b \<longleftrightarrow> stopped st b" "stmt_ends st (Unwind p) b \<longleftrightarrow> stopped st b"
  by (simp_all add: stmt_ends_def)

lemma follows_implicit_statement:
  assumes "may_continue st b"
  shows "follows (implicit_statement pg lib query fetch) b (stmt_ends st)"
proof -
  let ?quiet = "\<lambda>c. worker_call c \<or> (\<exists>d. c = Spi d) \<or> c = Tx PopActiveSnapshot"
  have quiet: "block_step b (c, r) = Some b' \<Longrightarrow> b' = b" if "?quiet c" for b b' c r
    using that by (cases r) (auto dest: block_step_worker)
  have via: "within ?quiet (run_via_spi pg lib query fetch)" by (rule within_mono[OF run_via_spi_worker]) simp
  have rc: "within ?quiet (rc_error pg api rc)" for api rc by (rule within_mono[OF spi_workers(1)]) simp
  have session: "follows (bind_prog (call pg (Spi SPI_connect)) (\<lambda>connect_rc.
          if as_int connect_rc \<noteq> SPI_OK_CONNECT
          then then_prog (calls pg [Tx PopActiveSnapshot])
                 (bind_prog (rc_error pg (lit ''SPI_connect'') (as_int connect_rc)) (\<lambda>e. ret (Inl e)))
          else bind_prog (run_via_spi pg lib query fetch) (\<lambda>body_result.
            bind_prog (call pg (Spi SPI_finish)) (\<lambda>finish_rc.
              then_prog (calls pg [Tx PopActiveSnapshot])
                (case body_result of
                   Inl e \<Rightarrow> ret (Inl e)
                 | Inr resp \<Rightarrow>
                     if as_int finish_rc \<noteq> SPI_OK_FINISH
                     then bind_prog (rc_error pg (lit ''SPI_finish'') (as_int finish_rc)) (\<lambda>e. ret (Inl e))
                     else ret (Inr resp)))))) (batch_open st) (stmt_ends st)" if "st \<noteq> Status_Failed"
    by (rule tracks_conseq[OF tracks_within[where P = ?quiet]])
      (use that quiet via rc in \<open>(cases st)?, auto intro!: within_intros simp: stmt_ends_def stopped_def
          simp del: lit_simps split: outcome.split sum.split\<close>)
  show ?thesis
    unfolding implicit_statement_def
    using assms session
    by (cases st)
      (auto intro!: tracks_call_bind tracks_then tracks_calls_Cons tracks_calls_Nil tracks_ret
        simp: may_continue_def stopped_def simp del: lit_simps split: if_splits)
qed

definition loop_ends :: "xact_status \<Rightarrow> bool \<Rightarrow> (error_info + 'a) outcome \<Rightarrow> tblock \<Rightarrow> bool" where
  "loop_ends st none_left r b =
    (case r of Val (Inr x) \<Rightarrow> b = resting st \<and> (none_left \<or> st \<noteq> Status_Failed) | _ \<Rightarrow> stopped st b)"

lemma loop_ends_simps [simp]:
  "loop_ends st z (Val (Inr x)) b \<longleftrightarrow> b = resting st \<and> (z \<or> st \<noteq> Status_Failed)"
  "loop_ends st z (Val (Inl e)) b \<longleftrightarrow> stopped st b" "loop_ends st z (Unwind p) b \<longleftrightarrow> stopped st b"
  by (simp_all add: loop_ends_def)

lemma follows_implicit_loop:
  assumes "if xs = [] then b = resting st else may_continue st b"
  shows "follows (implicit_loop pg lib xs) b (loop_ends st (xs = []))"
  using assms
proof (induction xs arbitrary: b)
  case (Cons x xs)
  obtain query fetch where x: "x = (query, fetch)" by (cases x)
  let ?b = "if xs = [] then resting st else batch_open st"
  have "follows (implicit_loop pg lib xs) ?b (loop_ends st (xs = []))"
    by (rule Cons.IH) (simp add: may_continue_def)
  then have rest: "follows (try_prog (implicit_loop pg lib xs) (\<lambda>resps. ret (Inr (resp @ resps)))) ?b (loop_ends st False)"
    if "st \<noteq> Status_Failed" for resp
    by (intro tracks_try, elim tracks_conseq)
      (use that in \<open>auto split: outcome.split sum.split intro!: tracks_ret\<close>)
  have tail: "follows (then_prog (implicit_tail pg (xs = []))
      (try_prog (implicit_loop pg lib xs) (\<lambda>resps. ret (Inr (resp @ resps))))) (batch_open st) (loop_ends st False)"
    if "st \<noteq> Status_Failed" for resp
    using rest[OF that] that unfolding implicit_tail_def
    by (cases st) (auto intro!: tracks_then tracks_calls_Cons tracks_calls_Nil simp: stopped_def split: if_splits)
  have "may_continue st b" using Cons.prems by simp
  then show ?case
    unfolding x implicit_loop.simps
    by (intro tracks_try tracks_conseq[OF follows_implicit_statement])
      (use tail in \<open>auto split: outcome.split sum.split\<close>)
qed (simp add: tracks_ret)

lemma follows_implicit_block:
  assumes "non_empty_statements stmts \<noteq> []"
  shows "follows (execute_with_implicit_block_spi pg lib stmts) (resting st) (ends_in (\<lambda>ok. batch_status ok st))"
proof -
  have abort: "follows (then_prog (calls pg [Tx AbortCurrentTransaction]) (ret (Inl e))) b
      (ends_in (\<lambda>ok. batch_status ok st) :: (error_info + response list) outcome \<Rightarrow> _)" if "stopped st b" for e b
    using that by (cases st) (auto intro!: follows_abort simp: stopped_def)
  show ?thesis
    unfolding execute_with_implicit_block_spi_def
    by (rule tracks_caught, rule tracks_conseq[OF follows_implicit_loop[where st = st]])
      (use assms abort in \<open>auto simp: may_continue_def split: outcome.split sum.split intro!: tracks_ret imageI,
        cases st, auto\<close>)
qed

lemma follows_dispatch:
  "follows (dispatch_statements pg lib stmts) (resting st) (ends_in (\<lambda>ok. dispatch_status stmts ok st))"
proof -
  have each: "follows (try_prog (for_each (\<lambda>(text, meta). execute_one_statement pg lib text meta) xs)
      (\<lambda>rs. ret (Inr (concat rs)))) (resting st) (ends_in (\<lambda>ok. stmts_status (map snd xs) ok st))" for xs
    by (rule tracks_try, rule tracks_conseq[OF follows_statements])
      (auto split: outcome.split sum.split intro!: tracks_ret)
  show ?thesis
    unfolding dispatch_statements_def dispatch_status_def
    using follows_implicit_block[of stmts pg lib st] each each[of "[]"] by (cases "non_empty_statements stmts = []") auto
qed

section \<open>The whole query\<close>

lemma tracks_obs_guard:
  assumes "tracks step body b Q" "\<And>p b. Q (Unwind p) b" "within (\<lambda>c. \<exists>d. c = Obs d) install"
    and "\<And>x. within (\<lambda>c. \<exists>d. c = Obs d) (drop_code x)" "\<And>d r b b'. step b (Obs d, r) = Some b' \<Longrightarrow> b' = b"
  shows "tracks step (bind_prog install (\<lambda>x. with_guard (drop_code x) body)) b Q"
proof (rule tracks_bind_within[OF assms(3)])
  fix x
  have drop_still: "tracks step (drop_code x) b (\<lambda>r b'. b' = b)" for b
    by (rule tracks_within[OF assms(4)]) (use assms(5) in auto)
  show "tracks step (with_guard (drop_code x) body) b Q"
    by (rule tracks_guard, rule tracks_conseq[OF assms(1)], rule tracks_conseq[OF drop_still])
      (auto split: outcome.split intro: assms(2))
qed (use assms(2,5) in auto)

lemma tracks_query_guards:
  assumes "tracks step body b Q" "\<And>p b. Q (Unwind p) b" "\<And>d r b b'. step b (Obs d, r) = Some b' \<Longrightarrow> b' = b"
  shows "tracks step (query_guards pg sql body) b Q"
  unfolding query_guards_def debug_query_guard_def statement_timeout_guard_def
  by (intro tracks_obs_guard assms(1,2))
    (auto simp: debug_query_install_def debug_query_drop_def timeout_install_def timeout_drop_def
      intro!: within_intros dest: assms(3))

text \<open>
  The server parses one query in one way: the runs in which the parser's answer is the
  value \<open>parsed\<close>, and the statements the code makes of it.
\<close>

definition parses_otherwise :: "bytes \<Rightarrow> pg_value \<Rightarrow> pg_call event \<Rightarrow> bool" where
  "parses_otherwise query parsed e \<longleftrightarrow> fst e = Fn (Raw_parser query) \<and> (\<exists>v. snd e = Val v \<and> v \<noteq> parsed)"

definition parsed_spi :: "bytes \<Rightarrow> pg_value \<Rightarrow> (bytes \<times> stmt_meta) list option" where
  "parsed_spi query parsed = slice_all query (extract_statement_spans (as_stmts parsed) (length query))"

definition refused_or_dispatched :: "bytes \<Rightarrow> pg_value \<Rightarrow> xact_status \<Rightarrow> (error_info + 'a) outcome \<Rightarrow> tblock \<Rightarrow> bool" where
  "refused_or_dispatched query parsed st r b =
    (case r of Unwind p \<Rightarrow> True
     | Val x \<Rightarrow> \<not> is_ok x \<and> b = resting st
         \<or> (\<exists>stmts. parsed_spi query parsed = Some stmts \<and> b \<in> resting ` dispatch_status stmts (is_ok x) st))"

lemma refused_or_dispatched_simps [simp]:
  "refused_or_dispatched query parsed st (Unwind p) b" "refused_or_dispatched query parsed st (Val (Inl e)) (resting st)"
  by (simp_all add: refused_or_dispatched_def)

abbreviation parsed_follows :: "bytes \<Rightarrow> pg_value \<Rightarrow> (pg_call, 's, 'r) prog \<Rightarrow> tblock \<Rightarrow> ('r outcome \<Rightarrow> tblock \<Rightarrow> bool) \<Rightarrow> bool" where
  "parsed_follows query parsed \<equiv> tracks (without (parses_otherwise query parsed) block_step)"

lemma parsed_follows_parse:
  "parsed_follows query parsed (parse_and_classify pg lib query) b
     (\<lambda>r b'. b' = b \<and> (\<forall>stmts. r = Val (Inr stmts) \<longrightarrow> parsed_spi query parsed = Some stmts))"
proof -
  let ?spans = "extract_statement_spans (as_stmts parsed) (length query)"
  have parse: "parsed_follows query parsed (parse_in_scratch pg query) b (\<lambda>r b'. b' = b \<and> (\<forall>spans. r = Val spans \<longrightarrow> spans = ?spans))"
    unfolding parse_in_scratch_def
    by (auto intro!: tracks_intros simp: without_def parses_otherwise_def split: if_splits)
  show ?thesis
    unfolding parse_and_classify_def slice_panic_def
    by (auto intro!: tracks_ret tracks_caught tracks_conseq[OF parse] tracks_panic simp: parsed_spi_def
      split: outcome.split option.split)
qed

lemma follows_simple_query:
  "parsed_follows query parsed (execute_simple_query pg lib query) (resting st) (refused_or_dispatched query parsed st)"
proof -
  have dispatched: "parsed_follows query parsed (dispatch_statements pg lib stmts) (resting st) (refused_or_dispatched query parsed st)"
    if "parsed_spi query parsed = Some stmts" for stmts
    by (rule tracks_without, rule tracks_conseq[OF follows_dispatch])
      (use that in \<open>auto simp: refused_or_dispatched_def ends_in_def split: outcome.splits\<close>)
  have body: "parsed_follows query parsed (try_prog (parse_and_classify pg lib query) (dispatch_statements pg lib)) (resting st)
      (refused_or_dispatched query parsed st)"
    by (rule tracks_try, rule tracks_conseq[OF parsed_follows_parse]) (auto split: outcome.split sum.split intro: dispatched)
  have still: "without (parses_otherwise query parsed) block_step b (Obs d, r) = Some b' \<Longrightarrow> b' = b" for d r b b'
    by (simp add: without_def split: if_splits)
  show ?thesis
    unfolding execute_simple_query_def
    by (auto intro!: tracks_query_guards tracks_ret body dest: still)
qed

lemma simple_query_ends:
  assumes "execute_simple_query pg lib query s = (r, t, s')" and "run_events block_step (resting st) t = Some b"
    and "\<forall>v. (Fn (Raw_parser query), Val v) \<in> set t \<longrightarrow> v = parsed"
  shows "refused_or_dispatched query parsed st r b"
proof -
  have "run_events (without (parses_otherwise query parsed) block_step) (resting st) t = Some b"
    by (rule run_without[OF assms(2)]) (use assms(3) in \<open>auto simp: parses_otherwise_def\<close>)
  then show ?thesis by (rule tracksD[OF follows_simple_query assms(1)])
qed

section \<open>An error the code makes itself\<close>

text \<open>
  Without an abort an error leaves the block open: \<open>with_spi\<close> closes the command as after
  a success.
\<close>

abbreviation aborts :: "pg_call event \<Rightarrow> bool" where
  "aborts e \<equiv> fst e = Tx AbortCurrentTransaction"

definition stays_open :: "'r outcome \<Rightarrow> tblock \<Rightarrow> bool" where
  "stays_open r b = (case r of Val x \<Rightarrow> b = TBLOCK_INPROGRESS | Unwind p \<Rightarrow> True)"

lemma stays_open_simps [simp]: "stays_open (Val x) b \<longleftrightarrow> b = TBLOCK_INPROGRESS" "stays_open (Unwind p) b"
  by (simp_all add: stays_open_def)

lemma unaborted_error:
  assumes "sm_xact meta = None"
  shows "tracks (without aborts block_step) (execute_one_statement pg lib query meta) TBLOCK_INPROGRESS stays_open"
proof -
  let ?step = "without aborts block_step"
  have session: "tracks ?step (spi_session pg (run_via_spi pg lib query fetch)) TBLOCK_INPROGRESS (\<lambda>r b. b = TBLOCK_INPROGRESS)" for fetch
    unfolding spi_session_def
    by (rule tracks_within[where P = "\<lambda>c. worker_call c \<or> (\<exists>d. c = Spi d)"])
      (auto intro!: within_intros within_mono[OF run_via_spi_worker] within_mono[OF spi_workers(1)]
        dest: block_step_worker simp: without_def split: if_splits)
  have close: "tracks ?step (then_prog (calls pg [Tx PopActiveSnapshot, Tx CommitTransactionCommand]) (ret x)) TBLOCK_INPROGRESS stays_open"
    for x :: "error_info + response list"
    by (auto intro!: tracks_intros simp: without_def)
  have abort: "tracks ?step (then_prog (calls pg [Tx AbortCurrentTransaction]) (ret x)) TBLOCK_INPROGRESS stays_open"
    for x :: "error_info + response list"
    by (auto intro!: tracks_intros simp: without_def)
  have tail: "tracks ?step (bind_prog (catch_unwind (spi_session pg (run_via_spi pg lib query fetch))) (\<lambda>result. case result of
         Inr (Inr value) \<Rightarrow> then_prog (calls pg [Tx PopActiveSnapshot, Tx CommitTransactionCommand]) (ret (Inr value))
       | Inr (Inl err) \<Rightarrow> then_prog (calls pg [Tx PopActiveSnapshot, Tx CommitTransactionCommand]) (ret (Inl err))
       | Inl payload \<Rightarrow> then_prog (calls pg [Tx AbortCurrentTransaction]) (ret (Inl (panic_to_pgwire payload)))))
      TBLOCK_INPROGRESS stays_open" for fetch
    by (rule tracks_caught, rule tracks_conseq[OF session]) (use close abort in \<open>auto split: outcome.split sum.split\<close>)
  show ?thesis
    unfolding execute_one_statement_def run_spi_statement_def with_spi_def
    using tail assms by (auto intro!: tracks_intros simp: without_def split: if_splits)
qed

text \<open>A \<open>COMMIT\<close> in an open block commits it: \<open>EndTransactionBlock\<close> answers true.\<close>

definition commits_block :: "pg_call event \<Rightarrow> bool" where
  "commits_block e \<longleftrightarrow> e = (Tx (EndTransactionBlock False), Val (V_Bool True))"

lemma open_block_commits:
  "tracks (without commits_block block_step) (handle_xact_control pg Xact_Commit) TBLOCK_INPROGRESS
    (\<lambda>r b. \<forall>x. r \<noteq> Val (Inr x))"
  unfolding handle_xact_control_def handle_xact_control_one_def xact_control_body_def
  by (rule tracks_try)
    (auto intro!: tracks_intros simp: without_def commits_block_def xact_is_noop_def xact_block_call_def split: if_splits)

section \<open>A server\<close>

text \<open>A server that answers as documented, parses \<open>BEGIN\<close> and rejects everything else with an SPI code.\<close>

fun block_answer :: "tblock \<Rightarrow> tx_call \<Rightarrow> pg_value" where
  "block_answer b (EndTransactionBlock chain) = V_Bool (b \<noteq> TBLOCK_ABORT)"
| "block_answer b IsTransactionBlock = V_Bool (b \<notin> {TBLOCK_DEFAULT, TBLOCK_STARTED})"
| "block_answer b IsAbortedTransactionBlockState = V_Bool (b = TBLOCK_ABORT)"
| "block_answer b c = V_Unit"

definition SPI_ERROR_COPY :: int where "SPI_ERROR_COPY = -2"

definition begin_parsed :: pg_value where
  "begin_parsed = V_Stmts (Some [Some \<lparr>rs_node = N_Transaction TRANS_STMT_BEGIN, rs_location = 0, rs_len = 0\<rparr>])"

definition block_server :: "(pg_call, tblock) pg_env" where
  "block_server c b =
    (case c of
       Tx d \<Rightarrow> (case block_next b d (block_answer b d) of
           Some b' \<Rightarrow> (Val (block_answer b d), b')
         | None \<Rightarrow> (Unwind Panic_Other, b))
     | Spi d \<Rightarrow> (Val (V_Int (case d of SPI_connect \<Rightarrow> SPI_OK_CONNECT | SPI_finish \<Rightarrow> SPI_OK_FINISH | _ \<Rightarrow> SPI_ERROR_COPY)), b)
     | Fn d \<Rightarrow> (Val begin_parsed, b)
     | _ \<Rightarrow> (Val V_Unit, b))"

text \<open>\<open>BEGIN\<close> to an idle session; \<open>COPY\<close> inside a block; and the \<open>COMMIT\<close> after it.\<close>

definition demo_begin :: "(error_info + response list) outcome \<times> pg_call event list \<times> tblock" where
  "demo_begin = execute_simple_query block_server demo_libs (lit ''BEGIN'') TBLOCK_DEFAULT"

definition demo_copy :: "(error_info + response list) outcome \<times> pg_call event list \<times> tblock" where
  "demo_copy = execute_one_statement block_server demo_libs (lit ''COPY t TO STDOUT'')
     \<lparr>sm_xact = None, sm_fetch_portalname = None\<rparr> TBLOCK_INPROGRESS"

definition demo_commit :: "(error_info + response list) outcome \<times> pg_call event list \<times> tblock" where
  "demo_commit = handle_xact_control block_server Xact_Commit TBLOCK_INPROGRESS"

lemma demo_begin_run:
  "fst demo_begin = Val (Inr [Execution (lit ''BEGIN'') None])" "snd (snd demo_begin) = TBLOCK_INPROGRESS"
  "run_events block_step (resting Status_Idle) (fst (snd demo_begin)) = Some TBLOCK_INPROGRESS"
  by code_simp+

lemma demo_begin_parsed:
  "\<forall>v. (Fn (Raw_parser (lit ''BEGIN'')), Val v) \<in> set (fst (snd demo_begin)) \<longrightarrow> v = begin_parsed"
proof -
  have "list_all (\<lambda>(c, r). case c of Fn f \<Rightarrow> (case f of Raw_parser q \<Rightarrow> r = Val begin_parsed | _ \<Rightarrow> True) | _ \<Rightarrow> True)
      (fst (snd demo_begin))"
    by code_simp
  then show ?thesis by (fastforce simp: list_all_iff)
qed

lemma demo_copy_run:
  "case fst demo_copy of Val (Inl e) \<Rightarrow> True | _ \<Rightarrow> False" "snd (snd demo_copy) = TBLOCK_INPROGRESS"
  "run_events block_step TBLOCK_INPROGRESS (fst (snd demo_copy)) = Some TBLOCK_INPROGRESS"
  "Tx AbortCurrentTransaction \<notin> fst ` set (fst (snd demo_copy))"
  by code_simp+

lemma demo_commit_run:
  "fst demo_commit = Val (Inr [Execution (lit ''COMMIT'') None])" "snd (snd demo_commit) = TBLOCK_DEFAULT"
  "run_events block_step TBLOCK_INPROGRESS (fst (snd demo_commit)) = Some TBLOCK_DEFAULT"
  by code_simp+

section \<open>What a client can rely on\<close>





end
