(* ===== verification/Direct_Status.thy ===== *)
theory Direct_Status
  imports Block_Status Simple_Direct
begin

text \<open>
  The status machine of a session on the direct path of \<open>backend/simple_direct.rs\<close>.  Here
  transaction control is a statement like any other: the server runs it inside a portal.
  The path follows the server's own protocol, on every error and in batches that mix
  transaction control with other statements.
\<close>

section \<open>The server's block with portals\<close>

text \<open>
  What the statement in a portal does to the block.  \<open>None\<close>: not covered, savepoints and
  two-phase commit.  A run with a procedure that ends the transaction, or with
  \<open>AND CHAIN\<close>, is not one this automaton describes.
\<close>

definition portal_block :: "raw_node \<Rightarrow> tblock \<Rightarrow> tblock option" where
  "portal_block node b =
    (case node of
       N_Transaction kind \<Rightarrow>
         (case kind of
            TRANS_STMT_BEGIN \<Rightarrow> block_next b BeginTransactionBlock V_Unit
          | TRANS_STMT_START \<Rightarrow> block_next b BeginTransactionBlock V_Unit
          | TRANS_STMT_COMMIT \<Rightarrow> block_next b (EndTransactionBlock False) (V_Bool (b \<noteq> TBLOCK_ABORT))
          | TRANS_STMT_ROLLBACK \<Rightarrow> block_next b (UserAbortTransactionBlock False) V_Unit
          | _ \<Rightarrow> None)
     | _ \<Rightarrow> Some b)"

text \<open>The block, and the statement whose command tag was made last: the one the next portal runs.\<close>

type_synonym portal_state = "tblock \<times> raw_node"

definition portal_step :: "portal_state \<Rightarrow> pg_call event \<Rightarrow> portal_state option" where
  "portal_step a e =
    (case e of
       (Tx c, Val v) \<Rightarrow> map_option (\<lambda>b. (b, snd a)) (block_next (fst a) c v)
     | (Exec (CreateCommandTag node), Val v) \<Rightarrow> Some (fst a, node)
     | (Exec (PortalRun p n m), Val v) \<Rightarrow> map_option (\<lambda>b. (b, snd a)) (portal_block (snd a) (fst a))
     | _ \<Rightarrow> Some a)"

definition quiet_call :: "pg_call \<Rightarrow> bool" where
  "quiet_call c \<longleftrightarrow> (\<forall>d. c \<noteq> Tx d) \<and> (\<forall>node. c \<noteq> Exec (CreateCommandTag node)) \<and> (\<forall>p n m. c \<noteq> Exec (PortalRun p n m))"

lemma portal_step_quiet: "quiet_call c \<Longrightarrow> portal_step a (c, r) = Some a"
  by (cases c) (auto simp: quiet_call_def portal_step_def split: outcome.split exec_call.split)

lemma portal_step_simps [simp]:
  "portal_step (b, cur) (Tx c, Val v) = map_option (\<lambda>b. (b, cur)) (block_next b c v)"
  "portal_step a (Tx c, Unwind p) = Some a"
  "portal_step (b, cur) (Exec (CreateCommandTag node), Val v) = Some (b, node)"
  "portal_step a (Exec (CreateCommandTag node), Unwind p) = Some a"
  "portal_step (b, cur) (Exec (PortalRun q n m), Val v) = map_option (\<lambda>b. (b, cur)) (portal_block cur b)"
  "portal_step a (Exec (PortalRun q n m), Unwind p) = Some a"
  by (simp_all add: portal_step_def)

lemma quiet_simps [simp]:
  "quiet_call (Fn f)" "quiet_call (Mem m)" "quiet_call (Spi d)" "quiet_call (Obs ob)" "quiet_call (Plan pl)" "\<not> quiet_call (Tx tc)"
  "quiet_call (Exec (GetCommandTagName t))" "quiet_call (Exec (Command_tag_display_rowcount t))"
  "quiet_call (Exec (PortalStart p q n r))" "quiet_call (Exec (Portal_tupDesc p))" "quiet_call (Exec InitializeQueryCompletion)"
  "quiet_call (Exec Qc_commandTag)" "quiet_call (Exec Qc_nprocessed)" "quiet_call (Exec (PortalDefineQuery p s t q' r'))"
  "quiet_call (Exec (PortalDrop p dd))" "quiet_call (Exec NEXT_ID_fetch_add)" "quiet_call (Exec (CreatePortal name dup silent))"
  "quiet_call (Exec (Analyze_fixedparams rs sql oids))" "quiet_call (Exec (Plan_queries qs sql))"
  by (simp_all add: quiet_call_def)

abbreviation runs :: "(pg_call, 's, 'r) prog \<Rightarrow> portal_state \<Rightarrow> ('r outcome \<Rightarrow> portal_state \<Rightarrow> bool) \<Rightarrow> bool" where
  "runs \<equiv> tracks portal_step"

lemma runs_quiet: "within quiet_call m \<Longrightarrow> runs m a (\<lambda>r b. b = a)"
  by (erule tracks_within) (simp add: portal_step_quiet)

lemma runs_quiet_bind:
  assumes "within quiet_call m" "\<And>x. runs (k x) a Q" "\<And>p. Q (Unwind p) a"
  shows "runs (bind_prog m k) a Q"
  by (rule tracks_bind_within[OF assms(1)]) (use assms(2,3) in \<open>auto simp: portal_step_quiet\<close>)

lemma runs_quiet_then:
  assumes "within quiet_call m" "runs k a Q" "\<And>p. Q (Unwind p) a"
  shows "runs (then_prog m k) a Q"
  unfolding then_prog_def by (rule runs_quiet_bind[OF assms])

section \<open>One statement in its portal\<close>

lemma quiet_rows [intro!]:
  "within quiet_call (column_encoder_for_column pg oid fmt)"
  "within quiet_call (schema_and_encoders_uniform pg lib td fmt)"
  "within quiet_call (encode_into pg enc datum buf)"
  "within quiet_call (receive_rows pg encs n slots rows)"
  "within quiet_call (fetch_result_format pg rs)"
  "within quiet_call (direct_response pg x)"
proof -
  show encoder: "within quiet_call (column_encoder_for_column pg oid fmt)" for oid fmt
    by (auto simp: column_encoder_for_column_def type_output_for_type_def type_send_for_type_def
        intro!: within_intros split: field_format.split)
  show "within quiet_call (schema_and_encoders_uniform pg lib td fmt)"
    by (auto simp: schema_and_encoders_uniform_def intro!: within_intros within_collect encoder)
  show encode: "within quiet_call (encode_into pg enc datum buf)" for enc datum buf
    by (auto simp: encode_into_def output_call_def intro!: within_intros)
  have columns: "within quiet_call (receive_columns pg cs buf)" for cs buf
    by (induction cs arbitrary: buf) (auto intro!: within_intros encode del: dest_plain receive_plain)
  show "within quiet_call (receive_rows pg encs n slots rows)"
    by (induction slots arbitrary: rows) (auto intro!: within_intros columns simp: wire_receive_slot_def del: receive_plain)
  show "within quiet_call (fetch_result_format pg rs)"
    by (auto simp: fetch_result_format_def portal_format_def intro!: within_intros split: raw_node.split option.split)
  show "within quiet_call (direct_response pg x)"
    by (auto simp: direct_response_def command_tag_name_def intro!: within_intros split: prod.split)
qed

text \<open>How a statement ends: on a result its portal has moved the block, on an unwind perhaps.\<close>

definition portal_ran :: "raw_node \<Rightarrow> tblock \<Rightarrow> 'r outcome \<Rightarrow> portal_state \<Rightarrow> bool" where
  "portal_ran node b r a =
    (portal_block node b = Some (fst a) \<or> (case r of Val x \<Rightarrow> False | Unwind p \<Rightarrow> fst a = b))"

lemma portal_ran_simps [simp]:
  "portal_ran node b (Val x) a \<longleftrightarrow> portal_block node b = Some (fst a)"
  "portal_ran node b (Unwind p) a \<longleftrightarrow> portal_block node b = Some (fst a) \<or> fst a = b"
  by (auto simp: portal_ran_def)

text \<open>A piece that makes none of the calls the automaton follows, after the portal ran.\<close>

lemma runs_quiet_after:
  "within quiet_call m \<Longrightarrow> portal_block node b = Some (fst a) \<Longrightarrow> runs m a (portal_ran node b)"
  by (erule tracks_conseq[OF runs_quiet]) (auto simp: portal_ran_def)

lemma runs_direct_portal_run: "runs (direct_portal_run pg lib rs portal) (b, node) (portal_ran node b)"
proof -
  have rows: "runs (bind_prog (call pg (Exec (PortalRun portal i64_MAX True))) (\<lambda>slots.
                bind_prog (receive_rows pg encoders n (as_rows slots) []) (\<lambda>data_rows.
                  bind_prog (call pg (Exec Qc_commandTag)) (\<lambda>tag.
                    bind_prog (call pg (Exec Qc_nprocessed)) (\<lambda>m.
                      ret (schema, data_rows, as_int tag, nat (as_int m)))))))
       (b, node) (portal_ran node b)" for encoders n and schema :: "field_info list"
    by (rule tracks_call_bind) (auto intro!: runs_quiet_after within_intros)
  show ?thesis
    unfolding direct_portal_run_def
    by (intro runs_quiet_then runs_quiet_bind)
      (auto intro!: within_intros rows runs_quiet_then split: option.split prod.split)
qed

lemma runs_anonymous_portal:
  assumes "\<And>portal. runs (body portal) (b, node) (portal_ran node b)"
  shows "runs (with_anonymous_portal pg body) (b, node) (portal_ran node b)"
proof -
  have drop: "runs (with_guard (case as_ptr v of None \<Rightarrow> ret () | Some p \<Rightarrow> calls pg [Exec (PortalDrop p False)])
      (body (as_handle v))) (b, node) (portal_ran node b)" for v
    by (rule tracks_guard, rule tracks_conseq[OF assms], rule tracks_conseq[OF runs_quiet])
      (auto simp: portal_ran_def split: option.split outcome.splits intro!: within_intros)
  show ?thesis
    unfolding with_anonymous_portal_def index_panic_def
    by (intro runs_quiet_bind) (auto intro!: within_intros runs_quiet_bind drop tracks_panic split: option.split)
qed

lemma runs_direct_response: "runs (direct_response pg x) a (\<lambda>r b. b = a \<and> (\<forall>e. r \<noteq> Val (Inl e)))"
proof -
  have tag: "runs (command_tag_name pg tag) a (\<lambda>r b. b = a)" for tag
    unfolding command_tag_name_def by (rule runs_quiet) (auto intro!: within_intros)
  have shown: "runs (bind_prog (call pg (Exec (Command_tag_display_rowcount tag))) (\<lambda>display. ret (Inr (f display))))
      a (\<lambda>r b. b = a \<and> (\<forall>e. r \<noteq> Val (Inl e)))" for tag and f :: "pg_value \<Rightarrow> response"
    by (rule runs_quiet_bind) (auto intro!: within_intros tracks_ret)
  obtain schema rows tag n where x: "x = (schema, rows, tag, n)" by (cases x)
  show ?thesis
    unfolding direct_response_def x prod.case
    by (rule tracks_bind, rule tracks_conseq[OF tag], cases "schema = []")
      (use shown in \<open>auto intro!: tracks_ret split: outcome.split\<close>)
qed

text \<open>A statement returns no error of its own: it unwinds.\<close>

definition statement_ran :: "raw_stmt \<Rightarrow> tblock \<Rightarrow> ('e + 'a) outcome \<Rightarrow> portal_state \<Rightarrow> bool" where
  "statement_ran rs b r a \<longleftrightarrow> portal_ran (rs_node rs) b r a \<and> (\<forall>e. r \<noteq> Val (Inl e))"

lemma runs_one_direct: "runs (run_one_direct pg lib rs sql ctx) (b, cur) (statement_ran rs b)"
proof -
  have unwound: "statement_ran rs b (Unwind p) (b, c)" for p c by (simp add: statement_ran_def)
  have portal: "runs (with_anonymous_portal pg (\<lambda>portal.
                  then_prog (calls pg [Exec (PortalDefineQuery portal sql tag plans None), Mem (MemoryContextSwitchTo prev)])
                    (direct_portal_run pg lib rs portal))) (b, rs_node rs) (portal_ran (rs_node rs) b)" for tag plans prev
    by (intro runs_anonymous_portal runs_quiet_then) (auto intro!: within_intros runs_direct_portal_run)
  have tail: "runs (bind_prog (with_anonymous_portal pg (\<lambda>portal.
                  then_prog (calls pg [Exec (PortalDefineQuery portal sql tag plans None), Mem (MemoryContextSwitchTo prev)])
                    (direct_portal_run pg lib rs portal))) (direct_response pg)) (b, rs_node rs) (statement_ran rs b)"
    for tag plans prev
    by (rule tracks_bind, rule tracks_conseq[OF portal])
      (auto split: outcome.split simp: statement_ran_def portal_ran_def intro!: tracks_conseq[OF runs_direct_response])
  have planned: "runs (bind_prog (call pg (Mem (MemoryContextSwitchTo ctx))) (\<lambda>prev_ctx.
          bind_prog (call pg (Exec (Analyze_fixedparams rs sql []))) (\<lambda>query_list.
            bind_prog (call pg (Exec (Plan_queries (as_ptr query_list) sql))) (\<lambda>plan_list.
              bind_prog (with_anonymous_portal pg (\<lambda>portal.
                  then_prog (calls pg [Exec (PortalDefineQuery portal sql tag (as_ptr plan_list) None),
                                       Mem (MemoryContextSwitchTo (as_handle prev_ctx))])
                    (direct_portal_run pg lib rs portal))) (direct_response pg)))))
      (b, rs_node rs) (statement_ran rs b)" for tag
    by (intro runs_quiet_bind tail) (auto intro!: within_intros unwound)
  have ids: "within quiet_call (report_ids_reset pg)" unfolding report_ids_reset_def by (auto intro!: within_intros)
  show ?thesis
    unfolding run_one_direct_def
    by (rule runs_quiet_then[OF ids], rule tracks_call_bind) (auto intro: planned unwound)
qed

section \<open>The status of the session\<close>

text \<open>
  Where a statement may take the session on this path, by its result.  An error in a block
  fails it, whoever makes it; a statement that ends the block may have ended it before the
  error.  Savepoints and two-phase commit are not covered.
\<close>

fun begin_direct :: "bool \<Rightarrow> xact_status \<Rightarrow> xact_status set" where
  "begin_direct done Status_Idle = (if done then {Status_In_Block} else {Status_Idle})"
| "begin_direct done Status_In_Block = (if done then {Status_In_Block} else {Status_Failed})"
| "begin_direct done Status_Failed = (if done then {} else {Status_Failed})"

fun exit_direct :: "bool \<Rightarrow> xact_status \<Rightarrow> xact_status set" where
  "exit_direct done Status_Idle = {Status_Idle}"
| "exit_direct done _ = (if done then {Status_Idle} else {Status_Idle, Status_Failed})"

definition direct_status :: "raw_stmt \<Rightarrow> bool \<Rightarrow> xact_status \<Rightarrow> xact_status set" where
  "direct_status rs =
    (case rs_node rs of
       N_Transaction kind \<Rightarrow>
         (case kind of TRANS_STMT_BEGIN \<Rightarrow> begin_direct | TRANS_STMT_START \<Rightarrow> begin_direct
          | TRANS_STMT_COMMIT \<Rightarrow> exit_direct | TRANS_STMT_ROLLBACK \<Rightarrow> exit_direct
          | _ \<Rightarrow> (\<lambda>done st. if done then {} else batch_status False st))
     | _ \<Rightarrow> batch_status)"

text \<open>A query of any length: its statements in order, up to the first error.\<close>

fun direct_statuses :: "raw_stmt list \<Rightarrow> bool \<Rightarrow> xact_status \<Rightarrow> xact_status set" where
  "direct_statuses [] done st = (if done then {st} else {})"
| "direct_statuses (rs # rss) done st =
    (\<Union>st1 \<in> direct_status rs True st. direct_statuses rss done st1) \<union> (if done then {} else direct_status rs False st)"

text \<open>The block while a statement runs, and where an abort takes it.\<close>

definition in_statement :: "raw_stmt \<Rightarrow> xact_status \<Rightarrow> tblock \<Rightarrow> bool" where
  "in_statement rs st b \<longleftrightarrow>
    (case st of Status_Idle \<Rightarrow> b = TBLOCK_STARTED \<or> b = TBLOCK_IMPLICIT_INPROGRESS
     | Status_In_Block \<Rightarrow> b = TBLOCK_INPROGRESS
     | Status_Failed \<Rightarrow> b = TBLOCK_ABORT \<and> is_transaction_exit_stmt rs)"

definition aborts_to :: "(bool \<Rightarrow> xact_status set) \<Rightarrow> tblock \<Rightarrow> bool" where
  "aborts_to S b \<longleftrightarrow> (if b \<in> {TBLOCK_INPROGRESS, TBLOCK_ABORT} then TBLOCK_ABORT else TBLOCK_DEFAULT) \<in> resting ` S False"

lemmas direct_status_simps = direct_status_def in_statement_def aborts_to_def portal_block_def is_transaction_exit_stmt_def
  is_transaction_stmt_def

lemma statement_aborts:
  assumes "in_statement rs st b" "b' = b \<or> portal_block (rs_node rs) b = Some b'"
  shows "aborts_to (\<lambda>ok. direct_status rs ok st) b'"
  using assms
  by (cases st) (auto simp: direct_status_simps split: raw_node.splits txn_kind.splits if_splits)

lemma statement_commits:
  assumes "in_statement rs st b" "portal_block (rs_node rs) b = Some b'" "b \<noteq> TBLOCK_IMPLICIT_INPROGRESS \<or> is_transaction_stmt rs"
    and "block_next b' CommitTransactionCommand v = Some c"
  shows "c \<in> resting ` direct_status rs True st"
  using assms
  by (cases st) (auto simp: direct_status_simps split: raw_node.splits txn_kind.splits if_splits)

abbreviation session_in :: "(bool \<Rightarrow> xact_status set) \<Rightarrow> ('e + 'a) outcome \<Rightarrow> portal_state \<Rightarrow> bool" where
  "session_in S r a \<equiv> ends_in S r (fst a)"

lemma runs_abort:
  assumes "aborts_to S (fst a)"
  shows "runs (then_prog (calls pg [Tx AbortCurrentTransaction]) (ret (Inl e))) a (session_in S)"
  using assms by (cases a) (auto intro!: tracks_intros simp: aborts_to_def split: if_splits)

section \<open>A single statement\<close>

lemma runs_with_xact:
  fixes pg :: "(pg_call, 's) pg_env"
  assumes "st = Status_Failed \<Longrightarrow> is_transaction_exit_stmt rs"
  shows "runs (with_xact pg needs (run_one_direct pg lib rs sql ctx)) (resting st, cur) (session_in (\<lambda>ok. direct_status rs ok st))"
proof -
  let ?S = "\<lambda>ok. direct_status rs ok st" and ?body = "run_one_direct pg lib rs sql ctx"
  let ?close = "\<lambda>outcome. case outcome of
          Inr (Inr value) \<Rightarrow> then_prog (xact_close pg needs) (ret (Inr value))
        | Inr (Inl err) \<Rightarrow> then_prog (xact_close pg needs) (ret (Inl err))
        | Inl payload \<Rightarrow> then_prog (calls pg [Tx AbortCurrentTransaction]) (ret (Inl (panic_to_pgwire payload)))"
  have opened: "runs (calls pg ([Tx SetCurrentStatementStartTimestamp, Tx StartTransactionCommand]
        @ (if needs then [Tx GetTransactionSnapshot, Tx PushActiveSnapshot] else []))) (resting st, cur)
      (\<lambda>r a. case r of Val _ \<Rightarrow> in_statement rs st (fst a) \<and> fst a \<noteq> TBLOCK_IMPLICIT_INPROGRESS | Unwind p \<Rightarrow> True)"
    using assms by (cases needs; cases st) (auto intro!: tracks_calls_Cons tracks_calls_Nil simp: in_statement_def)
  have close: "runs (then_prog (xact_close pg needs) (ret (Inr x :: error_info + response))) a (session_in ?S)"
    if "in_statement rs st b" "b \<noteq> TBLOCK_IMPLICIT_INPROGRESS" "portal_block (rs_node rs) b = Some (fst a)" for a b x
    unfolding xact_close_def using statement_commits[OF that(1,3)] that(2)
    by (cases a; cases needs) (auto intro!: tracks_intros)
  have run: "runs (bind_prog (catch_unwind ?body) ?close) (b, c) (session_in ?S)"
    if b: "in_statement rs st b" "b \<noteq> TBLOCK_IMPLICIT_INPROGRESS" for b c
    by (rule tracks_caught, rule tracks_conseq[OF runs_one_direct])
      (use close[OF b] statement_aborts[OF b(1)] in
        \<open>auto simp: statement_ran_def split: outcome.split sum.split intro!: runs_abort\<close>)
  show ?thesis
    unfolding with_xact_def
    by (rule tracks_then, rule tracks_conseq[OF opened]) (use run in \<open>auto split: outcome.split\<close>)
qed

lemma runs_aborted_check:
  assumes "st \<noteq> Status_Failed \<or> is_transaction_exit_stmt rs \<Longrightarrow> runs k (b, cur) Q"
    and "b \<in> {resting st, batch_open st}" "st = Status_Failed \<Longrightarrow> \<not> is_transaction_exit_stmt rs \<Longrightarrow> runs refuse (b, cur) Q" "\<And>p. Q (Unwind p) (b, cur)"
  shows "runs (bind_prog (call pg (Tx IsAbortedTransactionBlockState)) (\<lambda>aborted.
     if as_bool aborted \<and> \<not> is_transaction_exit_stmt rs then refuse else k)) (b, cur) Q"
  using assms by (intro tracks_call_bind; cases st) (auto split: if_splits)

lemma runs_single_direct:
  "runs (execute_single_direct pg lib sql ctx rs) (resting st, cur) (session_in (\<lambda>ok. direct_status rs ok st))"
proof -
  have gate: "runs (bind_prog (call pg (Fn (Analyze_requires_snapshot rs))) (\<lambda>needs.
        with_xact pg (as_bool needs) (run_one_direct pg lib rs sql ctx))) (resting st, cur) (session_in (\<lambda>ok. direct_status rs ok st))"
    if "st = Status_Failed \<Longrightarrow> is_transaction_exit_stmt rs"
    by (rule runs_quiet_bind) (auto intro!: within_intros runs_with_xact that)
  have refused: "TBLOCK_ABORT \<in> resting ` direct_status rs False Status_Failed"
    by (auto simp: direct_status_def image_iff split: raw_node.split txn_kind.split)
  show ?thesis
    unfolding execute_single_direct_def
    by (rule runs_aborted_check[where st = st]) (use gate refused in \<open>auto intro!: tracks_ret\<close>)
qed

section \<open>Several statements\<close>

text \<open>An error before the portal has run: the block is where the statement found it.\<close>

lemma stopped_aborts: "stopped st b \<Longrightarrow> aborts_to (\<lambda>ok. direct_status rs ok st) b"
  by (cases st) (auto simp: stopped_def direct_status_simps image_iff split: raw_node.split txn_kind.split)

definition implicit_ran :: "raw_stmt \<Rightarrow> xact_status \<Rightarrow> ('e + 'a) outcome \<Rightarrow> portal_state \<Rightarrow> bool" where
  "implicit_ran rs st r a =
    (case r of Val (Inr x) \<Rightarrow> (\<exists>b. in_statement rs st b \<and> b \<noteq> TBLOCK_STARTED \<and> portal_block (rs_node rs) b = Some (fst a))
     | _ \<Rightarrow> aborts_to (\<lambda>ok. direct_status rs ok st) (fst a))"

lemma implicit_ran_simps [simp]:
  "implicit_ran rs st (Val (Inr x)) a \<longleftrightarrow> (\<exists>b. in_statement rs st b \<and> b \<noteq> TBLOCK_STARTED \<and> portal_block (rs_node rs) b = Some (fst a))"
  "implicit_ran rs st (Val (Inl e)) a \<longleftrightarrow> aborts_to (\<lambda>ok. direct_status rs ok st) (fst a)"
  "implicit_ran rs st (Unwind p) a \<longleftrightarrow> aborts_to (\<lambda>ok. direct_status rs ok st) (fst a)"
  by (simp_all add: implicit_ran_def)

lemma may_continue_stopped: "may_continue st b \<Longrightarrow> stopped st b"
  by (cases st) (auto simp: may_continue_def stopped_def)

lemma runs_implicit_open:
  assumes "may_continue st b" "st = Status_Failed \<Longrightarrow> is_transaction_exit_stmt rs"
  shows "runs (implicit_open pg needs) (b, cur)
    (\<lambda>r a. case r of Val _ \<Rightarrow> in_statement rs st (fst a) \<and> fst a \<noteq> TBLOCK_STARTED | Unwind p \<Rightarrow> stopped st (fst a))"
  unfolding implicit_open_def using assms
  by (cases needs; cases st)
    (auto intro!: tracks_calls_Cons tracks_calls_Nil simp: in_statement_def may_continue_def stopped_def split: if_splits)

lemma runs_implicit_close:
  assumes "implicit_ran rs st (Val x) a"
  shows "runs (then_prog (implicit_close pg needs) (ret x)) a (implicit_ran rs st)"
proof -
  have stay: "implicit_ran rs st (Unwind p) a" for p
    using assms statement_aborts by (auto simp: implicit_ran_def split: sum.splits)
  show ?thesis
    unfolding implicit_close_def using assms stay by (cases a; cases needs) (auto intro!: tracks_intros)
qed

lemma runs_implicit_direct:
  assumes "may_continue st b"
  shows "runs (implicit_direct_statement pg lib sql ctx rs) (b, cur) (implicit_ran rs st)"
proof -
  let ?run = "\<lambda>needs. bind_prog (run_one_direct pg lib rs sql ctx) (\<lambda>resp.
            then_prog (implicit_close pg needs) (ret resp))"
  have refused: "aborts_to (\<lambda>ok. direct_status rs ok st) b"
    by (rule stopped_aborts, rule may_continue_stopped, rule assms)
  have run: "runs (?run needs) (b', cur') (implicit_ran rs st)" if "in_statement rs st b'" "b' \<noteq> TBLOCK_STARTED" for needs b' cur'
    by (rule tracks_bind, rule tracks_conseq[OF runs_one_direct])
      (use statement_aborts[OF that(1)] that in \<open>auto simp: statement_ran_def split: outcome.split
        intro!: runs_implicit_close, auto simp: implicit_ran_def split: sum.split\<close>)
  have gate: "runs (bind_prog (call pg (Fn (Analyze_requires_snapshot rs))) (\<lambda>needs.
        then_prog (implicit_open pg (as_bool needs)) (?run (as_bool needs)))) (b, cur) (implicit_ran rs st)"
    if "st = Status_Failed \<Longrightarrow> is_transaction_exit_stmt rs"
    by (rule runs_quiet_bind, rule_tac [2] tracks_then, rule_tac [2] tracks_conseq[OF runs_implicit_open[OF assms that]])
      (use run refused in \<open>auto intro!: within_intros stopped_aborts split: outcome.split\<close>)
  show ?thesis
    unfolding implicit_direct_statement_def
    by (rule runs_aborted_check[where st = st]) (use gate refused assms in \<open>auto intro!: tracks_ret simp: may_continue_def\<close>)
qed

definition tail_done :: "bool \<Rightarrow> raw_stmt \<Rightarrow> xact_status \<Rightarrow> 'r outcome \<Rightarrow> portal_state \<Rightarrow> bool" where
  "tail_done is_last rs st r a =
    (case r of Val x \<Rightarrow> (\<exists>st1 \<in> direct_status rs True st. if is_last then fst a = resting st1 else may_continue st1 (fst a))
     | Unwind p \<Rightarrow> aborts_to (\<lambda>ok. direct_status rs ok st) (fst a))"

lemma tail_done_simps [simp]:
  "tail_done is_last rs st (Val x) a \<longleftrightarrow> (\<exists>st1 \<in> direct_status rs True st. if is_last then fst a = resting st1 else may_continue st1 (fst a))"
  "tail_done is_last rs st (Unwind p) a \<longleftrightarrow> aborts_to (\<lambda>ok. direct_status rs ok st) (fst a)"
  by (simp_all add: tail_done_def)

lemma plain_statement:
  assumes "in_statement rs st b" "portal_block (rs_node rs) b = Some b'" "\<not> is_transaction_stmt rs"
  shows "b' = b \<and> st \<in> direct_status rs True st \<and> st \<noteq> Status_Failed"
  using assms by (cases st) (auto simp: direct_status_simps split: raw_node.splits)

lemma runs_direct_tail:
  assumes "in_statement rs st b" "portal_block (rs_node rs) b = Some (fst a)"
    and "b \<noteq> TBLOCK_STARTED"
  shows "runs (direct_tail pg is_last rs) a (tail_done is_last rs st)"
proof -
  obtain b' cur where a: "a = (b', cur)" by (cases a)
  have b': "portal_block (rs_node rs) b = Some b'" using assms(2) a by simp
  have unwound: "aborts_to (\<lambda>ok. direct_status rs ok st) b'" by (rule statement_aborts[OF assms(1)]) (use b' in simp)
  have unwound_end: "aborts_to (\<lambda>ok. direct_status rs ok st) (if b' = TBLOCK_IMPLICIT_INPROGRESS then TBLOCK_STARTED else b')"
    using unwound by (auto simp: aborts_to_def)
  show ?thesis
  proof (cases "is_transaction_stmt rs")
    case True
    then have commits: "c \<in> resting ` direct_status rs True st" if "block_next b' CommitTransactionCommand v = Some c" for c v
      using statement_commits[OF assms(1) b' _ that] by simp
    have "b' \<noteq> TBLOCK_IMPLICIT_INPROGRESS"
      using True assms(1) b' by (cases st) (auto simp: direct_status_simps split: raw_node.splits txn_kind.splits if_splits)
    then show ?thesis
      unfolding direct_tail_def a using commits unwound True
      by (auto intro!: tracks_calls_Cons tracks_calls_Nil simp: may_continue_def image_iff split: if_splits simp del: block_next.simps(2))
        (auto simp: may_continue_def)
  next
    case False
    note plain = plain_statement[OF assms(1) b' False]
    then have "b' = batch_open st" using assms(1,3) False by (cases st) (auto simp: in_statement_def)
    moreover have "tail_done is_last rs st (Val x) (c, cur)"
      if "if is_last then c = resting st else may_continue st c" for x :: unit and c
      using that plain by (auto intro!: bexI[of _ st])
    ultimately show ?thesis
      unfolding direct_tail_def a using plain False unwound unwound_end
      by (cases st) (auto intro!: tracks_calls_Cons tracks_calls_Nil simp: may_continue_def simp del: tail_done_simps(1))
  qed
qed

definition loop_ran :: "raw_stmt list \<Rightarrow> xact_status \<Rightarrow> ('e + 'a) outcome \<Rightarrow> portal_state \<Rightarrow> bool" where
  "loop_ran rss st r a =
    (case r of Val (Inr x) \<Rightarrow> fst a \<in> resting ` direct_statuses rss True st
     | _ \<Rightarrow> aborts_to (\<lambda>ok. direct_statuses rss ok st) (fst a))"

lemma loop_ran_simps [simp]:
  "loop_ran rss st (Val (Inr x)) a \<longleftrightarrow> fst a \<in> resting ` direct_statuses rss True st"
  "loop_ran rss st (Val (Inl e)) a \<longleftrightarrow> aborts_to (\<lambda>ok. direct_statuses rss ok st) (fst a)"
  "loop_ran rss st (Unwind p) a \<longleftrightarrow> aborts_to (\<lambda>ok. direct_statuses rss ok st) (fst a)"
  by (simp_all add: loop_ran_def)

lemma aborts_to_mono: "aborts_to S b \<Longrightarrow> S False \<subseteq> S' False \<Longrightarrow> aborts_to S' b"
  unfolding aborts_to_def by (metis image_mono subsetD)

lemma statuses_abort:
  "aborts_to (\<lambda>ok. direct_status rs ok st) b \<Longrightarrow> aborts_to (\<lambda>ok. direct_statuses (rs # rss) ok st) b"
  "aborts_to (\<lambda>ok. direct_statuses rss ok st1) b \<Longrightarrow> st1 \<in> direct_status rs True st \<Longrightarrow> aborts_to (\<lambda>ok. direct_statuses (rs # rss) ok st) b"
  by (erule aborts_to_mono; auto)+

lemma runs_direct_loop:
  assumes "if rss = [] then b = resting st else may_continue st b"
  shows "runs (direct_loop pg lib sql ctx rss) (b, cur) (loop_ran rss st)"
  using assms
proof (induction rss arbitrary: b cur st)
  case (Cons rs rss)
  have rest: "runs (try_prog (direct_loop pg lib sql ctx rss) (\<lambda>resps. ret (Inr (resp # resps)))) (b', cur') (loop_ran (rs # rss) st)"
    if "st1 \<in> direct_status rs True st" "if rss = [] then b' = resting st1 else may_continue st1 b'" for resp b' cur' st1
    by (rule tracks_try, rule tracks_conseq[OF Cons.IH[OF that(2)]])
      (use that(1) statuses_abort(2)[OF _ that(1)] in \<open>auto split: outcome.split sum.split intro!: tracks_ret simp del: direct_statuses.simps,
        auto\<close>)
  have tail: "runs (then_prog (direct_tail pg (rss = []) rs)
      (try_prog (direct_loop pg lib sql ctx rss) (\<lambda>resps. ret (Inr (resp # resps))))) a (loop_ran (rs # rss) st)"
    if "in_statement rs st b'" "portal_block (rs_node rs) b' = Some (fst a)" "b' \<noteq> TBLOCK_STARTED" for resp a b'
    by (rule tracks_then, rule tracks_conseq[OF runs_direct_tail[OF that]])
      (use rest in \<open>auto split: outcome.split if_splits intro!: statuses_abort(1) simp del: direct_statuses.simps\<close>)
  have "may_continue st b" using Cons.prems by simp
  then show ?case
    unfolding direct_loop.simps
    by (intro tracks_try tracks_conseq[OF runs_implicit_direct])
      (use tail in \<open>auto split: outcome.split sum.split intro!: statuses_abort(1) simp del: direct_statuses.simps\<close>)
qed (simp add: tracks_ret)

lemma runs_implicit_batch:
  fixes stmts defines "rss \<equiv> map snd (non_empty_statements stmts)"
  shows "runs (execute_with_implicit_block pg lib sql ctx stmts) (resting st, cur) (session_in (\<lambda>ok. direct_statuses rss ok st))"
proof -
  have loop: "runs (direct_loop pg lib sql ctx rss) (resting st, cur) (loop_ran rss st)"
    by (rule runs_direct_loop) (simp add: may_continue_def)
  show ?thesis
    unfolding execute_with_implicit_block_def rss_def[symmetric]
    by (rule tracks_caught, rule tracks_conseq[OF loop])
      (auto split: outcome.split sum.split intro!: tracks_ret runs_abort)
qed

lemma runs_dispatch_direct:
  "runs (dispatch_direct pg lib sql stmts ctx) (resting st, cur)
     (session_in (\<lambda>ok. direct_statuses (map snd (non_empty_statements stmts)) ok st))"
proof -
  have one: "runs (for_each (\<lambda>(text, rs). execute_single_direct pg lib sql ctx rs) [(query, rs)]) (resting st, cur)
      (session_in (\<lambda>ok. direct_statuses [rs] ok st))" for query rs
    by (simp only: for_each.simps prod.case, rule tracks_try, rule tracks_conseq[OF runs_single_direct])
      (auto split: outcome.split sum.split intro!: tracks_ret tracks_try)
  consider (several) "length (non_empty_statements stmts) > 1" | (empty) "non_empty_statements stmts = []"
    | (single) query rs where "non_empty_statements stmts = [(query, rs)]"
    by (cases "non_empty_statements stmts" rule: list.exhaust; cases "tl (non_empty_statements stmts)") force+
  then show ?thesis
  proof cases
    case several then show ?thesis unfolding dispatch_direct_def using runs_implicit_batch by simp
  next
    case empty then show ?thesis unfolding dispatch_direct_def by (simp add: tracks_ret)
  next
    case single then show ?thesis unfolding dispatch_direct_def using one by simp
  qed
qed

section \<open>The whole query\<close>

text \<open>The statements a query is parsed into when the server's parser answers \<open>parsed\<close>.\<close>

definition parsed_direct :: "bytes \<Rightarrow> pg_value \<Rightarrow> (bytes \<times> raw_stmt) list option" where
  "parsed_direct query parsed = slice_all query (extract_raw_stmt_spans (as_stmts parsed) (length query))"

definition refused_or_ran :: "bytes \<Rightarrow> pg_value \<Rightarrow> xact_status \<Rightarrow> ('e + 'a) outcome \<Rightarrow> portal_state \<Rightarrow> bool" where
  "refused_or_ran query parsed st r a =
    (case r of Unwind p \<Rightarrow> True
     | Val x \<Rightarrow> \<not> is_ok x \<and> fst a = resting st
         \<or> (\<exists>stmts. parsed_direct query parsed = Some stmts
              \<and> fst a \<in> resting ` direct_statuses (map snd (non_empty_statements stmts)) (is_ok x) st))"

lemma refused_or_ran_simps [simp]:
  "refused_or_ran query parsed st (Unwind p) a" "refused_or_ran query parsed st (Val (Inl e)) (resting st, cur)"
  by (simp_all add: refused_or_ran_def)

abbreviation parsed_runs :: "bytes \<Rightarrow> pg_value \<Rightarrow> (pg_call, 's, 'r) prog \<Rightarrow> portal_state \<Rightarrow> ('r outcome \<Rightarrow> portal_state \<Rightarrow> bool) \<Rightarrow> bool" where
  "parsed_runs query parsed \<equiv> tracks (without (parses_otherwise query parsed) portal_step)"

lemma parsed_runs_quiet_bind:
  assumes "within quiet_call m" "\<And>x. parsed_runs query parsed (k x) a Q" "\<And>p. Q (Unwind p) a"
  shows "parsed_runs query parsed (bind_prog m k) a Q"
  by (rule tracks_bind_within[OF assms(1)]) (use assms(2,3) in \<open>auto simp: portal_step_quiet without_def split: if_splits\<close>)

lemma parsed_runs_memory:
  assumes "parsed_runs query parsed body a Q" "\<And>p b. Q (Unwind p) b"
  shows "parsed_runs query parsed (with_guard (calls pg [Mem d]) body) a Q"
proof -
  have drop: "parsed_runs query parsed (calls pg [Mem d]) b (\<lambda>r b'. b' = b)" for b
    by (rule tracks_without, rule runs_quiet) (auto intro!: within_intros)
  show ?thesis
    by (rule tracks_guard, rule tracks_conseq[OF assms(1)], rule tracks_conseq[OF drop])
      (auto split: outcome.split intro: assms(2))
qed

definition spans_of :: "bytes \<Rightarrow> pg_value \<Rightarrow> (int \<times> int \<times> raw_stmt) list outcome \<Rightarrow> bool" where
  "spans_of query parsed r = (case r of Val spans \<Rightarrow> spans = extract_raw_stmt_spans (as_stmts parsed) (length query) | Unwind p \<Rightarrow> True)"

lemma parsed_runs_parse:
  "parsed_runs query parsed (parse_in_context pg query ctx) a (\<lambda>r b. b = a \<and> spans_of query parsed r)"
proof -
  let ?body = "bind_prog (call pg (Fn (Raw_parser query))) (\<lambda>v. ret (extract_raw_stmt_spans (as_stmts v) (length query)))"
  have body: "parsed_runs query parsed ?body a (\<lambda>r b. b = a \<and> spans_of query parsed r)"
    by (rule tracks_call_bind)
      (auto intro!: tracks_ret simp: without_def parses_otherwise_def spans_of_def portal_step_quiet split: if_splits)
  have drop: "parsed_runs query parsed (calls pg [Mem d]) a (\<lambda>r b. b = a)" for d
    by (rule tracks_without, rule runs_quiet) (auto intro!: within_intros)
  have "parsed_runs query parsed (with_guard (calls pg [Mem d]) ?body) a (\<lambda>r b. b = a \<and> spans_of query parsed r)" for d
    by (rule tracks_guard, rule tracks_conseq[OF body], erule conjE, hypsubst, rule tracks_conseq[OF drop])
      (auto simp: spans_of_def split: outcome.splits)
  then show ?thesis
    unfolding parse_in_context_def switched_to_def
    by (intro parsed_runs_quiet_bind) (auto intro!: within_intros simp: spans_of_def)
qed

lemma runs_simple_query_direct:
  "parsed_runs query parsed (execute_simple_query_direct pg lib query) (resting st, cur) (refused_or_ran query parsed st)"
proof -
  let ?k = "\<lambda>stmts ctx. query_guards pg query (dispatch_direct pg lib query stmts ctx)"
  have run: "parsed_runs query parsed (?k stmts ctx) (resting st, cur) (refused_or_ran query parsed st)"
    if "parsed_direct query parsed = Some stmts" for stmts ctx
    by (rule tracks_without, rule tracks_query_guards, rule tracks_conseq[OF runs_dispatch_direct])
      (use that in \<open>auto simp: refused_or_ran_def ends_in_def portal_step_quiet split: outcome.splits\<close>)
  have parsed: "parsed_runs query parsed (bind_prog (catch_unwind (parse_in_context pg query ctx)) (\<lambda>outcome. case outcome of
           Inl caught \<Rightarrow> ret (Inl (caught_error_to_pgwire lib caught))
         | Inr spans \<Rightarrow> (case slice_all query spans of None \<Rightarrow> slice_panic | Some stmts \<Rightarrow> ?k stmts ctx)))
       (resting st, cur) (refused_or_ran query parsed st)" for ctx
    by (rule tracks_caught, rule tracks_conseq[OF parsed_runs_parse])
      (auto simp: spans_of_def slice_panic_def parsed_direct_def split: outcome.splits option.split
        intro!: tracks_ret run tracks_panic)
  show ?thesis
    unfolding execute_simple_query_direct_def parse_and_keep_def with_memory_context_def
    by (auto intro!: tracks_ret parsed_runs_quiet_bind parsed_runs_memory parsed within_intros)
qed

lemma direct_query_ends:
  assumes "execute_simple_query_direct pg lib query s = (r, t, s')" and "run_events portal_step (resting st, node) t = Some a"
    and "\<forall>v. (Fn (Raw_parser query), Val v) \<in> set t \<longrightarrow> v = parsed"
  shows "refused_or_ran query parsed st r a"
proof -
  have "run_events (without (parses_otherwise query parsed) portal_step) (resting st, node) t = Some a"
    by (rule run_without[OF assms(2)]) (use assms(3) in \<open>auto simp: parses_otherwise_def\<close>)
  then show ?thesis by (rule tracksD[OF runs_simple_query_direct assms(1)])
qed

section \<open>A query the parser rejects\<close>

text \<open>
  Neither path aborts anything when the parser raises: the client's block stays as it was,
  where the server's own loop would have failed it.
\<close>

definition saw_tx :: "bool \<Rightarrow> pg_call event \<Rightarrow> bool option" where
  "saw_tx a e = Some (a \<or> (case fst e of Tx c \<Rightarrow> True | _ \<Rightarrow> False))"

abbreviation parses :: "pg_call event \<Rightarrow> bool" where
  "parses e \<equiv> (\<exists>q v. e = (Fn (Raw_parser q), Val v))"

abbreviation rejects :: "(pg_call, 's, error_info + 'a) prog \<Rightarrow> bool" where
  "rejects m \<equiv> tracks (without parses saw_tx) m False (\<lambda>r b. \<not> b \<and> (\<forall>x. r \<noteq> Val (Inr x)))"

lemma saw_tx_mem [simp]: "without parses saw_tx a (Mem d, r) = Some a"
  by (simp add: without_def saw_tx_def)

lemma rejects_mem_bind:
  assumes "\<And>v. rejects (k v)"
  shows "rejects (bind_prog (call pg (Mem d)) k)"
  by (rule tracks_call_bind) (use assms in auto)

lemma rejects_guard:
  assumes "rejects m"
  shows "rejects (with_guard (calls pg [Mem d]) m)"
proof -
  have drop: "tracks (without parses saw_tx) (calls pg [Mem d]) b (\<lambda>r b'. b' = b)" for b
    by (auto intro!: tracks_calls_Cons tracks_calls_Nil)
  show ?thesis
    by (rule tracks_guard, rule tracks_conseq[OF assms], rule tracks_conseq[OF drop]) (auto split: outcome.split)
qed

lemma parse_in_context_rejects:
  "tracks (without parses saw_tx) (parse_in_context pg query ctx) False (\<lambda>r b. \<not> b \<and> (\<forall>x. r \<noteq> Val x))"
proof -
  let ?Q = "\<lambda>r b. \<not> b \<and> (\<forall>x. r \<noteq> Val x)"
  let ?body = "bind_prog (call pg (Fn (Raw_parser query))) (\<lambda>v. ret (extract_raw_stmt_spans (as_stmts v) (length query)))"
  have body: "tracks (without parses saw_tx) ?body False ?Q"
    by (rule tracks_call_bind) (auto simp: without_def saw_tx_def)
  have drop: "tracks (without parses saw_tx) (calls pg [Mem d]) b (\<lambda>r b'. b' = b)" for d b
    by (auto intro!: tracks_calls_Cons tracks_calls_Nil)
  have "tracks (without parses saw_tx) (with_guard (calls pg [Mem d]) ?body) False ?Q" for d
    by (rule tracks_guard, rule tracks_conseq[OF body], rule tracks_conseq[OF drop]) (auto split: outcome.split)
  then show ?thesis
    unfolding parse_in_context_def switched_to_def by (intro tracks_call_bind) auto
qed

lemma direct_rejects: "rejects (execute_simple_query_direct pg lib query)"
  unfolding execute_simple_query_direct_def parse_and_keep_def with_memory_context_def
  by (auto intro!: tracks_ret rejects_mem_bind rejects_guard tracks_caught tracks_conseq[OF parse_in_context_rejects]
    split: outcome.split)

lemma rejected_query_leaves_block:
  assumes "execute_simple_query_direct pg lib query s = (r, t, s')" and "\<And>q v. (Fn (Raw_parser q), Val v) \<notin> set t"
  shows "(\<forall>rs. r \<noteq> Val (Inr rs)) \<and> (\<forall>c. Tx c \<notin> fst ` set t)"
proof -
  have run: "run_events saw_tx a t' = Some (a \<or> list_ex (\<lambda>e. case fst e of Tx c \<Rightarrow> True | _ \<Rightarrow> False) t')" for a t'
    by (induction t' arbitrary: a) (simp_all add: saw_tx_def)
  have "run_events (without parses saw_tx) False t = Some (list_ex (\<lambda>e. case fst e of Tx c \<Rightarrow> True | _ \<Rightarrow> False) t)"
    by (rule run_without) (use run[of False t] assms(2) in auto)
  from tracksD[OF direct_rejects assms(1) this] show ?thesis
    by (force simp: list_ex_iff)
qed

section \<open>A server\<close>

text \<open>
  A server that answers as documented, with the portals' statement in its state.  It
  parses the query \<open>demo_sql\<close> into \<open>BEGIN\<close> and a statement without rows.
\<close>

definition demo_sql :: bytes where "demo_sql = lit ''BEGIN;CALL''"

definition portal_answer :: "portal_state \<Rightarrow> pg_call \<Rightarrow> pg_value" where
  "portal_answer a c =
    (case c of
       Tx d \<Rightarrow> block_answer (fst a) d
     | Fn d \<Rightarrow> (case d of
         Raw_parser sql \<Rightarrow> V_Stmts (Some
           [Some \<lparr>rs_node = N_Transaction TRANS_STMT_BEGIN, rs_location = 0, rs_len = 5\<rparr>,
            Some \<lparr>rs_node = N_Other 1, rs_location = 6, rs_len = 0\<rparr>])
       | Analyze_requires_snapshot rs \<Rightarrow> V_Bool (\<not> is_transaction_stmt rs)
       | _ \<Rightarrow> V_Unit)
     | Exec d \<Rightarrow> (case d of
         PortalRun p n m \<Rightarrow> V_Rows []
       | Portal_tupDesc p \<Rightarrow> V_Desc None
       | _ \<Rightarrow> V_Int 1)
     | _ \<Rightarrow> V_Unit)"

definition portal_server :: "(pg_call, portal_state) pg_env" where
  "portal_server c a =
    (case portal_step a (c, Val (portal_answer a c)) of
       Some b \<Rightarrow> (Val (portal_answer a c), b) | None \<Rightarrow> (Unwind Panic_Other, a))"

definition demo_batch :: "(error_info + response list) outcome \<times> pg_call event list \<times> portal_state" where
  "demo_batch = execute_simple_query_direct portal_server demo_libs demo_sql (TBLOCK_DEFAULT, N_Null)"

lemma demo_batch_run:
  "case fst demo_batch of Val (Inr rs) \<Rightarrow> length rs = 2 | _ \<Rightarrow> False"
  "snd (snd demo_batch) = (TBLOCK_INPROGRESS, N_Other 1)"
  "run_events portal_step (TBLOCK_DEFAULT, N_Null) (fst (snd demo_batch)) = Some (TBLOCK_INPROGRESS, N_Other 1)"
  by code_simp+

definition demo_parsed :: pg_value where "demo_parsed = portal_answer (TBLOCK_DEFAULT, N_Null) (Fn (Raw_parser demo_sql))"

lemma demo_batch_parsed:
  "\<forall>v. (Fn (Raw_parser demo_sql), Val v) \<in> set (fst (snd demo_batch)) \<longrightarrow> v = demo_parsed"
proof -
  have "list_all (\<lambda>(c, r). case c of Fn f \<Rightarrow> (case f of Raw_parser q \<Rightarrow> r = Val demo_parsed | _ \<Rightarrow> True) | _ \<Rightarrow> True)
      (fst (snd demo_batch))"
    by code_simp
  then show ?thesis by (fastforce simp: list_all_iff)
qed

section \<open>What a client can rely on\<close>



end
