(* ===== verification/Extended_Plan.thy ===== *)
theory Extended_Plan
  imports Simple_Direct
begin

text \<open>
  The data of the extended query protocol that both backends share: the plans and
  prepared statements of \<open>backend/extended/mod.rs\<close>, the formats of a Bind message, the
  decoding of its parameters and the schema of a result.
\<close>

section \<open>Formats\<close>

text \<open>The wire library's \<open>Format\<close>, by the three questions the code asks of it.\<close>

record format =
  is_unified_text :: bool
  format_for :: "nat \<Rightarrow> field_format"
  is_binary :: "nat \<Rightarrow> bool"

definition unified_text :: format where
  "unified_text = \<lparr>is_unified_text = True, format_for = (\<lambda>i. Fmt_Text), is_binary = (\<lambda>i. False)\<rparr>"

section \<open>Plans and statements\<close>

record spi_backend_plan =
  sb_plan :: nat
  sb_param_oids :: "nat list"
  sb_column_oids :: "nat list"
  sb_base_schema :: "field_info list"

record direct_backend_plan =
  db_source :: nat
  db_param_oids :: "nat list"
  db_column_oids :: "nat list"
  db_command_tag :: int
  db_tag_name :: bytes
  db_tag_display_rowcount :: bool
  db_base_schema :: "field_info list"

text \<open>The three implementations of \<open>PreparedPlan\<close>.\<close>

datatype prepared_plan =
    Spi_Backend spi_backend_plan | Direct_Backend direct_backend_plan | Xact_Control xact_cmd

record prepared_statement =
  ps_sql :: bytes
  ps_param_types :: "nat list"
  ps_result_schema :: "field_info list"
  ps_plan :: prepared_plan

definition xact_statement :: "bytes \<Rightarrow> xact_cmd \<Rightarrow> prepared_statement" where
  "xact_statement sql cmd =
    \<lparr>ps_sql = sql, ps_param_types = [], ps_result_schema = [], ps_plan = Xact_Control cmd\<rparr>"

section \<open>Owners that are returned\<close>

text \<open>
  A value with drop code that the block returns: the drop code runs only when the block
  unwinds.  (A statement that a bracket discards after its block, because its commit or
  \<open>SPI_finish\<close> fails, is dropped as well; that call is not in the trace.)
\<close>

definition owned :: "('c, 's, unit) prog \<Rightarrow> ('c, 's, 'a) prog \<Rightarrow> ('c, 's, 'a) prog" where
  "owned drop_code m s =
    (case m s of
       (Val x, t, s') \<Rightarrow> (Val x, t, s')
     | (Unwind p, t, s') \<Rightarrow> (case drop_code s' of (r, t', s'') \<Rightarrow> (Unwind p, t @ t', s'')))"

lemma within_owned: "within P d \<Longrightarrow> within P m \<Longrightarrow> within P (owned d m)"
  unfolding within_def owned_def by (fastforce split: prod.splits outcome.splits)

section \<open>Types and schemas\<close>

definition param_type :: "libs \<Rightarrow> nat \<Rightarrow> nat" where
  "param_type lib oid = (case type_from_oid lib oid of Some t \<Rightarrow> t | None \<Rightarrow> UNKNOWNOID)"

definition text_schema :: "libs \<Rightarrow> attribute list \<Rightarrow> field_info list" where
  "text_schema lib cols =
    map (\<lambda>(name, oid). \<lparr>fi_name = name, fi_type = column_type lib oid, fi_format = Fmt_Text\<rparr>) cols"

text \<open>The schema of a response: the stored one, or one with the formats of the Bind message.\<close>

definition column_formats :: "format \<Rightarrow> nat \<Rightarrow> field_format list" where
  "column_formats f ncols = map (format_for f) [0..<ncols]"

definition response_schema :: "format \<Rightarrow> field_info list \<Rightarrow> field_info list" where
  "response_schema f base =
    (if is_unified_text f then base
     else map (\<lambda>(fi, fmt). fi\<lparr>fi_format := fmt\<rparr>) (zip base (column_formats f (length base))))"

definition column_encoders ::
  "(pg_call, 's) pg_env \<Rightarrow> nat list \<Rightarrow> field_format list \<Rightarrow> (pg_call, 's, column_encoder list) prog" where
  "column_encoders pg oids fmts = collect (map (\<lambda>(oid, fmt). column_encoder_for_column pg oid fmt) (zip oids fmts))"

section \<open>Bind parameters\<close>

text \<open>Per parameter the datum and whether it is NULL; a malformed text parameter ends the loop.\<close>

definition decode_parameter ::
  "(pg_call, 's) pg_env \<Rightarrow> nat list \<Rightarrow> bool list \<Rightarrow> nat \<times> bytes option \<Rightarrow> ('s, nat \<times> bool) pg_result" where
  "decode_parameter pg oids binary = (\<lambda>(i, p). case p of
      None \<Rightarrow> ret (Inr (0, True))
    | Some data \<Rightarrow>
        if length binary \<le> i \<or> length oids \<le> i then index_panic
        else if binary ! i
        then bind_prog (type_receive_for_type pg (oids ! i)) (\<lambda>io.
               bind_prog (type_receive_call pg io data) (\<lambda>d. ret (Inr (d, False))))
        else bind_prog (type_input_for_type pg (oids ! i)) (\<lambda>io.
               try_prog (type_input_call pg io data) (\<lambda>d. ret (Inr (d, False)))))"

definition decode_all ::
  "(pg_call, 's) pg_env \<Rightarrow> bytes option list \<Rightarrow> nat list \<Rightarrow> bool list \<Rightarrow> ('s, (nat \<times> bool) list) pg_result" where
  "decode_all pg params oids binary = for_each (decode_parameter pg oids binary) (enumerate 0 params)"

definition param_is_binary :: "format \<Rightarrow> bytes option list \<Rightarrow> bool list" where
  "param_is_binary f params = map (is_binary f) [0..<length params]"

definition mismatch_error :: "bytes \<Rightarrow> nat \<Rightarrow> nat \<Rightarrow> error_info" where
  "mismatch_error prefix got expected = generic_error prefix
    (lit ''bind parameter count mismatch: got '' @ show_nat got @ lit '', expected '' @ show_nat expected)"

section \<open>These pieces stay inside the open command\<close>

lemma column_encoders_plain [intro!]:
  assumes "\<And>c. plain_call c \<Longrightarrow> P c"
  shows "within P (column_encoders pg oids fmts)"
  by (auto simp: column_encoders_def intro!: within_collect dest_plain assms)

lemma decode_plain [intro!]:
  assumes "\<And>c. plain_call c \<Longrightarrow> P c"
  shows "within P (decode_all pg params oids binary)"
  unfolding decode_all_def decode_parameter_def index_panic_def
  by (auto intro!: within_intros type_io_plain assms split: option.split prod.split)

end
