(* ===== verification/Extended_Spi.thy ===== *)
theory Extended_Spi
  imports Extended_Plan
begin

text \<open>
  \<open>backend/extended/spi.rs\<close>: Parse through \<open>SPI_prepare\<close> and a kept plan, Execute through
  \<open>SPI_execute_plan\<close>.
\<close>

section \<open>Parse\<close>

text \<open>
  One parse serves two purposes: to recognise transaction control, and to infer the
  parameter types that the client did not declare.
\<close>

definition infer_param_types_and_classify ::
  "(pg_call, 's) pg_env \<Rightarrow> bytes \<Rightarrow> (pg_call, 's, nat list \<times> xact_cmd option) prog" where
  "infer_param_types_and_classify pg sql =
    bind_prog (call pg (Fn (Pg_parse_query sql))) (\<lambda>raw_list. case as_stmts raw_list of
      Some (Some first_raw # others) \<Rightarrow>
        (case (if others = [] then classify_raw_stmt first_raw else None) of
           Some cmd \<Rightarrow> ret ([], Some cmd)
         | None \<Rightarrow> bind_prog (call pg (Exec (Analyze_varparams first_raw sql)))
             (\<lambda>params. ret (map resolve_oid_or_text (snd (as_params params)), None)))
    | _ \<Rightarrow> ret ([], None))"

definition any_hint_present :: "nat option list \<Rightarrow> bool" where
  "any_hint_present hints = list_ex (\<lambda>o'. o' \<noteq> None) hints"

definition hint_oids :: "nat option list \<Rightarrow> nat list" where
  "hint_oids = map (\<lambda>o'. case o' of Some oid \<Rightarrow> oid | None \<Rightarrow> 0)"

text \<open>The statement of a kept plan: parameter types, parameter OIDs, result columns.\<close>

definition spi_statement ::
  "(pg_call, 's) pg_env \<Rightarrow> libs \<Rightarrow> bytes \<Rightarrow> nat \<Rightarrow> (pg_call, 's, prepared_statement) prog" where
  "spi_statement pg lib sql plan =
    bind_prog (arg_count pg plan) (\<lambda>n.
      bind_prog (collect (map (\<lambda>i. bind_prog (arg_type pg plan i) (\<lambda>oid. ret (param_type lib oid))) [0..<n])) (\<lambda>types.
        bind_prog (collect (map (arg_type pg plan) [0..<n])) (\<lambda>oids.
          bind_prog (plan_result_columns pg plan) (\<lambda>cols.
            let schema = text_schema lib (case cols of None \<Rightarrow> [] | Some cs \<Rightarrow> cs)
            in ret \<lparr>ps_sql = sql, ps_param_types = types, ps_result_schema = schema,
                 ps_plan = Spi_Backend \<lparr>sb_plan = plan, sb_param_oids = oids,
                   sb_column_oids = map fi_type schema, sb_base_schema = schema\<rparr>\<rparr>))))"

definition spi_prepare_plan ::
  "(pg_call, 's) pg_env \<Rightarrow> libs \<Rightarrow> bytes \<Rightarrow> nat list \<Rightarrow> ('s, prepared_statement) pg_result" where
  "spi_prepare_plan pg lib sql arg_oids =
    bind_prog (call pg (Spi (SPI_prepare sql arg_oids))) (\<lambda>plan_ptr. case as_ptr plan_ptr of
      None \<Rightarrow> bind_prog (call pg (Spi SPI_result)) (\<lambda>rc.
        bind_prog (rc_error pg (lit ''SPI_prepare'') (as_int rc)) (\<lambda>e. ret (Inl e)))
    | Some raw \<Rightarrow> try_prog (keep_plan pg raw) (\<lambda>plan.
        owned (spi_plan_drop pg (Some plan))
          (bind_prog (spi_statement pg lib sql plan) (\<lambda>st. ret (Inr st)))))"

definition spi_prepare_body ::
  "(pg_call, 's) pg_env \<Rightarrow> libs \<Rightarrow> bytes \<Rightarrow> nat option list \<Rightarrow> ('s, prepared_statement) pg_result" where
  "spi_prepare_body pg lib sql hints =
    bind_prog (if any_hint_present hints then ret (hint_oids hints, None)
               else infer_param_types_and_classify pg sql) (\<lambda>(arg_oids, classification).
      case classification of
        Some cmd \<Rightarrow> ret (Inr (xact_statement sql cmd))
      | None \<Rightarrow> spi_prepare_plan pg lib sql arg_oids)"

definition spi_prepare ::
  "(pg_call, 's) pg_env \<Rightarrow> libs \<Rightarrow> bytes \<Rightarrow> nat option list \<Rightarrow> ('s, prepared_statement) pg_result" where
  "spi_prepare pg lib sql hints =
    (if 0 \<in> set sql then ret (Inl (nul_error (lit ''pg_transport extended'')))
     else with_spi pg (spi_prepare_body pg lib sql hints))"

section \<open>Execute\<close>

text \<open>The codes of \<open>SPI_execute_plan\<close>, and the tag of each.\<close>

definition command_tag_from_rc :: "int \<Rightarrow> bytes" where
  "command_tag_from_rc rc =
    (if rc = 5 then lit ''SELECT''
     else if rc = 7 then lit ''INSERT''
     else if rc = 9 then lit ''UPDATE''
     else if rc = 8 then lit ''DELETE''
     else if rc = 11 then lit ''INSERT''
     else if rc = 13 then lit ''UPDATE''
     else if rc = 12 then lit ''DELETE''
     else if rc = 18 then lit ''MERGE''
     else if rc = 4 then lit ''OK''
     else lit ''OK'')"

text \<open>The arrays of \<open>SPI_execute_plan\<close>: \<open>'n'\<close> marks a NULL, a blank a value.\<close>

definition spi_decode_parameters ::
  "(pg_call, 's) pg_env \<Rightarrow> bytes option list \<Rightarrow> nat list \<Rightarrow> bool list \<Rightarrow> ('s, nat list \<times> bytes) pg_result" where
  "spi_decode_parameters pg params oids binary =
    try_prog (decode_all pg params oids binary)
      (\<lambda>ds. ret (Inr (map fst ds, map (\<lambda>d. if snd d then 0x6E else 0x20) ds)))"

definition spi_result_rows ::
  "(pg_call, 's) pg_env \<Rightarrow> spi_backend_plan \<Rightarrow> format \<Rightarrow> bytes \<Rightarrow> spi_tuples \<Rightarrow> (pg_call, 's, response) prog" where
  "spi_result_rows pg b rf tag t =
    (let ncols = length (sb_base_schema b) in
     bind_prog (column_encoders pg (sb_column_oids b) (column_formats rf ncols)) (\<lambda>encoders.
       bind_prog (spi_rows pg t encoders ncols) (\<lambda>rows.
         ret (Query (response_schema rf (sb_base_schema b)) rows (Some tag)))))"

definition spi_execute_body ::
  "(pg_call, 's) pg_env \<Rightarrow> spi_backend_plan \<Rightarrow> bytes option list \<Rightarrow> format \<Rightarrow> format \<Rightarrow> 64 word
     \<Rightarrow> ('s, response) pg_result" where
  "spi_execute_body pg b params pf rf max_rows =
    try_prog (spi_decode_parameters pg params (sb_param_oids b) (param_is_binary pf params)) (\<lambda>(values, nulls).
      bind_prog (call pg (Spi (SPI_execute_plan (sb_plan b) values nulls False (sint max_rows)))) (\<lambda>exec_rc.
        if as_int exec_rc < 0
        then bind_prog (rc_error pg (lit ''SPI_execute_plan'') (as_int exec_rc)) (\<lambda>e. ret (Inl e))
        else bind_prog (spi_tuples_current pg) (\<lambda>tuples.
          case (if sb_base_schema b = [] then None else tuples) of
            None \<Rightarrow> bind_prog (processed_rows_without_table pg)
              (\<lambda>n. ret (Inr (Execution (command_tag_from_rc (as_int exec_rc)) (Some n))))
          | Some t \<Rightarrow> bind_prog (spi_result_rows pg b rf (command_tag_from_rc (as_int exec_rc)) t)
              (\<lambda>resp. ret (Inr resp)))))"

definition spi_execute_impl ::
  "(pg_call, 's) pg_env \<Rightarrow> spi_backend_plan \<Rightarrow> bytes option list \<Rightarrow> format \<Rightarrow> format \<Rightarrow> 64 word
     \<Rightarrow> ('s, response) pg_result" where
  "spi_execute_impl pg b params pf rf max_rows =
    (if length params \<noteq> length (sb_param_oids b)
     then ret (Inl (mismatch_error (lit ''pg_transport extended'') (length params) (length (sb_param_oids b))))
     else with_spi pg (spi_execute_body pg b params pf rf max_rows))"

section \<open>Both keep the transaction protocol\<close>

lemma infer_worker: "within worker_call (infer_param_types_and_classify pg sql)"
  unfolding infer_param_types_and_classify_def
  by (auto intro!: within_intros split: option.split list.split)

lemma spi_statement_worker: "within worker_call (spi_statement pg lib sql plan)"
  unfolding spi_statement_def by (auto simp: Let_def intro!: within_intros within_collect)

lemma spi_prepare_plan_worker: "within worker_call (spi_prepare_plan pg lib sql oids)"
  unfolding spi_prepare_plan_def spi_plan_drop_def
  by (auto intro!: within_intros within_owned spi_statement_worker split: option.split)

lemma spi_prepare_body_worker: "within worker_call (spi_prepare_body pg lib sql hints)"
  unfolding spi_prepare_body_def
  by (auto intro!: within_intros infer_worker spi_prepare_plan_worker split: option.split prod.split)

lemma spi_execute_body_worker: "within worker_call (spi_execute_body pg b params pf rf max_rows)"
  unfolding spi_execute_body_def spi_decode_parameters_def spi_result_rows_def
  by (auto simp: Let_def intro!: within_intros decode_plain column_encoders_plain split: option.split prod.split)

lemma spi_prepare_safe: "tx_safe (spi_prepare pg lib sql hints) (tx_idle True)"
  unfolding spi_prepare_def
  using spi_bracket.bracket_safe[OF worker_stable[OF spi_prepare_body_worker, of pg lib sql hints 0, folded One_nat_def]]
  by (auto simp: tx_safe_def keeps_ret)

lemma spi_execute_safe: "tx_safe (spi_execute_impl pg b params pf rf max_rows) (tx_idle True)"
  unfolding spi_execute_impl_def
  using spi_bracket.bracket_safe[OF worker_stable[OF spi_execute_body_worker, of pg b params pf rf max_rows 0, folded One_nat_def]]
  by (auto simp: tx_safe_def keeps_ret)

end
