(* ===== verification/Extended_Direct.thy ===== *)
theory Extended_Direct
  imports Extended_Plan
begin

text \<open>
  \<open>backend/extended/direct.rs\<close>: Parse through a saved \<open>CachedPlanSource\<close>, Execute through
  the planner and a portal of its own.
\<close>

section \<open>Parse\<close>

definition direct_error :: "bytes \<Rightarrow> bytes \<Rightarrow> error_info" where
  "direct_error code msg = \<lparr>severity = ERROR, sqlstate = code, message = lit ''pg_transport direct: '' @ msg\<rparr>"

text \<open>
  Analysis in the context that the plan source will own.  \<open>fixedparams\<close> with the client's
  types when it declared any, \<open>varparams\<close> otherwise; the answer is the query trees and
  the types of the parameters.
\<close>

definition analyze_params ::
  "(pg_call, 's) pg_env \<Rightarrow> raw_stmt \<Rightarrow> bytes \<Rightarrow> nat option list \<Rightarrow> (pg_call, 's, nat option \<times> nat list) prog" where
  "analyze_params pg raw_stmt sql hints =
    (if list_ex (\<lambda>o'. o' \<noteq> None) hints
     then let oids = map (\<lambda>o'. case o' of Some oid \<Rightarrow> oid | None \<Rightarrow> 0) hints
       in bind_prog (call pg (Exec (Analyze_fixedparams raw_stmt sql oids))) (\<lambda>qt. ret (as_ptr qt, oids))
     else bind_prog (call pg (Exec (Analyze_varparams raw_stmt sql))) (\<lambda>p.
       ret (fst (as_params p), map resolve_oid_or_text (snd (as_params p)))))"

definition analyze_in_query_context ::
  "(pg_call, 's) pg_env \<Rightarrow> raw_stmt \<Rightarrow> bytes \<Rightarrow> nat option list \<Rightarrow> (pg_call, 's, nat \<times> nat option \<times> nat list) prog" where
  "analyze_in_query_context pg raw_stmt sql hints =
    bind_prog (call pg (Mem CurrentMemoryContext)) (\<lambda>current.
      bind_prog (call pg (Mem (AllocSetContextCreate (as_handle current) (lit ''pgxport_query_context'')))) (\<lambda>query_ctx.
        bind_prog (call pg (Mem (MemoryContextSwitchTo (as_handle query_ctx)))) (\<lambda>prev_ctx.
          bind_prog (analyze_params pg raw_stmt sql hints) (\<lambda>(trees, oids).
            then_prog (calls pg [Mem (MemoryContextSwitchTo (as_handle prev_ctx))])
              (ret (as_handle query_ctx, trees, oids))))))"

definition result_schema_from_source ::
  "(pg_call, 's) pg_env \<Rightarrow> libs \<Rightarrow> nat \<Rightarrow> (pg_call, 's, field_info list) prog" where
  "result_schema_from_source pg lib src =
    bind_prog (cached_plan_source_result_desc pg src)
      (\<lambda>desc. ret (case desc of None \<Rightarrow> [] | Some attrs \<Rightarrow> text_schema lib attrs))"

text \<open>The plan source from its creation to the finished statement.\<close>

definition direct_statement ::
  "(pg_call, 's) pg_env \<Rightarrow> libs \<Rightarrow> bytes \<Rightarrow> int \<Rightarrow> nat \<Rightarrow> nat \<Rightarrow> nat \<Rightarrow> nat list \<Rightarrow> (pg_call, 's, prepared_statement) prog" where
  "direct_statement pg lib sql command_tag src querytrees query_ctx oids =
    then_prog (cached_plan_source_complete pg src querytrees query_ctx oids 0 True)
      (then_prog (cached_plan_source_save pg src)
        (bind_prog (result_schema_from_source pg lib src) (\<lambda>schema.
          bind_prog (command_tag_name pg command_tag) (\<lambda>tag_name.
            bind_prog (call pg (Exec (Command_tag_display_rowcount command_tag))) (\<lambda>display.
              ret \<lparr>ps_sql = sql, ps_param_types = map (param_type lib) oids, ps_result_schema = schema,
                ps_plan = Direct_Backend \<lparr>db_source = src, db_param_oids = oids,
                  db_column_oids = map fi_type schema, db_command_tag = command_tag, db_tag_name = tag_name,
                  db_tag_display_rowcount = as_bool display, db_base_schema = schema\<rparr>\<rparr>)))))"

definition direct_prepare_plan ::
  "(pg_call, 's) pg_env \<Rightarrow> libs \<Rightarrow> bytes \<Rightarrow> nat option list \<Rightarrow> raw_stmt \<Rightarrow> ('s, prepared_statement) pg_result" where
  "direct_prepare_plan pg lib sql hints raw_stmt =
    bind_prog (call pg (Exec (CreateCommandTag (rs_node raw_stmt)))) (\<lambda>command_tag.
      bind_prog (analyze_in_query_context pg raw_stmt sql hints) (\<lambda>(query_ctx, trees, oids). case trees of
        None \<Rightarrow> ret (Inl (direct_error (lit ''XX000'') (lit ''analyze returned null'')))
      | Some querytrees \<Rightarrow>
          bind_prog (cached_plan_source_create pg raw_stmt sql (as_int command_tag)) (\<lambda>src.
            owned (cached_plan_source_drop pg src)
              (bind_prog (direct_statement pg lib sql (as_int command_tag) src querytrees query_ctx oids)
                (\<lambda>st. ret (Inr st))))))"

definition direct_prepare_body ::
  "(pg_call, 's) pg_env \<Rightarrow> libs \<Rightarrow> bytes \<Rightarrow> nat option list \<Rightarrow> ('s, prepared_statement) pg_result" where
  "direct_prepare_body pg lib sql hints =
    bind_prog (call pg (Fn (Pg_parse_query sql))) (\<lambda>raw_list. case as_stmts raw_list of
      None \<Rightarrow> ret (Inl (direct_error (lit ''42601'') (lit ''empty query string'')))
    | Some [] \<Rightarrow> ret (Inl (direct_error (lit ''42601'') (lit ''empty query string'')))
    | Some (None # others) \<Rightarrow> ret (Inl (direct_error (lit ''XX000'') (lit ''pg_parse_query returned a null RawStmt'')))
    | Some (Some raw_stmt # others) \<Rightarrow>
        (case (if others = [] then classify_raw_stmt raw_stmt else None) of
           Some cmd \<Rightarrow> ret (Inr (xact_statement sql cmd))
         | None \<Rightarrow> direct_prepare_plan pg lib sql hints raw_stmt))"

definition direct_prepare ::
  "(pg_call, 's) pg_env \<Rightarrow> libs \<Rightarrow> bytes \<Rightarrow> nat option list \<Rightarrow> ('s, prepared_statement) pg_result" where
  "direct_prepare pg lib sql hints =
    (if 0 \<in> set sql
     then ret (Inl (direct_error (lit ''08P01'') (lit ''query string contains a NUL byte'')))
     else with_xact pg True (direct_prepare_body pg lib sql hints))"

section \<open>Execute\<close>

definition direct_decode_parameters ::
  "(pg_call, 's) pg_env \<Rightarrow> bytes option list \<Rightarrow> nat list \<Rightarrow> bool list \<Rightarrow> ('s, nat list \<times> bool list) pg_result" where
  "direct_decode_parameters pg params oids binary =
    try_prog (decode_all pg params oids binary) (\<lambda>ds. ret (Inr (map fst ds, map snd ds)))"

text \<open>A row limit of zero is none.\<close>

definition portal_count :: "64 word \<Rightarrow> int" where
  "portal_count max_rows = (if max_rows = 0 then i64_MAX else sint max_rows)"

text \<open>The portal of one execution, from its definition to the response.\<close>

definition direct_execute_portal ::
  "(pg_call, 's) pg_env \<Rightarrow> direct_backend_plan \<Rightarrow> nat option \<Rightarrow> format \<Rightarrow> 64 word \<Rightarrow> nat \<Rightarrow> nat
     \<Rightarrow> (pg_call, 's, response) prog" where
  "direct_execute_portal pg b params rf max_rows plan portal =
    (let ncols = length (db_base_schema b) in
     bind_prog (call pg (Plan (CachedPlan_stmt_list plan))) (\<lambda>stmts.
       then_prog (calls pg [Exec (PortalDefineQuery portal (lit ''direct-path statement'') (db_command_tag b) (as_ptr stmts) None)])
         (bind_prog (call pg (Tx GetActiveSnapshot)) (\<lambda>snapshot.
           then_prog (calls pg [Exec (PortalStart portal params 0 (as_ptr snapshot))])
             (bind_prog (column_encoders pg (db_column_oids b) (column_formats rf ncols)) (\<lambda>encoders.
               then_prog (calls pg [Exec InitializeQueryCompletion])
                 (bind_prog (call pg (Exec (PortalRun portal (portal_count max_rows) True))) (\<lambda>slots.
                   bind_prog (receive_rows pg encoders ncols (as_rows slots) []) (\<lambda>data_rows.
                     if ncols = 0
                     then if db_tag_display_rowcount b
                       then bind_prog (call pg (Exec Qc_nprocessed))
                         (\<lambda>n. ret (Execution (db_tag_name b) (Some (nat (as_int n)))))
                       else ret (Execution (db_tag_name b) None)
                     else ret (Query (response_schema rf (db_base_schema b)) data_rows (Some (db_tag_name b))))))))))))"

text \<open>The portal is dropped before the cached plan is released.\<close>

definition direct_execute_body ::
  "(pg_call, 's) pg_env \<Rightarrow> direct_backend_plan \<Rightarrow> bytes option list \<Rightarrow> format \<Rightarrow> format \<Rightarrow> 64 word
     \<Rightarrow> ('s, response) pg_result" where
  "direct_execute_body pg b params pf rf max_rows =
    try_prog (direct_decode_parameters pg params (db_param_oids b) (param_is_binary pf params)) (\<lambda>(values, nulls).
      bind_prog (param_list_build pg (db_param_oids b) values nulls) (\<lambda>param_list.
        with_cached_plan pg (db_source b) param_list (\<lambda>plan.
          with_anonymous_portal pg (\<lambda>portal.
            bind_prog (direct_execute_portal pg b param_list rf max_rows plan portal) (\<lambda>resp. ret (Inr resp))))))"

definition direct_execute_impl ::
  "(pg_call, 's) pg_env \<Rightarrow> direct_backend_plan \<Rightarrow> bytes option list \<Rightarrow> format \<Rightarrow> format \<Rightarrow> 64 word
     \<Rightarrow> ('s, response) pg_result" where
  "direct_execute_impl pg b params pf rf max_rows =
    (if length params \<noteq> length (db_param_oids b)
     then ret (Inl (mismatch_error (lit ''pg_transport direct'') (length params) (length (db_param_oids b))))
     else with_xact pg True (direct_execute_body pg b params pf rf max_rows))"

section \<open>Both keep the transaction protocol\<close>

text \<open>Calls inside the bracket that pushed a snapshot.\<close>

definition snapshot_call :: "pg_call \<Rightarrow> bool" where
  "snapshot_call c \<longleftrightarrow> direct_call c \<or> c = Tx GetActiveSnapshot"

lemma plain_snapshot [simp]: "plain_call c \<Longrightarrow> snapshot_call c"
  by (simp add: snapshot_call_def)

lemma snapshot_call_simps [simp]:
  "snapshot_call (Mem m)" "snapshot_call (Fn f)" "snapshot_call (Exec e)" "snapshot_call (Plan p)"
  "snapshot_call (Tx GetActiveSnapshot)"
  by (simp_all add: snapshot_call_def)

lemma snapshot_stable: "within snapshot_call m \<Longrightarrow> tx_stable m (tx_cmd (Suc n) b)"
  by (erule tx_stable_within) (auto simp: snapshot_call_def direct_tx_next)

lemma cached_plan_source_within:
  "within snapshot_call (cached_plan_source_create pg raw_stmt sql tag)"
  "within snapshot_call (cached_plan_source_complete pg src trees ctx oids opts fixed_result)"
  "within snapshot_call (cached_plan_source_save pg src)"
  "within snapshot_call (cached_plan_source_drop pg src)"
  "within snapshot_call (cached_plan_source_result_desc pg src)"
  unfolding cached_plan_source_create_def cached_plan_source_complete_def cached_plan_source_save_def
    cached_plan_source_drop_def cached_plan_source_result_desc_def
  by (auto intro!: within_intros)

lemma param_list_within: "within snapshot_call (param_list_build pg oids values nulls)"
proof -
  have "within snapshot_call (param_entries pg p i oids values nulls)" for p i
    by (induction pg p i oids "values" nulls rule: param_entries.induct)
      (auto simp: index_panic_def intro!: within_intros)
  then show ?thesis by (auto simp: param_list_build_def intro!: within_intros split: option.split)
qed

lemma owner_scopes_within:
  assumes "\<And>x. within snapshot_call (body x)"
  shows "within snapshot_call (with_cached_plan pg src params body)"
    "within snapshot_call (with_anonymous_portal pg body)"
  unfolding with_cached_plan_def with_anonymous_portal_def
  by (auto simp: index_panic_def intro!: within_intros assms split: option.split)

lemma analyze_within: "within snapshot_call (analyze_in_query_context pg raw_stmt sql hints)"
  unfolding analyze_in_query_context_def analyze_params_def
  by (auto simp: Let_def intro!: within_intros split: prod.split)

lemma direct_statement_within: "within snapshot_call (direct_statement pg lib sql tag src trees ctx oids)"
  unfolding direct_statement_def result_schema_from_source_def
  by (auto intro!: within_intros cached_plan_source_within schema_plain)

lemma direct_prepare_plan_within: "within snapshot_call (direct_prepare_plan pg lib sql hints raw_stmt)"
  unfolding direct_prepare_plan_def
  by (auto intro!: within_intros within_owned cached_plan_source_within analyze_within direct_statement_within
      split: option.split prod.split)

lemma direct_prepare_body_within: "within snapshot_call (direct_prepare_body pg lib sql hints)"
  unfolding direct_prepare_body_def
  by (auto intro!: within_intros direct_prepare_plan_within split: option.split list.split)

lemma direct_execute_portal_within: "within snapshot_call (direct_execute_portal pg b params rf max_rows plan portal)"
  unfolding direct_execute_portal_def
  by (auto simp: Let_def intro!: within_intros column_encoders_plain receive_plain)

lemma direct_execute_body_within: "within snapshot_call (direct_execute_body pg b params pf rf max_rows)"
  unfolding direct_execute_body_def direct_decode_parameters_def
  by (auto intro!: within_intros decode_plain param_list_within owner_scopes_within direct_execute_portal_within
      split: prod.split)

lemma direct_prepare_safe: "tx_safe (direct_prepare pg lib sql hints) (tx_idle True)"
  unfolding direct_prepare_def
  using direct_bracket.bracket_safe[OF snapshot_stable[OF direct_prepare_body_within, of pg lib sql hints 0 False, folded One_nat_def]]
  by (auto simp: tx_safe_def keeps_ret)

lemma direct_execute_safe: "tx_safe (direct_execute_impl pg b params pf rf max_rows) (tx_idle True)"
  unfolding direct_execute_impl_def
  using direct_bracket.bracket_safe[OF snapshot_stable[OF direct_execute_body_within, of pg b params pf rf max_rows 0 False, folded One_nat_def]]
  by (auto simp: tx_safe_def keeps_ret)

end
