(* ===== verification/Scram.thy ===== *)
theory Scram
  imports Rust_Text
begin

text \<open>
  \<open>wire/auth/scram.rs\<close>: the server side of SCRAM-SHA-256.  The hash functions and
  base64 come from crates; they are the fields of a record the definitions take,
  and the laws the proofs use of them are stated as \<open>crypto_ok\<close>.
\<close>

unbundle bit_operations_syntax

section \<open>Environment and data\<close>

record crypto =
  hmac_sha256 :: "bytes \<Rightarrow> bytes \<Rightarrow> bytes"
  sha256 :: "bytes \<Rightarrow> bytes"
  b64 :: "bytes \<Rightarrow> bytes"
  b64_decode :: "bytes \<Rightarrow> bytes option"
  b64_no_pad :: "bytes \<Rightarrow> bytes"

definition SHA256_BYTES :: nat where "SHA256_BYTES = 32"
definition NONCE_BYTES :: nat where "NONCE_BYTES = 18"
definition SCRAM_SHA_256 :: bytes where "SCRAM_SHA_256 = lit ''SCRAM-SHA-256''"

record scram_verifier =
  iterations :: "32 word"
  salt :: bytes
  stored_key :: bytes
  server_key :: bytes

datatype scram_error = Malformed string | AuthFailed | NonceGenerationFailed

record scram_server =
  verifier :: scram_verifier
  combined_nonce :: bytes
  client_first_bare :: bytes
  server_first :: bytes
  gs2_header :: bytes

definition scram_new :: "scram_verifier \<Rightarrow> scram_server" where
  "scram_new v = \<lparr>verifier = v, combined_nonce = [], client_first_bare = [], server_first = [], gs2_header = []\<rparr>"

section \<open>Message parsers\<close>

text \<open>The index of the \<open>n\<close>-th comma, counting from one.\<close>

fun nth_comma_from :: "bytes \<Rightarrow> nat \<Rightarrow> nat \<Rightarrow> nat \<Rightarrow> nat option" where
  "nth_comma_from [] i count n = None"
| "nth_comma_from (b # bs) i count n =
    (if b = COMMA then if count + 1 = n then Some i else nth_comma_from bs (i + 1) (count + 1) n
     else nth_comma_from bs (i + 1) count n)"

definition find_nth_comma :: "bytes \<Rightarrow> nat \<Rightarrow> nat option" where
  "find_nth_comma s n = nth_comma_from s 0 0 n"

record client_first =
  cf_gs2_header :: bytes
  cf_bare :: bytes
  cf_client_nonce :: bytes

text \<open>The loop over the parts keeps the last value of an attribute.\<close>

definition last_attr :: "bytes \<Rightarrow> bytes list \<Rightarrow> bytes" where
  "last_attr key parts =
    foldl (\<lambda>acc part. case strip_prefix key part of Some v \<Rightarrow> v | None \<Rightarrow> acc) [] parts"

definition parse_client_first :: "bytes \<Rightarrow> scram_error + client_first" where
  "parse_client_first s =
    (case find_nth_comma s 2 of
       None \<Rightarrow> Inl (Malformed ''client first missing gs2-header'')
     | Some pos \<Rightarrow>
         let bare_start = pos + 1; gs2 = take bare_start s; bare = drop bare_start s
         in if \<not> (starts_with (lit ''n,'') gs2 \<or> starts_with (lit ''y,'') gs2)
            then Inl (Malformed ''channel binding not supported'')
            else let nonce = last_attr (lit ''r='') (split_on COMMA bare)
                 in if nonce = [] then Inl (Malformed ''client first missing nonce'')
                    else Inr \<lparr>cf_gs2_header = gs2, cf_bare = bare, cf_client_nonce = nonce\<rparr>)"

record client_final =
  cl_channel_binding :: bytes
  cl_combined_nonce :: bytes
  cl_client_proof :: bytes

definition final_part :: "bytes \<times> bytes \<times> bytes \<Rightarrow> bytes \<Rightarrow> bytes \<times> bytes \<times> bytes" where
  "final_part acc part = (case acc of (cb, nonce, proof) \<Rightarrow>
    (case strip_prefix (lit ''c='') part of Some v \<Rightarrow> (v, nonce, proof)
     | None \<Rightarrow> (case strip_prefix (lit ''r='') part of Some v \<Rightarrow> (cb, v, proof)
       | None \<Rightarrow> (case strip_prefix (lit ''p='') part of Some v \<Rightarrow> (cb, nonce, v)
         | None \<Rightarrow> (cb, nonce, proof)))))"

definition parse_client_final :: "bytes \<Rightarrow> scram_error + client_final" where
  "parse_client_final s =
    (case foldl final_part ([], [], []) (split_on COMMA s) of (cb, nonce, proof) \<Rightarrow>
       if cb = [] \<or> nonce = [] \<or> proof = []
       then Inl (Malformed ''client final missing c/r/p field'')
       else Inr \<lparr>cl_channel_binding = cb, cl_combined_nonce = nonce, cl_client_proof = proof\<rparr>)"

section \<open>Primitives\<close>

text \<open>\<open>diff |= x ^ y\<close> over the zipped slices, after the length check.\<close>

definition constant_time_eq :: "bytes \<Rightarrow> bytes \<Rightarrow> bool" where
  "constant_time_eq a b =
    (if length a \<noteq> length b then False
     else foldl (\<lambda>diff (x, y). diff OR (x XOR y)) 0 (zip a b) = 0)"

text \<open>\<open>pg_strong_random\<close> either fails (\<open>None\<close>) or fills the 18-byte buffer.\<close>

definition generate_nonce :: "crypto \<Rightarrow> bytes option \<Rightarrow> scram_error + bytes" where
  "generate_nonce cr rnd =
    (case rnd of None \<Rightarrow> Inl NonceGenerationFailed | Some bs \<Rightarrow> Inr (b64_no_pad cr bs))"

section \<open>The exchange\<close>

definition server_first_message :: "crypto \<Rightarrow> scram_verifier \<Rightarrow> bytes \<Rightarrow> bytes" where
  "server_first_message cr v nonce =
    lit ''r='' @ nonce @ lit '',s='' @ b64 cr (salt v) @ lit '',i='' @ show_nat (unat (iterations v))"

definition on_client_first :: "crypto \<Rightarrow> bytes option \<Rightarrow> scram_server \<Rightarrow> bytes
                                \<Rightarrow> (scram_error + bytes) \<times> scram_server" where
  "on_client_first cr rnd srv msg =
    (if \<not> valid_utf8 msg then (Inl (Malformed ''client first not utf8''), srv)
     else case parse_client_first msg of
       Inl e \<Rightarrow> (Inl e, srv)
     | Inr p \<Rightarrow>
         let srv1 = srv\<lparr>gs2_header := cf_gs2_header p, client_first_bare := cf_bare p\<rparr>
         in case generate_nonce cr rnd of
           Inl e \<Rightarrow> (Inl e, srv1)
         | Inr server_nonce \<Rightarrow>
             let nonce = cf_client_nonce p @ server_nonce;
                 sf = server_first_message cr (verifier srv) nonce
             in (Inr sf, srv1\<lparr>combined_nonce := nonce, server_first := sf\<rparr>))"

definition auth_message :: "scram_server \<Rightarrow> client_final \<Rightarrow> bytes" where
  "auth_message srv p =
    client_first_bare srv @ [COMMA] @ server_first srv @ [COMMA]
    @ (lit ''c='' @ cl_channel_binding p @ lit '',r='' @ cl_combined_nonce p)"

definition on_client_final :: "crypto \<Rightarrow> scram_server \<Rightarrow> bytes \<Rightarrow> scram_error + bytes" where
  "on_client_final cr srv msg =
    (if \<not> valid_utf8 msg then Inl (Malformed ''client final not utf8'')
     else bind_result (parse_client_final msg) (\<lambda>p.
       if cl_combined_nonce p \<noteq> combined_nonce srv then Inl (Malformed ''nonce mismatch'')
       else if cl_channel_binding p \<noteq> b64 cr (gs2_header srv)
       then Inl (Malformed ''channel binding mismatch'')
       else case b64_decode cr (cl_client_proof p) of
         None \<Rightarrow> Inl (Malformed ''client proof not base64'')
       | Some client_proof \<Rightarrow>
           if length client_proof \<noteq> SHA256_BYTES then Inl (Malformed ''client proof wrong length'')
           else let am = auth_message srv p;
                    client_signature = hmac_sha256 cr (stored_key (verifier srv)) am;
                    candidate = map2 (XOR) client_proof client_signature
                in if \<not> constant_time_eq (sha256 cr candidate) (stored_key (verifier srv))
                   then Inl AuthFailed
                   else Inr (lit ''v='' @ b64 cr (hmac_sha256 cr (server_key (verifier srv)) am))))"

section \<open>The laws of the crates\<close>

text \<open>
  Documented behaviour of \<open>hmac\<close>, \<open>sha2\<close> and \<open>base64\<close>: digests of 32 bytes, and an
  encoding that decodes back, is ASCII without commas, and empty only for the empty input.
\<close>

definition crypto_ok :: "crypto \<Rightarrow> bool" where
  "crypto_ok cr \<longleftrightarrow>
     (\<forall>k m. length (hmac_sha256 cr k m) = SHA256_BYTES)
   \<and> (\<forall>m. length (sha256 cr m) = SHA256_BYTES)
   \<and> (\<forall>x. b64_decode cr (b64 cr x) = Some x)
   \<and> (\<forall>x. is_ascii (b64 cr x) \<and> COMMA \<notin> set (b64 cr x) \<and> (b64 cr x = [] \<longrightarrow> x = []))
   \<and> (\<forall>x. is_ascii (b64_no_pad cr x) \<and> COMMA \<notin> set (b64_no_pad cr x))"

lemma crypto_okD:
  assumes "crypto_ok cr"
  shows "length (hmac_sha256 cr k m) = SHA256_BYTES" "length (sha256 cr m) = SHA256_BYTES"
    "b64_decode cr (b64 cr x) = Some x" "is_ascii (b64 cr x)" "COMMA \<notin> set (b64 cr x)"
    "b64 cr x = [] \<Longrightarrow> x = []" "is_ascii (b64_no_pad cr x)" "COMMA \<notin> set (b64_no_pad cr x)"
  using assms by (auto simp: crypto_ok_def)

section \<open>Equality in constant time is equality\<close>

lemma xor_eq_0_iff: "x XOR y = 0 \<longleftrightarrow> x = y" for x y :: "8 word"
proof
  assume "x XOR y = 0"
  then have "(x XOR y) XOR y = 0 XOR y" by simp
  then show "x = y" by (simp add: xor.assoc)
qed simp

lemma or_xor_fold:
  "foldl (\<lambda>diff (x, y). diff OR (x XOR y)) d zs = (0 :: 8 word)
     \<longleftrightarrow> d = 0 \<and> (\<forall>(x, y) \<in> set zs. x = y)"
proof (induction zs arbitrary: d)
  case (Cons z zs)
  obtain x y where z: "z = (x, y)" by fastforce
  have "x XOR y = 0 \<longleftrightarrow> x = y" by (rule xor_eq_0_iff)
  then have "d OR (x XOR y) = 0 \<longleftrightarrow> d = 0 \<and> x = y" by (simp add: or_eq_0_iff)
  with Cons show ?case by (auto simp: z)
qed simp

lemma zip_all_eq: "length a = length b \<Longrightarrow> (\<forall>(x, y) \<in> set (zip a b). x = y) \<longleftrightarrow> a = b"
  by (induction a b rule: list_induct2) auto

lemma constant_time_eq_iff: "constant_time_eq a b \<longleftrightarrow> a = b"
  using or_xor_fold[of 0 "zip a b"] zip_all_eq[of a b] by (auto simp: constant_time_eq_def)

section \<open>Parsing what a client sends\<close>

lemma comma_lits [simp]: "of_char CHR '','' = (0x2C :: 8 word)"
  by simp

lemma find_second_comma: "find_nth_comma (0x6E # 0x2C # 0x2C # s) 2 = Some 2"
  by (simp add: find_nth_comma_def)

definition client_first_message :: "bytes \<Rightarrow> bytes \<Rightarrow> bytes" where
  "client_first_message user nonce = lit ''n,,'' @ lit ''n='' @ user @ lit '',r='' @ nonce"

definition client_final_without_proof :: "crypto \<Rightarrow> bytes \<Rightarrow> bytes" where
  "client_final_without_proof cr nonce = lit ''c='' @ b64 cr (lit ''n,,'') @ lit '',r='' @ nonce"

definition client_final_message :: "crypto \<Rightarrow> bytes \<Rightarrow> bytes \<Rightarrow> bytes" where
  "client_final_message cr nonce proof = client_final_without_proof cr nonce @ lit '',p='' @ b64 cr proof"

lemma parse_client_first_message:
  assumes "COMMA \<notin> set user" "COMMA \<notin> set nonce" "nonce \<noteq> []"
  shows "parse_client_first (client_first_message user nonce) =
    Inr \<lparr>cf_gs2_header = lit ''n,,'', cf_bare = lit ''n='' @ user @ lit '',r='' @ nonce,
         cf_client_nonce = nonce\<rparr>"
proof -
  have "split_on COMMA ((lit ''n='' @ user) @ COMMA # (lit ''r='' @ nonce)) = [lit ''n='' @ user, lit ''r='' @ nonce]"
    using assms by (subst split_on_append) (simp_all add: split_on_no_sep)
  then show ?thesis using assms(3)
    by (simp add: parse_client_first_def client_first_message_def find_second_comma
        starts_with_def last_attr_def Let_def)
qed

lemma parse_client_final_message:
  assumes "crypto_ok cr" "COMMA \<notin> set nonce" "nonce \<noteq> []" "proof \<noteq> []"
  shows "parse_client_final (client_final_message cr nonce proof) =
    Inr \<lparr>cl_channel_binding = b64 cr (lit ''n,,''), cl_combined_nonce = nonce,
         cl_client_proof = b64 cr proof\<rparr>"
proof -
  have "split_on COMMA ((lit ''c='' @ b64 cr (lit ''n,,'')) @ COMMA # (lit ''r='' @ nonce) @ COMMA # (lit ''p='' @ b64 cr proof))
      = [lit ''c='' @ b64 cr (lit ''n,,''), lit ''r='' @ nonce, lit ''p='' @ b64 cr proof]"
    using assms crypto_okD(5)[OF assms(1)]
    by (subst split_on_append, simp, subst split_on_append) (simp_all add: split_on_no_sep)
  moreover have "b64 cr (lit ''n,,'') \<noteq> []" "b64 cr proof \<noteq> []"
    using crypto_okD(6)[OF assms(1)] assms(4) by (auto dest: crypto_okD(6)[OF assms(1)])
  ultimately show ?thesis using assms(3)
    by (simp add: parse_client_final_def client_final_message_def client_final_without_proof_def final_part_def)
qed

section \<open>What acceptance means\<close>

definition proof_key :: "crypto \<Rightarrow> scram_verifier \<Rightarrow> bytes \<Rightarrow> bytes \<Rightarrow> bytes" where
  "proof_key cr v am client_proof = map2 (XOR) client_proof (hmac_sha256 cr (stored_key v) am)"

lemma on_client_final_Inr:
  "on_client_final cr srv msg = Inr reply \<longleftrightarrow>
    (\<exists>p client_proof. valid_utf8 msg \<and> parse_client_final msg = Inr p
       \<and> cl_combined_nonce p = combined_nonce srv
       \<and> cl_channel_binding p = b64 cr (gs2_header srv)
       \<and> b64_decode cr (cl_client_proof p) = Some client_proof \<and> length client_proof = SHA256_BYTES
       \<and> sha256 cr (proof_key cr (verifier srv) (auth_message srv p) client_proof) = stored_key (verifier srv)
       \<and> reply = lit ''v='' @ b64 cr (hmac_sha256 cr (server_key (verifier srv)) (auth_message srv p)))"
  by (auto simp: on_client_final_def bind_result_Inr_iff constant_time_eq_iff proof_key_def Let_def
      split: option.splits)

lemma xor_twice: "length a = length b \<Longrightarrow> map2 (XOR) (map2 (XOR) a b) b = (a :: bytes)"
  by (induction a b rule: list_induct2) (simp_all add: xor.assoc)

lemma honest_first:
  assumes "COMMA \<notin> set user" "COMMA \<notin> set nonce" "nonce \<noteq> []" "is_ascii user" "is_ascii nonce"
  shows "on_client_first cr (Some rnd) (scram_new v) (client_first_message user nonce) =
    (let full = nonce @ b64_no_pad cr rnd; sf = server_first_message cr v full
     in (Inr sf, \<lparr>verifier = v, combined_nonce = full,
           client_first_bare = lit ''n='' @ user @ lit '',r='' @ nonce,
           server_first = sf, gs2_header = lit ''n,,''\<rparr>))"
proof -
  have "valid_utf8 (client_first_message user nonce)"
    using assms(4,5) by (intro ascii_valid) (simp add: client_first_message_def)
  then show ?thesis
    by (simp add: on_client_first_def parse_client_first_message[OF assms(1-3)] scram_new_def
        generate_nonce_def Let_def)
qed

text \<open>What a client that knows \<open>client_key\<close> signs and sends (RFC 5802).\<close>

definition honest_auth_message :: "crypto \<Rightarrow> scram_verifier \<Rightarrow> bytes \<Rightarrow> bytes \<Rightarrow> bytes \<Rightarrow> bytes" where
  "honest_auth_message cr v user nonce full =
    (lit ''n='' @ user @ lit '',r='' @ nonce) @ [COMMA] @ server_first_message cr v full
      @ [COMMA] @ client_final_without_proof cr full"

definition honest_proof :: "crypto \<Rightarrow> scram_verifier \<Rightarrow> bytes \<Rightarrow> bytes \<Rightarrow> bytes" where
  "honest_proof cr v client_key am = map2 (XOR) client_key (hmac_sha256 cr (stored_key v) am)"

text \<open>The server's state after an honest first message.\<close>

definition honest_server :: "crypto \<Rightarrow> scram_verifier \<Rightarrow> bytes \<Rightarrow> bytes \<Rightarrow> bytes \<Rightarrow> scram_server" where
  "honest_server cr v user nonce full =
    \<lparr>verifier = v, combined_nonce = full, client_first_bare = lit ''n='' @ user @ lit '',r='' @ nonce,
     server_first = server_first_message cr v full, gs2_header = lit ''n,,''\<rparr>"

lemma honest_final:
  assumes "crypto_ok cr" and "stored_key v = sha256 cr client_key" and "length client_key = SHA256_BYTES"
    and "COMMA \<notin> set full" "is_ascii full" "full \<noteq> []"
  shows "on_client_final cr (honest_server cr v user nonce full) (client_final_message cr full
          (honest_proof cr v client_key (honest_auth_message cr v user nonce full)))
        = Inr (lit ''v='' @ b64 cr (hmac_sha256 cr (server_key v) (honest_auth_message cr v user nonce full)))"
proof -
  let ?am = "honest_auth_message cr v user nonce full"
  let ?proof = "honest_proof cr v client_key ?am"
  note ok = crypto_okD[OF assms(1)]
  have len: "length ?proof = SHA256_BYTES" using assms(3) ok(1) by (simp add: honest_proof_def)
  then have ne: "?proof \<noteq> []" by (auto simp: SHA256_BYTES_def)
  have parse: "parse_client_final (client_final_message cr full ?proof) =
      Inr \<lparr>cl_channel_binding = b64 cr (lit ''n,,''), cl_combined_nonce = full, cl_client_proof = b64 cr ?proof\<rparr>"
    by (rule parse_client_final_message[OF assms(1,4,6) ne])
  have utf8: "valid_utf8 (client_final_message cr full ?proof)"
    using assms(5) ok(4) by (intro ascii_valid)
      (simp add: client_final_message_def client_final_without_proof_def)
  have key: "proof_key cr v ?am ?proof = client_key"
    unfolding proof_key_def honest_proof_def by (rule xor_twice) (simp add: assms(3) ok(1))
  show ?thesis
    using parse utf8 key len ok(3) assms(2)
    by (auto simp: honest_server_def on_client_final_Inr auth_message_def honest_auth_message_def
        client_final_without_proof_def)
qed

section \<open>A concrete environment for the witnesses\<close>

definition hex_byte :: "8 word \<Rightarrow> bytes" where
  "hex_byte b = [b div 16 + 0x61, b mod 16 + 0x61]"

fun unhex :: "bytes \<Rightarrow> bytes option" where
  "unhex [] = Some []"
| "unhex [x] = None"
| "unhex (x # y # r) = map_option (\<lambda>bs. (16 * (x - 0x61) + (y - 0x61)) # bs) (unhex r)"

definition toy_crypto :: crypto where
  "toy_crypto = \<lparr>hmac_sha256 = (\<lambda>k m. take 32 (k @ m @ replicate 32 7)), sha256 = (\<lambda>m. take 32 (m @ replicate 32 0)),
     b64 = (\<lambda>x. concat (map hex_byte x)), b64_decode = unhex, b64_no_pad = (\<lambda>x. concat (map hex_byte x))\<rparr>"

lemma unhex_hex: "unhex (concat (map hex_byte x)) = Some x"
  by (induction x) (simp_all add: hex_byte_def mult_div_mod_eq)

lemma nibble_char: "n \<le> 15 \<Longrightarrow> n + 0x61 < (0x80 :: 8 word) \<and> n + 0x61 \<noteq> COMMA"
  by (simp add: word_le_nat_alt word_less_nat_alt unat_word_ariths word_unat_eq_iff)

lemma hex_char: "x \<in> set (hex_byte b) \<Longrightarrow> x < 0x80 \<and> x \<noteq> COMMA"
proof -
  have "b div 16 \<le> 15" "b mod 16 \<le> 15"
    using unsigned_less[of b, where ?'a = nat] by (simp_all add: word_le_nat_alt unat_div unat_mod)
  then show "x \<in> set (hex_byte b) \<Longrightarrow> x < 0x80 \<and> x \<noteq> COMMA"
    using nibble_char by (auto simp: hex_byte_def)
qed

lemma toy_crypto_ok: "crypto_ok toy_crypto"
  unfolding crypto_ok_def toy_crypto_def is_ascii_def list_all_iff
  by (auto simp: unhex_hex SHA256_BYTES_def hex_char dest: hex_char) (auto simp: hex_byte_def)

section \<open>Properties\<close>

text \<open>C28. Soundness of the proof check: the server sends its final message only for a client-final
  message that echoes the combined nonce and the base64 of the gs2 header of this exchange and whose
  proof, of 32 bytes, turns into a preimage of the stored key when the signature of this exchange's
  auth message is taken off it; and exactly then.\<close>

theorem client_final_accepted_iff:
  "on_client_final cr srv msg = Inr reply \<longleftrightarrow>
    (\<exists>p client_proof. valid_utf8 msg \<and> parse_client_final msg = Inr p
       \<and> cl_combined_nonce p = combined_nonce srv
       \<and> cl_channel_binding p = b64 cr (gs2_header srv)
       \<and> b64_decode cr (cl_client_proof p) = Some client_proof \<and> length client_proof = SHA256_BYTES
       \<and> sha256 cr (proof_key cr (verifier srv) (auth_message srv p) client_proof) = stored_key (verifier srv)
       \<and> reply = lit ''v='' @ b64 cr (hmac_sha256 cr (server_key (verifier srv)) (auth_message srv p)))"
  by (rule on_client_final_Inr)

text \<open>C29. Completeness: a client that knows the client key behind the stored key and follows RFC 5802
  without extensions is accepted, in two messages, and the reply is the server signature it expects
  for the auth message it computed itself.\<close>

theorem honest_client_accepted:
  assumes "crypto_ok cr" and "stored_key v = sha256 cr client_key" and "length client_key = SHA256_BYTES"
    and "COMMA \<notin> set user" "is_ascii user" "COMMA \<notin> set nonce" "is_ascii nonce" "nonce \<noteq> []"
  shows "\<exists>srv. on_client_first cr (Some rnd) (scram_new v) (client_first_message user nonce)
        = (Inr (server_first_message cr v (nonce @ b64_no_pad cr rnd)), srv)
    \<and> on_client_final cr srv (client_final_message cr (nonce @ b64_no_pad cr rnd)
          (honest_proof cr v client_key (honest_auth_message cr v user nonce (nonce @ b64_no_pad cr rnd))))
        = Inr (lit ''v='' @ b64 cr (hmac_sha256 cr (server_key v)
                 (honest_auth_message cr v user nonce (nonce @ b64_no_pad cr rnd))))"
  using honest_first[OF assms(4,6,8,5,7), of cr rnd v] crypto_okD(7,8)[OF assms(1)]
    honest_final[OF assms(1-3), of "nonce @ b64_no_pad cr rnd" user nonce] assms(6-8)
  by (auto simp: Let_def honest_server_def)

definition toy_verifier :: scram_verifier where
  "toy_verifier = \<lparr>iterations = 4096, salt = [1, 2], stored_key = sha256 toy_crypto (replicate 32 5),
     server_key = replicate 32 9\<rparr>"

theorem honest_client_accepted_witness:
  "\<exists>srv reply. on_client_first toy_crypto (Some [3]) (scram_new toy_verifier)
       (client_first_message (lit ''bob'') (lit ''abc''))
        = (Inr (server_first_message toy_crypto toy_verifier (lit ''abc'' @ b64_no_pad toy_crypto [3])), srv)
    \<and> on_client_final toy_crypto srv (client_final_message toy_crypto (lit ''abc'' @ b64_no_pad toy_crypto [3])
          (honest_proof toy_crypto toy_verifier (replicate 32 5)
            (honest_auth_message toy_crypto toy_verifier (lit ''bob'') (lit ''abc'')
               (lit ''abc'' @ b64_no_pad toy_crypto [3]))))
        = Inr reply"
  using honest_client_accepted[OF toy_crypto_ok, of toy_verifier "replicate 32 5" "lit ''bob''" "lit ''abc''" "[3]"]
  by (auto simp: toy_verifier_def SHA256_BYTES_def)

text \<open>C30. A recorded exchange cannot be replayed: the final message accepted in one exchange is
  rejected in any other exchange of the same client nonce whose server nonce differs, whatever the
  verifier, before the proof is looked at.\<close>

theorem replay_rejected:
  assumes "on_client_first cr (Some rnd) (scram_new v) first = (Inr sf, srv)"
    and "on_client_first cr (Some rnd') (scram_new v') first = (Inr sf', srv')"
    and "b64_no_pad cr rnd \<noteq> b64_no_pad cr rnd'"
    and "on_client_final cr srv msg = Inr reply"
  shows "on_client_final cr srv' msg = Inl (Malformed ''nonce mismatch'')"
proof -
  obtain p where p: "parse_client_first first = Inr p"
    using assms(1) by (auto simp: on_client_first_def split: if_splits sum.splits)
  have n: "combined_nonce srv = cf_client_nonce p @ b64_no_pad cr rnd"
    "combined_nonce srv' = cf_client_nonce p @ b64_no_pad cr rnd'"
    using assms(1,2) p by (auto simp: on_client_first_def generate_nonce_def Let_def split: if_splits)
  from assms(4) obtain q where "parse_client_final msg = Inr q" "valid_utf8 msg"
    "cl_combined_nonce q = combined_nonce srv"
    by (auto simp: on_client_final_Inr)
  then show ?thesis using n assms(3) by (simp add: on_client_final_def)
qed

theorem replay_rejected_witness:
  "\<exists>srv'. on_client_final toy_crypto srv' (client_final_message toy_crypto (lit ''abc'' @ b64_no_pad toy_crypto [3])
          (honest_proof toy_crypto toy_verifier (replicate 32 5)
            (honest_auth_message toy_crypto toy_verifier (lit ''bob'') (lit ''abc'')
               (lit ''abc'' @ b64_no_pad toy_crypto [3]))))
     = Inl (Malformed ''nonce mismatch'')"
proof -
  let ?first = "client_first_message (lit ''bob'') (lit ''abc'')"
  have first: "on_client_first toy_crypto (Some rnd) (scram_new toy_verifier) ?first =
      (Inr (server_first_message toy_crypto toy_verifier (lit ''abc'' @ b64_no_pad toy_crypto rnd)),
       honest_server toy_crypto toy_verifier (lit ''bob'') (lit ''abc'') (lit ''abc'' @ b64_no_pad toy_crypto rnd))"
    for rnd by (subst honest_first) (simp_all add: Let_def honest_server_def)
  have ne: "b64_no_pad toy_crypto [3] \<noteq> b64_no_pad toy_crypto [4]" by (simp add: toy_crypto_def hex_byte_def)
  show ?thesis
    using replay_rejected[OF first first ne honest_final[OF toy_crypto_ok]] crypto_okD(7,8)[OF toy_crypto_ok]
    by (force simp: toy_verifier_def SHA256_BYTES_def)
qed

end
