(* ===== verification/Verifier.thy ===== *)
theory Verifier
  imports Scram Executor
begin

text \<open>
  \<open>wire/auth/verifier.rs\<close> and \<open>wire/auth/hba.rs\<close>: what \<open>pg_authid.rolpassword\<close> holds for a
  role, read in a transaction of its own.
\<close>

section \<open>Parsing a stored password\<close>

datatype rol_password =
    RP_None | RP_Scram scram_verifier | RP_Md5 bytes | RP_UnknownRole | RP_Unsupported

definition is_ascii_hexdigit :: "8 word \<Rightarrow> bool" where
  "is_ascii_hexdigit b \<longleftrightarrow> is_digit b \<or> in_range 0x41 0x46 b \<or> in_range 0x61 0x66 b"

abbreviation DOLLAR :: "8 word" where "DOLLAR \<equiv> 0x24"
abbreviation COLON :: "8 word" where "COLON \<equiv> 0x3A"

definition parse_scram :: "crypto \<Rightarrow> bytes \<Rightarrow> scram_verifier option" where
  "parse_scram cr body =
    Option.bind (split_once DOLLAR body) (\<lambda>(left, right).
    Option.bind (split_once COLON left) (\<lambda>(iters_str, salt_b64).
    Option.bind (split_once COLON right) (\<lambda>(stored_b64, server_b64).
    Option.bind (parse_unsigned 32 iters_str) (\<lambda>iters.
    Option.bind (b64_decode cr salt_b64) (\<lambda>slt.
    Option.bind (b64_decode cr stored_b64) (\<lambda>stored.
    Option.bind (b64_decode cr server_b64) (\<lambda>server.
      if iters < 4096 \<or> length stored \<noteq> 32 \<or> length server \<noteq> 32 then None
      else Some \<lparr>iterations = of_nat iters, salt = slt, stored_key = stored, server_key = server\<rparr>)))))))"

definition parse_verifier :: "crypto \<Rightarrow> bytes \<Rightarrow> rol_password" where
  "parse_verifier cr s =
    (case strip_prefix (lit ''SCRAM-SHA-256$'') s of
       Some rest \<Rightarrow> (case parse_scram cr rest of None \<Rightarrow> RP_Unsupported | Some v \<Rightarrow> RP_Scram v)
     | None \<Rightarrow> (case strip_prefix (lit ''md5'') s of
         Some rest \<Rightarrow>
           if length rest = 32 \<and> list_all is_ascii_hexdigit rest then RP_Md5 rest else RP_Unsupported
       | None \<Rightarrow> RP_Unsupported))"

section \<open>Loading it\<close>

text \<open>
  The bindings' SPI client answers a table, or an error that it can print.  \<open>get_one\<close>
  gives the text or NULL.
\<close>

definition spi_load :: "(pg_call, 's) pg_env \<Rightarrow> crypto \<Rightarrow> bytes \<Rightarrow> (pg_call, 's, bytes + rol_password) prog" where
  "spi_load pg cr role =
    bind_prog (call pg (Client (Client_update
        (lit ''SELECT rolpassword::text FROM pg_authid WHERE rolname = $1'') 1 role))) (\<lambda>table. case table of
      V_Str (Some e) \<Rightarrow> ret (Inl (lit ''auth: SPI failure during pg_authid lookup: '' @ e))
    | _ \<Rightarrow> bind_prog (call pg (Client (Client_is_empty (as_handle table)))) (\<lambda>empty.
        if as_bool empty then ret (Inr RP_UnknownRole)
        else bind_prog (call pg (Client (Client_first_get (as_handle table)))) (\<lambda>raw. case raw of
          V_Bytes e \<Rightarrow> ret (Inl (lit ''auth: SPI getter failed: '' @ e))
        | _ \<Rightarrow> ret (Inr (case as_str raw of None \<Rightarrow> RP_None | Some s \<Rightarrow> parse_verifier cr s)))))"

text \<open>The transaction around a lookup: the third bracket of the program.\<close>

definition lookup_bracket ::
  "(pg_call, 's) pg_env \<Rightarrow> (pg_call, 's, bytes + 'a) prog \<Rightarrow> (pg_call, 's, bytes + 'a) prog" where
  "lookup_bracket pg body =
    then_prog (calls pg [Tx SetCurrentStatementStartTimestamp, Tx StartTransactionCommand,
                         Tx GetTransactionSnapshot, Tx PushActiveSnapshot])
      (bind_prog (catch_unwind body) (\<lambda>outcome. case outcome of
         Inr (Inr pw) \<Rightarrow> then_prog (xact_close pg True) (ret (Inr pw))
       | Inr (Inl err) \<Rightarrow> then_prog (xact_close pg True) (ret (Inl err))
       | Inl payload \<Rightarrow> then_prog (calls pg [Tx AbortCurrentTransaction])
           (ret (Inl (lit ''auth: pg_authid lookup failed (internal error)'')))))"

definition load_rolpassword ::
  "(pg_call, 's) pg_env \<Rightarrow> crypto \<Rightarrow> bytes \<Rightarrow> (pg_call, 's, bytes + rol_password) prog" where
  "load_rolpassword pg cr role = lookup_bracket pg (spi_load pg cr role)"

text \<open>\<open>hba::lookup\<close> fails closed.\<close>

definition hba_lookup :: "(pg_call, 's) pg_env \<Rightarrow> crypto \<Rightarrow> bytes \<Rightarrow> (pg_call, 's, rol_password) prog" where
  "hba_lookup pg cr user =
    bind_prog (load_rolpassword pg cr user) (\<lambda>r. ret (case r of Inr pw \<Rightarrow> pw | Inl msg \<Rightarrow> RP_Unsupported))"

section \<open>The lookup keeps the transaction protocol\<close>

lemma lookup_bracket_safe:
  fixes body :: "(pg_call, 's, bytes + 'a) prog"
  assumes "tx_stable body (tx_cmd 1 False)"
  shows "tx_safe (lookup_bracket pg body) (tx_idle True)"
proof -
  let ?phase = "tx_cmd (Suc 0) False"
  have close: "keeps tx_step (then_prog (xact_close pg True) (ret x)) ?phase at_rest" for x :: "bytes + 'a"
    by (auto simp: xact_close_def intro!: tx_then_calls tx_calls keeps_calls_Nil keeps_ret)
  have run: "keeps tx_step (catch_unwind body) ?phase
      (\<lambda>r b. case r of Val (Inr _) \<Rightarrow> b = ?phase | Val (Inl _) \<Rightarrow> True | Unwind _ \<Rightarrow> False)"
    by (rule keeps_catch, rule keeps_conseq[OF assms[unfolded tx_stable_def One_nat_def]])
      (auto simp: settles_def split: outcome.splits)
  have tail: "keeps tx_step (bind_prog (catch_unwind body) (\<lambda>outcome. case outcome of
         Inr (Inr pw) \<Rightarrow> then_prog (xact_close pg True) (ret (Inr pw))
       | Inr (Inl err) \<Rightarrow> then_prog (xact_close pg True) (ret (Inl err))
       | Inl payload \<Rightarrow> then_prog (calls pg [Tx AbortCurrentTransaction])
           (ret (Inl (lit ''auth: pg_authid lookup failed (internal error)''))))) ?phase at_rest"
    by (rule keeps_bind, rule keeps_conseq[OF run])
      (auto split: outcome.splits sum.splits intro!: close abort_safe simp del: lit_simps)
  show ?thesis
    unfolding tx_safe_def lookup_bracket_def
    by (intro tx_then_calls tx_calls keeps_calls_Nil) (use tail in auto)
qed

interpretation lookup_bracket: xact_bracket "lookup_bracket pg" "tx_cmd 1 False" for pg
  by unfold_locales (rule lookup_bracket_safe)

lemma spi_load_stable: "tx_stable (spi_load pg cr role) (tx_cmd n b)"
  unfolding spi_load_def
  by (auto intro!: tx_stable_bind tx_stable_call split: pg_value.split option.split)

section \<open>The lookup fails closed\<close>

text \<open>
  A failure on the way: a server function that raises, and the two errors the SPI client
  returns as values.
\<close>

fun lookup_failure :: "pg_call event \<Rightarrow> bool" where
  "lookup_failure (c, Unwind p) = True"
| "lookup_failure (Client (Client_update q n a), Val (V_Str (Some e))) = True"
| "lookup_failure (Client (Client_first_get t), Val (V_Bytes e)) = True"
| "lookup_failure _ = False"

definition failure_step :: "bool \<Rightarrow> pg_call event \<Rightarrow> bool option" where
  "failure_step b e = Some (b \<or> lookup_failure e)"

lemma run_failure: "run_events failure_step b t = Some (b \<or> list_ex lookup_failure t)"
  by (induction t arbitrary: b) (auto simp: failure_step_def)

text \<open>Once a call has failed, there is no value.\<close>

definition flagged :: "('e + 'a) outcome \<Rightarrow> bool \<Rightarrow> bool" where
  "flagged r b \<longleftrightarrow> b \<longrightarrow> (case r of Val (Inr _) \<Rightarrow> False | _ \<Rightarrow> True)"

lemma flagged_simps [simp]: "flagged (Unwind p) b" "flagged (Val (Inl e)) b" "flagged (Val (Inr x)) b \<longleftrightarrow> \<not> b"
  by (simp_all add: flagged_def)

lemma failure_tx_calls:
  assumes "Q (Val ()) False" "\<And>p. Q (Unwind p) True"
  shows "keeps failure_step (calls pg (map Tx cs)) False Q"
proof (induction cs)
  case Nil show ?case using assms by (simp add: keeps_calls_Nil)
next
  case (Cons c cs)
  have "\<exists>b. failure_step False (Tx c, r) = Some b \<and>
      (case r of Val x \<Rightarrow> keeps failure_step (calls pg (map Tx cs)) b Q | Unwind p \<Rightarrow> Q (Unwind p) b)" for r
    by (cases r) (simp_all add: failure_step_def Cons.IH assms ex_bool_eq)
  then show ?case unfolding list.map by (rule keeps_calls_Cons)
qed

lemma failure_calls_then:
  assumes "keeps failure_step k False flagged"
  shows "keeps failure_step (then_prog (calls pg (map Tx cs)) k) False flagged"
  by (rule keeps_then, rule failure_tx_calls) (simp_all add: assms)

lemma failure_bind:
  assumes "\<And>v. keeps failure_step (k v) (lookup_failure (c, Val v)) flagged"
  shows "keeps failure_step (bind_prog (call pg c) k) False flagged"
proof (rule keeps_bind, rule keeps_call)
  fix r show "\<exists>b. failure_step False (c, r) = Some b
     \<and> (case r of Val x \<Rightarrow> keeps failure_step (k x) b flagged | Unwind p \<Rightarrow> flagged (Unwind p) b)"
    using assms by (cases r) (auto simp: failure_step_def)
qed

lemma spi_load_flagged: "keeps failure_step (spi_load pg cr role) False flagged"
  unfolding spi_load_def
proof (rule failure_bind, goal_cases)
  case (1 table)
  have rest: "keeps failure_step (bind_prog (call pg (Client (Client_is_empty (as_handle table)))) (\<lambda>empty.
        if as_bool empty then ret (Inr RP_UnknownRole)
        else bind_prog (call pg (Client (Client_first_get (as_handle table)))) (\<lambda>raw. case raw of
          V_Bytes e \<Rightarrow> ret (Inl (lit ''auth: SPI getter failed: '' @ e))
        | _ \<Rightarrow> ret (Inr (case as_str raw of None \<Rightarrow> RP_None | Some s \<Rightarrow> parse_verifier cr s))))) False flagged"
  proof (rule failure_bind, goal_cases)
    case (1 empty)
    show ?case
    proof (cases "as_bool empty")
      case False
      have "keeps failure_step (bind_prog (call pg (Client (Client_first_get (as_handle table)))) (\<lambda>raw. case raw of
          V_Bytes e \<Rightarrow> ret (Inl (lit ''auth: SPI getter failed: '' @ e))
        | _ \<Rightarrow> ret (Inr (case as_str raw of None \<Rightarrow> RP_None | Some s \<Rightarrow> parse_verifier cr s)))) False flagged"
        by (rule failure_bind) (auto split: pg_value.split intro!: keeps_ret simp del: lit_simps)
      then show ?thesis using False by simp
    qed (simp add: keeps_ret)
  qed
  then show ?case
  proof (cases table)
    case (V_Str err)
    then show ?thesis using rest by (cases err) (simp_all add: keeps_ret del: lit_simps)
  qed (simp_all del: lit_simps)
qed

lemma lookup_bracket_flagged:
  assumes "keeps failure_step body False flagged"
  shows "keeps failure_step (lookup_bracket pg body) False flagged"
proof -
  have abort: "keeps failure_step (then_prog (calls pg [Tx AbortCurrentTransaction]) (ret (Inl e))) b flagged" for b e
    by (auto intro!: keeps_then keeps_calls_Cons keeps_calls_Nil keeps_ret simp: failure_step_def split: outcome.split)
  have close_err: "keeps failure_step (then_prog (xact_close pg True) (ret (Inl e))) b flagged" for b e
    by (auto simp: xact_close_def failure_step_def split: outcome.split
      intro!: keeps_then keeps_calls_Cons keeps_calls_Nil keeps_ret)
  have close: "keeps failure_step (then_prog (xact_close pg True) (ret (Inr x))) False flagged" for x
    using failure_calls_then[of "ret (Inr x)" pg "[PopActiveSnapshot, CommitTransactionCommand]"]
    by (simp add: xact_close_def keeps_ret)
  have "keeps failure_step (bind_prog (catch_unwind body) (\<lambda>outcome. case outcome of
         Inr (Inr pw) \<Rightarrow> then_prog (xact_close pg True) (ret (Inr pw))
       | Inr (Inl err) \<Rightarrow> then_prog (xact_close pg True) (ret (Inl err))
       | Inl payload \<Rightarrow> then_prog (calls pg [Tx AbortCurrentTransaction])
           (ret (Inl (lit ''auth: pg_authid lookup failed (internal error)''))))) False flagged"
    by (rule keeps_bind, rule keeps_catch, rule keeps_conseq[OF assms])
      (auto split: outcome.splits sum.splits intro!: close close_err abort simp del: lit_simps)
  from failure_calls_then[OF this, of pg "[SetCurrentStatementStartTimestamp, StartTransactionCommand,
      GetTransactionSnapshot, PushActiveSnapshot]"]
  show ?thesis by (simp add: lookup_bracket_def)
qed

text \<open>C33. The credential lookup for a login is a transaction of its own whatever the server
  does: it is closed again when the lookup returns.  When anything failed on the way (a
  server function raised, the query or reading its value came back with an error), the
  answer is \<open>Unsupported\<close>, with which no login is accepted.
\<close>

theorem hba_lookup_closed:
  assumes "hba_lookup pg cr user s = (Val pw, t, s')"
  shows "(\<exists>checked. run_events tx_step (tx_idle True) t = Some (tx_idle checked))
    \<and> (list_ex lookup_failure t \<longrightarrow> pw = RP_Unsupported)"
proof -
  obtain r where load: "load_rolpassword pg cr user s = (Val r, t, s')"
    and pw: "pw = (case r of Inr pw \<Rightarrow> pw | Inl msg \<Rightarrow> RP_Unsupported)"
    using assms by (auto simp: hba_lookup_def bind_prog_def ret_def split: prod.splits outcome.splits)
  have "tx_safe (load_rolpassword pg cr user) (tx_idle True)"
    unfolding load_rolpassword_def by (rule lookup_bracket_safe) (rule spi_load_stable)
  from keepsD[OF this[unfolded tx_safe_def] load]
  have closed: "\<exists>checked. run_events tx_step (tx_idle True) t = Some (tx_idle checked)" by auto
  have "keeps failure_step (load_rolpassword pg cr user) False flagged"
    unfolding load_rolpassword_def by (rule lookup_bracket_flagged) (rule spi_load_flagged)
  from keepsD[OF this load] pw closed show ?thesis
    by (auto simp: run_failure flagged_def split: sum.splits)
qed

text \<open>A catalog that answers the query with \<open>table\<close> and the value with \<open>raw\<close>.\<close>

definition catalog_env :: "pg_value \<Rightarrow> pg_value \<Rightarrow> (pg_call, unit) pg_env" where
  "catalog_env table raw c s =
    (case c of
       Client (Client_update q n a) \<Rightarrow> (Val table, s)
     | Client (Client_is_empty h) \<Rightarrow> (Val (V_Bool False), s)
     | Client (Client_first_get h) \<Rightarrow> (Val raw, s)
     | _ \<Rightarrow> (Val V_Unit, s))"

lemmas lookup_eval = hba_lookup_def load_rolpassword_def lookup_bracket_def spi_load_def xact_close_def
  calls.simps then_prog_def bind_prog_def call_def ret_def catch_unwind_def catalog_env_def

lemma lookup_query_error:
  "\<exists>t. hba_lookup (catalog_env (V_Str (Some e)) raw) cr user () = (Val RP_Unsupported, t, ())
     \<and> list_ex lookup_failure t"
  by (simp add: lookup_eval del: lit_simps)

theorem hba_lookup_closed_witness:
  "\<exists>t checked. hba_lookup (catalog_env (V_Str (Some [])) V_Unit) toy_crypto [] () = (Val RP_Unsupported, t, ())
     \<and> run_events tx_step (tx_idle True) t = Some (tx_idle checked)"
proof -
  obtain t where run: "hba_lookup (catalog_env (V_Str (Some [])) V_Unit) toy_crypto [] () = (Val RP_Unsupported, t, ())"
    using lookup_query_error by blast
  show ?thesis using hba_lookup_closed[OF run] run by blast
qed

text \<open>How the server prints a verifier into the catalog, and the law of base64 it needs.\<close>

definition stored_form :: "crypto \<Rightarrow> scram_verifier \<Rightarrow> bytes" where
  "stored_form cr v = lit ''SCRAM-SHA-256$'' @ show_nat (unat (iterations v)) @ [COLON] @ b64 cr (salt v)
     @ [DOLLAR] @ b64 cr (stored_key v) @ [COLON] @ b64 cr (server_key v)"

definition b64_separable :: "crypto \<Rightarrow> bool" where
  "b64_separable cr \<longleftrightarrow> (\<forall>x. DOLLAR \<notin> set (b64 cr x) \<and> COLON \<notin> set (b64 cr x))"

lemma show_nat_no_special: "b \<in> set (show_nat n) \<Longrightarrow> b \<noteq> COLON \<and> b \<noteq> DOLLAR"
  using show_nat_digits[of n] digit_not_special by (fastforce simp: list_all_iff)

lemma split_stored_form:
  assumes "b64_separable cr"
  shows "split_once DOLLAR (show_nat n @ [COLON] @ b64 cr s @ [DOLLAR] @ rest) = Some (show_nat n @ [COLON] @ b64 cr s, rest)"
    and "split_once COLON (show_nat n @ [COLON] @ b64 cr s) = Some (show_nat n, b64 cr s)"
    and "split_once COLON (b64 cr a @ [COLON] @ b64 cr b) = Some (b64 cr a, b64 cr b)"
  using split_once_append[of DOLLAR "show_nat n @ [COLON] @ b64 cr s" rest]
    split_once_append[of COLON "show_nat n" "b64 cr s"] split_once_append[of COLON "b64 cr a" "b64 cr b"]
    assms by (auto simp: b64_separable_def dest: show_nat_no_special)

lemma parse_stored_form:
  assumes "crypto_ok cr" and "b64_separable cr"
    and "4096 \<le> iterations v" "length (stored_key v) = 32" "length (server_key v) = 32"
  shows "parse_verifier cr (stored_form cr v) = RP_Scram v"
proof -
  have "parse_unsigned 32 (show_nat (unat (iterations v))) = Some (unat (iterations v))"
    using unsigned_less[of "iterations v", where ?'a = nat] by (intro parse_show) simp
  moreover have "\<not> unat (iterations v) < 4096"
    using assms(3) by (simp add: word_le_nat_alt)
  ultimately have "parse_scram cr (show_nat (unat (iterations v)) @ [COLON] @ b64 cr (salt v)
      @ [DOLLAR] @ b64 cr (stored_key v) @ [COLON] @ b64 cr (server_key v)) = Some v"
    unfolding parse_scram_def split_stored_form[OF assms(2)]
    by (simp add: split_stored_form[OF assms(2), simplified] crypto_okD(3)[OF assms(1)] assms(4,5))
  then show ?thesis
    unfolding parse_verifier_def stored_form_def strip_prefix_append by simp
qed

text \<open>C34. Every SCRAM verifier the server stores (at least 4096 iterations, keys of 32 bytes) is
  read back from its catalog form exactly as it is, whatever its salt.
\<close>

theorem stored_verifier_roundtrip:
  assumes "crypto_ok cr" and "b64_separable cr"
    and "4096 \<le> iterations v" "length (stored_key v) = 32" "length (server_key v) = 32"
  shows "parse_verifier cr (stored_form cr v) = RP_Scram v"
  using assms by (rule parse_stored_form)

lemma nibble_not_special: "n \<le> 15 \<Longrightarrow> n + 0x61 \<noteq> DOLLAR \<and> n + 0x61 \<noteq> COLON" for n :: "8 word"
  by (simp add: word_le_nat_alt unat_word_ariths word_unat_eq_iff)

lemma hex_byte_separable: "DOLLAR \<notin> set (hex_byte b) \<and> COLON \<notin> set (hex_byte b)"
proof -
  have "b div 16 \<le> 15" "b mod 16 \<le> 15"
    using unsigned_less[of b, where ?'a = nat] by (simp_all add: word_le_nat_alt unat_div unat_mod)
  then show ?thesis using nibble_not_special[of "b div 16"] nibble_not_special[of "b mod 16"]
    by (auto simp: hex_byte_def)
qed

lemma toy_separable: "b64_separable toy_crypto"
  by (auto simp: b64_separable_def toy_crypto_def hex_byte_separable)

theorem stored_verifier_roundtrip_witness:
  "parse_verifier toy_crypto (stored_form toy_crypto toy_verifier) = RP_Scram toy_verifier"
  by (rule stored_verifier_roundtrip[OF toy_crypto_ok toy_separable]) (simp_all add: toy_verifier_def toy_crypto_def)

end
