(* ===== verification/Startup.thy ===== *)
theory Startup
  imports Verifier
begin

text \<open>
  \<open>wire/auth/mod.rs\<close> and the startup handler of \<open>wire/pgwire_v3.rs\<close>: from the startup
  message to \<open>finish_authentication\<close> or a rejection.  The phase of the SCRAM exchange is
  the state the handler keeps between the messages of one connection.
\<close>

section \<open>Methods and outcomes\<close>

datatype auth_method =
    AM_Trust | AM_Reject | AM_Password | AM_Md5 | AM_ScramSha256 | AM_Cert | AM_Peer | AM_Gss
  | AM_Sspi | AM_Ldap | AM_Pam | AM_Radius | AM_Bsd | AM_Ident

fun keyword :: "auth_method \<Rightarrow> bytes" where
  "keyword AM_Trust = lit ''trust''"
| "keyword AM_Reject = lit ''reject''"
| "keyword AM_Password = lit ''password''"
| "keyword AM_Md5 = lit ''md5''"
| "keyword AM_ScramSha256 = lit ''scram-sha-256''"
| "keyword AM_Cert = lit ''cert''"
| "keyword AM_Peer = lit ''peer''"
| "keyword AM_Gss = lit ''gss''"
| "keyword AM_Sspi = lit ''sspi''"
| "keyword AM_Ldap = lit ''ldap''"
| "keyword AM_Pam = lit ''pam''"
| "keyword AM_Radius = lit ''radius''"
| "keyword AM_Bsd = lit ''bsd''"
| "keyword AM_Ident = lit ''ident''"

datatype auth_outcome = Accept | Reject bytes bytes

text \<open>
  What the handler takes from the wire library: the two readings of a password message,
  which can fail, and the quoted \<open>Debug\<close> form of a string, which needs the Unicode tables
  of the standard library and is only used inside messages.
\<close>

record 'p wire_lib =
  into_sasl_initial_response :: "'p \<Rightarrow> bytes + bytes \<times> bytes option"
  into_sasl_response :: "'p \<Rightarrow> bytes + bytes"
  debug_str :: "bytes \<Rightarrow> bytes"

definition unimplemented :: "'p wire_lib \<Rightarrow> auth_method \<Rightarrow> auth_outcome" where
  "unimplemented lib m = Reject (lit ''0A000'')
    (lit ''pg_transport: auth method '' @ debug_str lib (keyword m)
     @ lit '' selected by pg_hba.conf is not implemented in this build'')"

definition wrong_database :: "'p wire_lib \<Rightarrow> bytes \<Rightarrow> auth_outcome" where
  "wrong_database lib claimed = Reject (lit ''3D000'')
    (lit ''pg_transport: database '' @ debug_str lib claimed
     @ lit '' not configured for pg_transport (v0 supports only \"postgres\"; per-database routing arrives in a later phase)'')"

definition auth_run :: "'p wire_lib \<Rightarrow> auth_method \<Rightarrow> auth_outcome" where
  "auth_run lib m = (case m of
      AM_Trust \<Rightarrow> Accept
    | AM_Reject \<Rightarrow> Reject (lit ''28000'') (lit ''pg_transport: connection rejected by pg_hba.conf rule'')
    | other \<Rightarrow> unimplemented lib other)"

section \<open>Sending\<close>

text \<open>The connection answers a failed send or handshake with the error, and nothing else otherwise.\<close>

fun net_result :: "pg_value \<Rightarrow> bytes + unit" where
  "net_result (V_Str (Some e)) = Inl e"
| "net_result _ = Inr ()"

definition net :: "(pg_call, 's) pg_env \<Rightarrow> net_call \<Rightarrow> (pg_call, 's, bytes + unit) prog" where
  "net pg c = bind_prog (call pg (Net c)) (\<lambda>v. ret (net_result v))"

definition accept :: "(pg_call, 's) pg_env \<Rightarrow> (pg_call, 's, bytes + unit) prog" where
  "accept pg = then_prog (calls pg [Net Generate_pid_and_key])
    (try_prog (net pg Finish_authentication) (\<lambda>_. ret (Inr ())))"

definition FATAL :: bytes where "FATAL = lit ''FATAL''"

definition reject :: "(pg_call, 's) pg_env \<Rightarrow> auth_outcome \<Rightarrow> (pg_call, 's, bytes + unit) prog" where
  "reject pg outcome = (case outcome of
      Reject code msg \<Rightarrow> try_prog (net pg (Send (F_Error FATAL code msg))) (\<lambda>_. ret (Inr ()))
    | Accept \<Rightarrow> panic (Panic_Str (lit ''internal error: entered unreachable code: reject called with non-Reject outcome'')))"

definition reject_scram :: "(pg_call, 's) pg_env \<Rightarrow> scram_error \<Rightarrow> (pg_call, 's, bytes + unit) prog" where
  "reject_scram pg err = reject pg (case err of
      NonceGenerationFailed \<Rightarrow> Reject (lit ''XX000'')
        (lit ''pg_transport: SCRAM nonce generation failed (entropy source error)'')
    | _ \<Rightarrow> Reject (lit ''28P01'') (lit ''pg_transport: SCRAM authentication failed''))"

section \<open>The handler\<close>

datatype sasl_phase =
    Idle | AwaitingClientFirst scram_server | AwaitingClientFinal scram_server | Done

text \<open>
  What the handler reads of the connection once the startup parameters are in its
  metadata, and the frontend messages that reach it.
\<close>

record client_info =
  meta_user :: "bytes option"
  meta_database :: "bytes option"

datatype 'p frontend_message = Startup client_info | PasswordMessageFamily 'p | Other_Message

definition startup_user :: "client_info \<Rightarrow> bytes" where
  "startup_user ci = (case meta_user ci of None \<Rightarrow> [] | Some u \<Rightarrow> u)"

definition startup_database :: "client_info \<Rightarrow> bytes" where
  "startup_database ci = (case meta_database ci of None \<Rightarrow> startup_user ci | Some d \<Rightarrow> d)"

text \<open>The result of a message and the phase it leaves behind.\<close>

definition at_phase :: "sasl_phase \<Rightarrow> ('c, 's, bytes + unit) prog \<Rightarrow> ('c, 's, (bytes + unit) \<times> sasl_phase) prog" where
  "at_phase ph m = bind_prog m (\<lambda>r. ret (r, ph))"

definition dispatch_credential ::
  "(pg_call, 's) pg_env \<Rightarrow> 'p wire_lib \<Rightarrow> sasl_phase \<Rightarrow> rol_password
     \<Rightarrow> (pg_call, 's, (bytes + unit) \<times> sasl_phase) prog" where
  "dispatch_credential pg lib phase pw = (case pw of
      RP_None \<Rightarrow> at_phase phase (accept pg)
    | RP_UnknownRole \<Rightarrow> at_phase phase (accept pg)
    | RP_Scram v \<Rightarrow> then_prog (calls pg [Net Set_state_auth_in_progress])
        (at_phase (AwaitingClientFirst (scram_new v))
          (try_prog (net pg (Send (F_SASL [SCRAM_SHA_256]))) (\<lambda>_. ret (Inr ()))))
    | RP_Md5 _ \<Rightarrow> at_phase phase (reject pg (unimplemented lib AM_Md5))
    | RP_Unsupported \<Rightarrow> at_phase phase (reject pg (Reject (lit ''28000'')
        (lit ''pg_transport: role has no supported credential format''))))"

definition handle_startup ::
  "(pg_call, 's) pg_env \<Rightarrow> crypto \<Rightarrow> 'p wire_lib \<Rightarrow> sasl_phase \<Rightarrow> client_info
     \<Rightarrow> (pg_call, 's, (bytes + unit) \<times> sasl_phase) prog" where
  "handle_startup pg cr lib phase ci =
    bind_prog (net pg Protocol_negotiation) (\<lambda>negotiated. case negotiated of
      Inl e \<Rightarrow> ret (Inl e, phase)
    | Inr _ \<Rightarrow> then_prog (calls pg [Net Save_startup_parameters])
        (if startup_database ci \<noteq> lit ''postgres''
         then at_phase phase (reject pg (wrong_database lib (startup_database ci)))
         else bind_prog (hba_lookup pg cr (startup_user ci)) (dispatch_credential pg lib phase)))"

text \<open>\<open>on_client_first\<close> draws from the random source once the message has parsed.\<close>

definition draw_nonce :: "(pg_call, 's) pg_env \<Rightarrow> bytes \<Rightarrow> (pg_call, 's, bytes option) prog" where
  "draw_nonce pg data =
    (case parse_client_first data of
       Inr p \<Rightarrow> if valid_utf8 data
         then bind_prog (call pg (Net (Strong_random NONCE_BYTES)))
           (\<lambda>v. ret (case v of V_Bytes bs \<Rightarrow> Some bs | _ \<Rightarrow> None))
         else ret None
     | Inl e \<Rightarrow> ret None)"

definition handle_client_first ::
  "(pg_call, 's) pg_env \<Rightarrow> crypto \<Rightarrow> 'p wire_lib \<Rightarrow> 'p \<Rightarrow> scram_server
     \<Rightarrow> (pg_call, 's, (bytes + unit) \<times> sasl_phase) prog" where
  "handle_client_first pg cr lib msg server =
    (case into_sasl_initial_response lib msg of
       Inl e \<Rightarrow> ret (Inl e, Done)
     | Inr (mechanism, body) \<Rightarrow>
         if mechanism \<noteq> SCRAM_SHA_256
         then at_phase Done (reject pg (Reject (lit ''28P01'')
                (lit ''pg_transport: unsupported SASL mechanism '' @ debug_str lib mechanism)))
         else let data = (case body of None \<Rightarrow> [] | Some d \<Rightarrow> d) in
           bind_prog (draw_nonce pg data) (\<lambda>rnd. case on_client_first cr rnd server data of
             (Inr sf, server') \<Rightarrow> bind_prog (net pg (Send (F_SASL_Continue sf))) (\<lambda>sent. case sent of
                 Inl e \<Rightarrow> ret (Inl e, Done)
               | Inr _ \<Rightarrow> ret (Inr (), AwaitingClientFinal server'))
           | (Inl e, server') \<Rightarrow> at_phase Done (reject_scram pg e)))"

definition handle_client_final ::
  "(pg_call, 's) pg_env \<Rightarrow> crypto \<Rightarrow> 'p wire_lib \<Rightarrow> 'p \<Rightarrow> scram_server \<Rightarrow> (pg_call, 's, bytes + unit) prog" where
  "handle_client_final pg cr lib msg server =
    (case into_sasl_response lib msg of
       Inl e \<Rightarrow> ret (Inl e)
     | Inr data \<Rightarrow> (case on_client_final cr server data of
         Inr reply \<Rightarrow> try_prog (net pg (Send (F_SASL_Final reply))) (\<lambda>_. accept pg)
       | Inl e \<Rightarrow> reject_scram pg e))"

definition on_startup ::
  "(pg_call, 's) pg_env \<Rightarrow> crypto \<Rightarrow> 'p wire_lib \<Rightarrow> sasl_phase \<Rightarrow> 'p frontend_message
     \<Rightarrow> (pg_call, 's, (bytes + unit) \<times> sasl_phase) prog" where
  "on_startup pg cr lib phase m =
    (case m of
       Startup ci \<Rightarrow> handle_startup pg cr lib phase ci
     | PasswordMessageFamily msg \<Rightarrow> (case phase of
         AwaitingClientFirst server \<Rightarrow> handle_client_first pg cr lib msg server
       | AwaitingClientFinal server \<Rightarrow> at_phase Done (handle_client_final pg cr lib msg server)
       | _ \<Rightarrow> at_phase Done (reject pg (Reject (lit ''08P01'') (lit ''pg_transport: unexpected password message''))))
     | Other_Message \<Rightarrow> ret (Inr (), phase))"

section \<open>One connection\<close>

text \<open>
  \<open>PgwireV3::run\<close>: the library serves the socket with fresh handlers, so every
  connection starts with the phase \<open>Idle\<close>.  The results of the two system calls and
  the library's server loop are parameters.
\<close>

definition wire_run :: "bytes + unit \<Rightarrow> bytes + 'sock \<Rightarrow> ('sock \<Rightarrow> 'tls option \<Rightarrow> sasl_phase \<Rightarrow> bytes + unit)
      \<Rightarrow> 'tls option \<Rightarrow> bytes + unit" where
  "wire_run set_nonblocking from_std process_socket tls_acceptor =
    (case set_nonblocking of
       Inl e \<Rightarrow> Inl (lit ''set_nonblocking on client fd: '' @ e)
     | Inr _ \<Rightarrow> (case from_std of
         Inl e \<Rightarrow> Inl (lit ''tokio::TcpStream::from_std: '' @ e)
       | Inr tcp_stream \<Rightarrow> (case process_socket tcp_stream tls_acceptor Idle of
           Inl e \<Rightarrow> Inl (lit ''pgwire process_socket: '' @ e)
         | Inr _ \<Rightarrow> Inr ())))"

section \<open>Where a login is finished\<close>

abbreviation finishing :: "pg_call \<Rightarrow> bool" where
  "finishing c \<equiv> c = Net Finish_authentication"

lemma bind_ValD:
  assumes "bind_prog m k s = (Val x, t, s')"
  obtains y t1 s1 t2 where "m s = (Val y, t1, s1)" "k y s1 = (Val x, t2, s')" "t = t1 @ t2"
  using assms by (auto simp: bind_prog_def split: prod.splits outcome.splits)

lemma then_ValD:
  assumes "then_prog m k s = (Val x, t, s')"
  obtains y t1 s1 t2 where "m s = (Val y, t1, s1)" "k s1 = (Val x, t2, s')" "t = t1 @ t2"
  using assms unfolding then_prog_def by (rule bind_ValD)

lemma at_phase_ValD:
  assumes "at_phase ph m s = (Val (r, ph'), t, s')"
  shows "m s = (Val r, t, s') \<and> ph' = ph"
  using assms unfolding at_phase_def by (elim bind_ValD) (simp add: ret_def)

lemma within_net: "P (Net c) \<Longrightarrow> within P (net pg c)"
  unfolding net_def by (intro within_bind within_call within_ret)

lemma within_reject: "(\<And>f. P (Net (Send f))) \<Longrightarrow> within P (reject pg outcome)"
  unfolding reject_def by (auto split: auth_outcome.split intro!: within_try within_net within_ret within_panic)

lemma within_reject_scram: "(\<And>f. P (Net (Send f))) \<Longrightarrow> within P (reject_scram pg e)"
  unfolding reject_scram_def by (rule within_reject)

fun lookup_call :: "pg_call \<Rightarrow> bool" where
  "lookup_call (Tx c) = True" | "lookup_call (Client c) = True" | "lookup_call _ = False"

lemma within_hba_lookup: "within lookup_call (hba_lookup pg cr user)"
  unfolding hba_lookup_def load_rolpassword_def lookup_bracket_def spi_load_def xact_close_def
  by (auto intro!: within_bind within_then within_calls within_call within_ret within_catch
      split: sum.split pg_value.split option.split simp del: lit_simps)

lemma within_draw_nonce: "P (Net (Strong_random NONCE_BYTES)) \<Longrightarrow> within P (draw_nonce pg data)"
  unfolding draw_nonce_def
  by (auto intro!: within_bind within_call within_ret split: sum.split)

lemma not_finishing:
  "within (\<lambda>c. \<not> finishing c) m \<Longrightarrow> m s = (r, t, s') \<Longrightarrow> (Net Finish_authentication, a) \<notin> set t"
  by (auto dest: withinD)

section \<open>The messages of one connection\<close>

record 'p auth_step =
  as_message :: "'p frontend_message"
  as_result :: "bytes + unit"
  as_events :: "pg_call event list"

text \<open>
  The messages the handler of a connection has answered, in order; between two messages the
  environment moves freely.  A message whose handling unwinds ends the connection.
\<close>

inductive session :: "(pg_call, 's) pg_env \<Rightarrow> crypto \<Rightarrow> 'p wire_lib \<Rightarrow> 'p auth_step list \<Rightarrow> sasl_phase \<Rightarrow> bool"
  for pg cr lib where
  session_start: "session pg cr lib [] Idle"
| session_message: "session pg cr lib h ph \<Longrightarrow> on_startup pg cr lib ph m s = (Val (r, ph'), t, s') \<Longrightarrow>
    session pg cr lib (h @ [\<lparr>as_message = m, as_result = r, as_events = t\<rparr>]) ph'"

text \<open>The startup message named the served database, and the catalog answered \<open>pw\<close> for its user.\<close>

definition looked_up :: "(pg_call, 's) pg_env \<Rightarrow> crypto \<Rightarrow> 'p auth_step \<Rightarrow> rol_password \<Rightarrow> bool" where
  "looked_up pg cr st pw \<longleftrightarrow> (\<exists>ci pre mid post s s'. as_message st = Startup ci
     \<and> startup_database ci = lit ''postgres'' \<and> as_events st = pre @ mid @ post
     \<and> hba_lookup pg cr (startup_user ci) s = (Val pw, mid, s'))"

text \<open>
  The server was set up for a verifier that was looked up, and sent its first message in
  answer to a client-first message of the right mechanism.
\<close>

definition challenged :: "(pg_call, 's) pg_env \<Rightarrow> crypto \<Rightarrow> 'p wire_lib \<Rightarrow> 'p auth_step list \<Rightarrow> scram_server \<Rightarrow> bool" where
  "challenged pg cr lib h server \<longleftrightarrow> (\<exists>st v st' msg body rnd sf. st \<in> set h \<and> looked_up pg cr st (RP_Scram v)
     \<and> st' \<in> set h \<and> as_message st' = PasswordMessageFamily msg
     \<and> into_sasl_initial_response lib msg = Inr (SCRAM_SHA_256, body)
     \<and> on_client_first cr rnd (scram_new v) (case body of None \<Rightarrow> [] | Some d \<Rightarrow> d) = (Inr sf, server))"

definition proved_password :: "(pg_call, 's) pg_env \<Rightarrow> crypto \<Rightarrow> 'p wire_lib \<Rightarrow> 'p auth_step list \<Rightarrow> 'p auth_step \<Rightarrow> bool" where
  "proved_password pg cr lib h st \<longleftrightarrow> (\<exists>server msg data reply. challenged pg cr lib h server
     \<and> as_message st = PasswordMessageFamily msg \<and> into_sasl_response lib msg = Inr data
     \<and> on_client_final cr server data = Inr reply)"

definition no_password_needed :: "(pg_call, 's) pg_env \<Rightarrow> crypto \<Rightarrow> 'p auth_step \<Rightarrow> bool" where
  "no_password_needed pg cr st \<longleftrightarrow> looked_up pg cr st RP_None \<or> looked_up pg cr st RP_UnknownRole"

text \<open>What the phase knows.\<close>

definition phase_ok :: "(pg_call, 's) pg_env \<Rightarrow> crypto \<Rightarrow> 'p wire_lib \<Rightarrow> 'p auth_step list \<Rightarrow> sasl_phase \<Rightarrow> bool" where
  "phase_ok pg cr lib h ph \<longleftrightarrow> (case ph of
      AwaitingClientFirst server \<Rightarrow> \<exists>st \<in> set h. \<exists>v. looked_up pg cr st (RP_Scram v) \<and> server = scram_new v
    | AwaitingClientFinal server \<Rightarrow> challenged pg cr lib h server
    | _ \<Rightarrow> True)"

lemma phase_ok_mono: "phase_ok pg cr lib h ph \<Longrightarrow> phase_ok pg cr lib (h @ h') ph"
  by (cases ph) (fastforce simp: phase_ok_def challenged_def)+

lemma dispatch_finishes:
  assumes "dispatch_credential pg lib ph pw s = (Val (r, ph'), t, s')"
  shows "(Net Finish_authentication, a) \<in> set t \<Longrightarrow> pw = RP_None \<or> pw = RP_UnknownRole"
    and "ph' = ph \<or> (\<exists>v. pw = RP_Scram v \<and> ph' = AwaitingClientFirst (scram_new v))"
proof -
  have "(Net Finish_authentication, a) \<notin> set t" if "\<not> (pw = RP_None \<or> pw = RP_UnknownRole)"
    using that by (intro not_finishing[where m = "dispatch_credential pg lib ph pw", OF _ assms])
      (auto simp: dispatch_credential_def at_phase_def split: rol_password.split
        intro!: within_then within_calls within_bind within_try within_net within_ret within_reject)
  then show "(Net Finish_authentication, a) \<in> set t \<Longrightarrow> pw = RP_None \<or> pw = RP_UnknownRole" by blast
  show "ph' = ph \<or> (\<exists>v. pw = RP_Scram v \<and> ph' = AwaitingClientFirst (scram_new v))"
    using assms by (auto simp: dispatch_credential_def split: rol_password.splits
        dest!: at_phase_ValD elim!: then_ValD)
qed

lemma handle_startup_finishes:
  fixes lib :: "'p wire_lib"
  assumes "handle_startup pg cr lib ph ci s = (Val (r, ph'), t, s')"
  defines "st \<equiv> \<lparr>as_message = Startup ci, as_result = r, as_events = t\<rparr> :: 'p auth_step"
  shows "(Net Finish_authentication, a) \<in> set t \<Longrightarrow> no_password_needed pg cr st"
    and "ph' = ph \<or> (\<exists>v. looked_up pg cr st (RP_Scram v) \<and> ph' = AwaitingClientFirst (scram_new v))"
proof -
  obtain neg t1 s1 t2 where n: "net pg Protocol_negotiation s = (Val neg, t1, s1)" "t = t1 @ t2"
    and k: "(case neg of Inl e \<Rightarrow> ret (Inl e, ph)
    | Inr _ \<Rightarrow> then_prog (calls pg [Net Save_startup_parameters])
        (if startup_database ci \<noteq> lit ''postgres''
         then at_phase ph (reject pg (wrong_database lib (startup_database ci)))
         else bind_prog (hba_lookup pg cr (startup_user ci)) (dispatch_credential pg lib ph))) s1 = (Val (r, ph'), t2, s')"
    using assms(1) unfolding handle_startup_def by (elim bind_ValD)
  have t1: "(Net Finish_authentication, a) \<notin> set t1"
    by (rule not_finishing[where m = "net pg Protocol_negotiation", OF _ n(1)]) (simp add: within_net)
  have "((Net Finish_authentication, a) \<in> set t \<longrightarrow> no_password_needed pg cr st) \<and>
    (ph' = ph \<or> (\<exists>v. looked_up pg cr st (RP_Scram v) \<and> ph' = AwaitingClientFirst (scram_new v)))"
  proof (cases neg)
    case (Inl e)
    then show ?thesis using k t1 n(2) by (simp add: ret_def)
  next
    case (Inr u)
    obtain y t3 s3 t4 where c: "calls pg [Net Save_startup_parameters] s1 = (Val y, t3, s3)" "t2 = t3 @ t4"
      and k2: "(if startup_database ci \<noteq> lit ''postgres''
         then at_phase ph (reject pg (wrong_database lib (startup_database ci)))
         else bind_prog (hba_lookup pg cr (startup_user ci)) (dispatch_credential pg lib ph)) s3 = (Val (r, ph'), t4, s')"
      using k unfolding Inr sum.case by (elim then_ValD)
    have t3: "(Net Finish_authentication, a) \<notin> set t3"
      by (rule not_finishing[where m = "calls pg [Net Save_startup_parameters]", OF _ c(1)])
        (rule within_calls, simp)
    show ?thesis
    proof (cases "startup_database ci = lit ''postgres''")
      case False
      then have m: "reject pg (wrong_database lib (startup_database ci)) s3 = (Val r, t4, s')" "ph' = ph"
        using k2 at_phase_ValD[where m = "reject pg (wrong_database lib (startup_database ci))" and s = s3] by auto
      have "(Net Finish_authentication, a) \<notin> set t4"
        by (rule not_finishing[where m = "reject pg (wrong_database lib (startup_database ci))", OF _ m(1)]) (simp add: within_reject)
      then show ?thesis using t1 t3 n(2) c(2) m(2) by simp
    next
      case True
      obtain pw mid s5 t6 where l: "hba_lookup pg cr (startup_user ci) s3 = (Val pw, mid, s5)" "t4 = mid @ t6"
        and d: "dispatch_credential pg lib ph pw s5 = (Val (r, ph'), t6, s')"
        using k2 True by (auto elim!: bind_ValD)
      have "(Net Finish_authentication, a) \<notin> set mid"
        by (rule not_finishing[where m = "hba_lookup pg cr (startup_user ci)", OF within_mono[OF within_hba_lookup] l(1)]) auto
      moreover have "looked_up pg cr st pw"
        unfolding looked_up_def st_def
        by (rule exI[of _ ci], rule exI[of _ "t1 @ t3"], rule exI[of _ mid], rule exI[of _ t6])
          (use True l n(2) c(2) in auto)
      ultimately show ?thesis
        using dispatch_finishes(1)[OF d, of a] dispatch_finishes(2)[OF d] t1 t3 n(2) c(2) l(2) by (auto simp: no_password_needed_def)
    qed
  qed
  then show "(Net Finish_authentication, a) \<in> set t \<Longrightarrow> no_password_needed pg cr st"
    and "ph' = ph \<or> (\<exists>v. looked_up pg cr st (RP_Scram v) \<and> ph' = AwaitingClientFirst (scram_new v))"
    by blast+
qed

lemma handle_client_first_phase:
  assumes "handle_client_first pg cr lib msg server s = (Val (r, ph'), t, s')"
  shows "(Net Finish_authentication, a) \<notin> set t"
    and "ph' = Done \<or> (\<exists>body rnd sf server'. into_sasl_initial_response lib msg = Inr (SCRAM_SHA_256, body)
      \<and> on_client_first cr rnd server (case body of None \<Rightarrow> [] | Some d \<Rightarrow> d) = (Inr sf, server')
      \<and> ph' = AwaitingClientFinal server')"
proof -
  show "(Net Finish_authentication, a) \<notin> set t"
    by (rule not_finishing[where m = "handle_client_first pg cr lib msg server", OF _ assms])
      (auto simp: handle_client_first_def at_phase_def Let_def split: sum.split prod.split
        intro!: within_bind within_net within_ret within_reject within_reject_scram within_draw_nonce)
  show "ph' = Done \<or> (\<exists>body rnd sf server'. into_sasl_initial_response lib msg = Inr (SCRAM_SHA_256, body)
      \<and> on_client_first cr rnd server (case body of None \<Rightarrow> [] | Some d \<Rightarrow> d) = (Inr sf, server')
      \<and> ph' = AwaitingClientFinal server')"
    using assms unfolding handle_client_first_def
    by (auto simp: ret_def Let_def split: sum.splits prod.splits if_splits elim!: bind_ValD dest!: at_phase_ValD) blast
qed

lemma handle_client_final_finishes:
  assumes "handle_client_final pg cr lib msg server s = (r, t, s')" "(Net Finish_authentication, a) \<in> set t"
  shows "\<exists>data reply. into_sasl_response lib msg = Inr data \<and> on_client_final cr server data = Inr reply"
proof (rule ccontr)
  assume not: "\<not> ?thesis"
  have "(Net Finish_authentication, a) \<notin> set t"
    by (rule not_finishing[where m = "handle_client_final pg cr lib msg server", OF _ assms(1)])
      (use not in \<open>auto simp: handle_client_final_def split: sum.split intro!: within_ret within_reject_scram\<close>)
  with assms(2) show False by blast
qed

lemma unexpected_message:
  assumes "at_phase Done (reject pg outcome) s = (Val (r, ph'), t, s')"
  shows "ph' = Done" "(Net Finish_authentication, a) \<notin> set t"
  using at_phase_ValD[OF assms] not_finishing[where m = "reject pg outcome" and s = s and a = a]
    within_reject[of "\<lambda>c. \<not> finishing c" pg outcome] by auto

lemma on_startup_step:
  fixes lib :: "'p wire_lib"
  assumes ph: "phase_ok pg cr lib h ph" and run: "on_startup pg cr lib ph m s = (Val (r, ph'), t, s')"
  defines "st \<equiv> \<lparr>as_message = m, as_result = r, as_events = t\<rparr> :: 'p auth_step"
  shows "phase_ok pg cr lib (h @ [st]) ph' \<and>
    ((Net Finish_authentication, a) \<in> set t \<longrightarrow> no_password_needed pg cr st \<or> proved_password pg cr lib h st)"
proof (cases m)
  case (Startup ci)
  then have run': "handle_startup pg cr lib ph ci s = (Val (r, ph'), t, s')"
    using run by (simp add: on_startup_def)
  from handle_startup_finishes(1)[OF run', of a] handle_startup_finishes(2)[OF run'] phase_ok_mono[OF ph, of "[st]"] show ?thesis
    unfolding st_def Startup by (auto simp: phase_ok_def)
next
  case Other_Message
  then show ?thesis using run phase_ok_mono[OF ph, of "[st]"] by (auto simp: on_startup_def ret_def)
next
  case (PasswordMessageFamily msg)
  show ?thesis
  proof (cases ph)
    case (AwaitingClientFirst server)
    with run PasswordMessageFamily have run': "handle_client_first pg cr lib msg server s = (Val (r, ph'), t, s')"
      by (simp add: on_startup_def)
    obtain st0 v where v: "st0 \<in> set h" "looked_up pg cr st0 (RP_Scram v)" "server = scram_new v"
      using ph AwaitingClientFirst by (auto simp: phase_ok_def)
    have "challenged pg cr lib (h @ [st]) server'"
      if "into_sasl_initial_response lib msg = Inr (SCRAM_SHA_256, body)"
        "on_client_first cr rnd server (case body of None \<Rightarrow> [] | Some d \<Rightarrow> d) = (Inr sf, server')" for body rnd sf server'
      unfolding challenged_def
      by (rule exI[of _ st0], rule exI[of _ v], rule exI[of _ st], rule exI[of _ msg], rule exI[of _ body])
        (use that v PasswordMessageFamily in \<open>auto simp: st_def\<close>)
    then show ?thesis
      using handle_client_first_phase(1)[OF run', of a] handle_client_first_phase(2)[OF run'] by (auto simp: phase_ok_def)
  next
    case (AwaitingClientFinal server)
    with run PasswordMessageFamily have "handle_client_final pg cr lib msg server s = (Val r, t, s')" "ph' = Done"
      by (auto simp: on_startup_def dest: at_phase_ValD)
    moreover have "challenged pg cr lib h server" using ph AwaitingClientFinal by (simp add: phase_ok_def)
    ultimately show ?thesis
      using handle_client_final_finishes[of pg cr lib msg server s "Val r" t s' a] PasswordMessageFamily
      by (auto simp: phase_ok_def proved_password_def st_def)
  next
    case Idle
    with run PasswordMessageFamily have "at_phase Done (reject pg (Reject (lit ''08P01'')
        (lit ''pg_transport: unexpected password message''))) s = (Val (r, ph'), t, s')"
      by (simp add: on_startup_def del: lit_simps)
    from unexpected_message(1)[OF this] unexpected_message(2)[OF this, of a] show ?thesis by (simp add: phase_ok_def)
  next
    case Done
    with run PasswordMessageFamily have "at_phase Done (reject pg (Reject (lit ''08P01'')
        (lit ''pg_transport: unexpected password message''))) s = (Val (r, ph'), t, s')"
      by (simp add: on_startup_def del: lit_simps)
    from unexpected_message(1)[OF this] unexpected_message(2)[OF this, of a] show ?thesis by (simp add: phase_ok_def)
  qed
qed

lemma session_ok:
  assumes "session pg cr lib h ph"
  shows "phase_ok pg cr lib h ph"
  using assms
proof induction
  case session_start show ?case by (simp add: phase_ok_def)
next
  case (session_message h ph m s r ph' t s') then show ?case
    by (intro conjunct1[OF on_startup_step])
qed

text \<open>C31. Authentication cannot be bypassed: in a connection, whatever messages the client
  sends in whatever order and whatever fails on the way, a message that leads to
  \<open>finish_authentication\<close> is either a startup message for the served database whose user has
  no password in the catalog, or a password message whose proof the SCRAM check accepts, in
  an exchange opened by an earlier message of the same connection for a verifier that the
  catalog held for the user of an earlier startup message.
\<close>

theorem login_needs_credential:
  assumes "session pg cr lib h ph" and "st \<in> set h" and "(Net Finish_authentication, a) \<in> set (as_events st)"
  shows "\<exists>before. (\<exists>after. h = before @ st # after)
    \<and> (no_password_needed pg cr st \<or> proved_password pg cr lib before st)"
  using assms
proof induction
  case (session_message h ph m s r ph' t s')
  let ?new = "\<lparr>as_message = m, as_result = r, as_events = t\<rparr>"
  show ?case
  proof (cases "st \<in> set h")
    case True
    with session_message show ?thesis by fastforce
  next
    case False
    with session_message.prems have "st = ?new" by simp
    with on_startup_step[OF session_ok[OF session_message.hyps(1)] session_message.hyps(2), of a] session_message.prems
    show ?thesis by auto
  qed
qed simp

text \<open>A connection whose user has no password, and the library for the examples.\<close>

definition demo_wire :: "bytes wire_lib" where
  "demo_wire = \<lparr>into_sasl_initial_response = (\<lambda>p. Inr (SCRAM_SHA_256, Some p)), into_sasl_response = Inr,
     debug_str = (\<lambda>s. lit ''\"'' @ s @ lit ''\"'')\<rparr>"

definition bob :: client_info where
  "bob = \<lparr>meta_user = Some (lit ''bob''), meta_database = Some (lit ''postgres'')\<rparr>"

lemmas startup_eval = on_startup_def handle_startup_def dispatch_credential_def net_def accept_def at_phase_def
  try_prog_def bob_def startup_user_def startup_database_def lookup_eval

lemma trusted_login:
  "\<exists>t. on_startup (catalog_env V_Unit (V_Str None)) toy_crypto demo_wire Idle (Startup bob) ()
     = (Val (Inr (), Idle), t, ()) \<and> (Net Finish_authentication, Val V_Unit) \<in> set t"
  by (simp add: startup_eval)

theorem login_needs_credential_witness:
  "\<exists>st. no_password_needed (catalog_env V_Unit (V_Str None)) toy_crypto st
     \<or> proved_password (catalog_env V_Unit (V_Str None)) toy_crypto demo_wire [] st"
proof -
  obtain t where run: "on_startup (catalog_env V_Unit (V_Str None)) toy_crypto demo_wire Idle (Startup bob) ()
     = (Val (Inr (), Idle), t, ())" and fin: "(Net Finish_authentication, Val V_Unit) \<in> set t"
    using trusted_login by blast
  let ?st = "\<lparr>as_message = Startup bob, as_result = Inr (), as_events = t\<rparr>"
  have "session (catalog_env V_Unit (V_Str None)) toy_crypto demo_wire ([] @ [?st]) Idle"
    by (rule session_message[OF session_start run])
  from login_needs_credential[OF this, of ?st "Val V_Unit"] fin show ?thesis
    by (auto simp: Cons_eq_append_conv)
qed

section \<open>A login by password completes\<close>

text \<open>A connection whose sends succeed, and a random source that answers \<open>rnd\<close>.\<close>

fun net_answer :: "bytes \<Rightarrow> net_call \<Rightarrow> pg_value" where
  "net_answer rnd (Strong_random n) = V_Bytes rnd"
| "net_answer rnd _ = V_Unit"

definition net_up :: "(pg_call, 's) pg_env \<Rightarrow> bytes \<Rightarrow> bool" where
  "net_up pg rnd \<longleftrightarrow> (\<forall>c s. \<exists>s'. pg (Net c) s = (Val (net_answer rnd c), s'))"

lemma net_up_call: "net_up pg rnd \<Longrightarrow> \<exists>s'. call pg (Net c) s = (Val (net_answer rnd c), [(Net c, Val (net_answer rnd c))], s')"
proof -
  assume "net_up pg rnd"
  then obtain s' where "pg (Net c) s = (Val (net_answer rnd c), s')" unfolding net_up_def by blast
  then show ?thesis by (simp add: call_def)
qed

lemma net_up_net:
  assumes "net_up pg rnd" "\<And>n. c \<noteq> Strong_random n"
  shows "\<exists>s'. net pg c s = (Val (Inr ()), [(Net c, Val V_Unit)], s')"
proof -
  have "net_answer rnd c = V_Unit" using assms(2) by (cases c) auto
  then show ?thesis using net_up_call[OF assms(1), of c s] by (auto simp: net_def bind_prog_def ret_def)
qed

lemma accept_up:
  assumes "net_up pg rnd"
  shows "\<exists>t s'. accept pg s = (Val (Inr ()), t, s') \<and> map fst t = [Net Generate_pid_and_key, Net Finish_authentication]"
proof -
  obtain s1 where g: "call pg (Net Generate_pid_and_key) s = (Val V_Unit, [(Net Generate_pid_and_key, Val V_Unit)], s1)"
    using net_up_call[OF assms, of Generate_pid_and_key s] by auto
  obtain s2 where f: "net pg Finish_authentication s1 = (Val (Inr ()), [(Net Finish_authentication, Val V_Unit)], s2)"
    using net_up_net[OF assms, of Finish_authentication s1] by auto
  show ?thesis using g f by (simp add: accept_def calls.simps then_prog_def bind_prog_def try_prog_def ret_def)
qed

lemma startup_up:
  assumes "net_up pg rnd" "startup_database ci = lit ''postgres''"
    and lookup: "\<And>s. \<exists>t s'. hba_lookup pg cr (startup_user ci) s = (Val (RP_Scram v), t, s')"
  shows "\<exists>t s'. on_startup pg cr lib ph (Startup ci) s = (Val (Inr (), AwaitingClientFirst (scram_new v)), t, s')"
proof -
  obtain s1 where n: "net pg Protocol_negotiation s = (Val (Inr ()), [(Net Protocol_negotiation, Val V_Unit)], s1)"
    using net_up_net[OF assms(1), of Protocol_negotiation s] by auto
  obtain s2 where p: "call pg (Net Save_startup_parameters) s1 = (Val V_Unit, [(Net Save_startup_parameters, Val V_Unit)], s2)"
    using net_up_call[OF assms(1), of Save_startup_parameters s1] by auto
  obtain t s3 where l: "hba_lookup pg cr (startup_user ci) s2 = (Val (RP_Scram v), t, s3)" using lookup by blast
  obtain s4 where a: "call pg (Net Set_state_auth_in_progress) s3 = (Val V_Unit, [(Net Set_state_auth_in_progress, Val V_Unit)], s4)"
    using net_up_call[OF assms(1), of Set_state_auth_in_progress s3] by auto
  obtain s5 where f: "net pg (Send (F_SASL [SCRAM_SHA_256])) s4 = (Val (Inr ()), [(Net (Send (F_SASL [SCRAM_SHA_256])), Val V_Unit)], s5)"
    using net_up_net[OF assms(1), of "Send (F_SASL [SCRAM_SHA_256])" s4] by auto
  show ?thesis using n p l a f assms(2)
    by (simp add: on_startup_def handle_startup_def dispatch_credential_def at_phase_def calls.simps
        then_prog_def bind_prog_def try_prog_def ret_def del: lit_simps)
qed

lemma client_first_up:
  assumes "net_up pg rnd" "into_sasl_initial_response lib m = Inr (SCRAM_SHA_256, Some (client_first_message user nonce))"
    and plain: "COMMA \<notin> set user" "COMMA \<notin> set nonce" "nonce \<noteq> []" "is_ascii user" "is_ascii nonce"
  shows "\<exists>t s'. on_startup pg cr lib (AwaitingClientFirst (scram_new v)) (PasswordMessageFamily m) s
    = (Val (Inr (), AwaitingClientFinal (honest_server cr v user nonce (nonce @ b64_no_pad cr rnd))), t, s')"
proof -
  let ?msg = "client_first_message user nonce" and ?sf = "server_first_message cr v (nonce @ b64_no_pad cr rnd)"
  have "valid_utf8 ?msg" using plain(4,5) by (intro ascii_valid) (simp add: client_first_message_def)
  then obtain t1 s1 where d: "draw_nonce pg ?msg s = (Val (Some rnd), t1, s1)"
    using net_up_call[OF assms(1), of "Strong_random NONCE_BYTES" s] parse_client_first_message[OF plain(1-3)]
    by (auto simp: draw_nonce_def bind_prog_def ret_def)
  obtain s2 where f: "net pg (Send (F_SASL_Continue ?sf)) s1 = (Val (Inr ()), [(Net (Send (F_SASL_Continue ?sf)), Val V_Unit)], s2)"
    using net_up_net[OF assms(1), of "Send (F_SASL_Continue ?sf)" s1] by auto
  show ?thesis using d f assms(2) honest_first[OF plain, of cr rnd v]
    by (simp add: on_startup_def handle_client_first_def bind_prog_def ret_def Let_def honest_server_def)
qed

text \<open>C32. A login by password completes: when the connection works and the catalog holds a
  verifier for the user, a client that knows the client key behind it and follows RFC 5802
  without extensions is through after three messages, whatever state the connection was in;
  the last one is answered by the server's signature, the key data and
  \<open>finish_authentication\<close>, in this order.
\<close>

theorem honest_login_completes:
  assumes "crypto_ok cr" and "stored_key v = sha256 cr client_key" "length client_key = SHA256_BYTES"
    and "COMMA \<notin> set user" "is_ascii user" "COMMA \<notin> set nonce" "is_ascii nonce" "nonce \<noteq> []"
    and "net_up pg rnd" and "startup_database ci = lit ''postgres''"
    and "\<And>s. \<exists>t s'. hba_lookup pg cr (startup_user ci) s = (Val (RP_Scram v), t, s')"
    and "into_sasl_initial_response lib m1 = Inr (SCRAM_SHA_256, Some (client_first_message user nonce))"
    and "into_sasl_response lib m2 = Inr (client_final_message cr (nonce @ b64_no_pad cr rnd)
          (honest_proof cr v client_key (honest_auth_message cr v user nonce (nonce @ b64_no_pad cr rnd))))"
  shows "\<exists>ph1 ph2 t1 s1 t2 s2 t3 s3.
    on_startup pg cr lib ph (Startup ci) s = (Val (Inr (), ph1), t1, s1)
    \<and> on_startup pg cr lib ph1 (PasswordMessageFamily m1) s1 = (Val (Inr (), ph2), t2, s2)
    \<and> on_startup pg cr lib ph2 (PasswordMessageFamily m2) s2 = (Val (Inr (), Done), t3, s3)
    \<and> map fst t3 = [Net (Send (F_SASL_Final (lit ''v='' @ b64 cr (hmac_sha256 cr (server_key v)
          (honest_auth_message cr v user nonce (nonce @ b64_no_pad cr rnd)))))),
        Net Generate_pid_and_key, Net Finish_authentication]"
proof -
  let ?full = "nonce @ b64_no_pad cr rnd"
  let ?reply = "lit ''v='' @ b64 cr (hmac_sha256 cr (server_key v) (honest_auth_message cr v user nonce ?full))"
  obtain t1 s1 where 1: "on_startup pg cr lib ph (Startup ci) s = (Val (Inr (), AwaitingClientFirst (scram_new v)), t1, s1)"
    using startup_up[OF assms(9-11)] by blast
  obtain t2 s2 where 2: "on_startup pg cr lib (AwaitingClientFirst (scram_new v)) (PasswordMessageFamily m1) s1
      = (Val (Inr (), AwaitingClientFinal (honest_server cr v user nonce ?full)), t2, s2)"
    using client_first_up[OF assms(9,12,4,6,8,5,7)] by blast
  obtain s3 where f: "net pg (Send (F_SASL_Final ?reply)) s2 = (Val (Inr ()), [(Net (Send (F_SASL_Final ?reply)), Val V_Unit)], s3)"
    using net_up_net[OF assms(9), of "Send (F_SASL_Final ?reply)" s2] by auto
  obtain t4 s4 where a: "accept pg s3 = (Val (Inr ()), t4, s4)" "map fst t4 = [Net Generate_pid_and_key, Net Finish_authentication]"
    using accept_up[OF assms(9), of s3] by auto
  have final: "on_client_final cr (honest_server cr v user nonce ?full) (client_final_message cr ?full
      (honest_proof cr v client_key (honest_auth_message cr v user nonce ?full))) = Inr ?reply"
    using assms(6-8) crypto_okD(7,8)[OF assms(1)] by (intro honest_final[OF assms(1-3)]) auto
  have 3: "on_startup pg cr lib (AwaitingClientFinal (honest_server cr v user nonce ?full)) (PasswordMessageFamily m2) s2
      = (Val (Inr (), Done), (Net (Send (F_SASL_Final ?reply)), Val V_Unit) # t4, s4)"
    using f a(1) final
    by (simp add: on_startup_def handle_client_final_def assms(13) at_phase_def bind_prog_def try_prog_def ret_def del: lit_simps)
  have 4: "map fst ((Net (Send (F_SASL_Final ?reply)), Val V_Unit) # t4)
      = [Net (Send (F_SASL_Final ?reply)), Net Generate_pid_and_key, Net Finish_authentication]"
    using a(2) by simp
  show ?thesis by (intro exI conjI) (rule 1, rule 2, rule 3, rule 4)
qed

text \<open>The stored form of the toy verifier in the catalog, and the client that knows its key.\<close>

definition login_env :: "(pg_call, unit) pg_env" where
  "login_env c s = (case c of
      Net n \<Rightarrow> (Val (net_answer [3] n), s)
    | _ \<Rightarrow> catalog_env V_Unit (V_Str (Some (stored_form toy_crypto toy_verifier))) c s)"

lemma login_lookup: "\<exists>t s'. hba_lookup login_env toy_crypto (startup_user bob) s = (Val (RP_Scram toy_verifier), t, s')"
proof -
  have "parse_verifier toy_crypto (stored_form toy_crypto toy_verifier) = RP_Scram toy_verifier"
    by (rule parse_stored_form[OF toy_crypto_ok toy_separable]) (simp_all add: toy_verifier_def toy_crypto_def)
  then show ?thesis by (simp add: lookup_eval login_env_def del: lit_simps)
qed

theorem honest_login_completes_witness:
  "\<exists>ph2 t3 s3. on_startup login_env toy_crypto demo_wire ph2 (PasswordMessageFamily
      (client_final_message toy_crypto (lit ''abc'' @ b64_no_pad toy_crypto [3])
          (honest_proof toy_crypto toy_verifier (replicate 32 5)
            (honest_auth_message toy_crypto toy_verifier (lit ''bob'') (lit ''abc'')
               (lit ''abc'' @ b64_no_pad toy_crypto [3]))))) () = (Val (Inr (), Done), t3, s3)"
proof -
  have up: "net_up login_env [3]" by (simp add: net_up_def login_env_def)
  have wire: "into_sasl_initial_response demo_wire (client_first_message (lit ''bob'') (lit ''abc''))
      = Inr (SCRAM_SHA_256, Some (client_first_message (lit ''bob'') (lit ''abc'')))"
    "into_sasl_response demo_wire m = Inr m" for m
    by (simp_all add: demo_wire_def)
  have key: "stored_key toy_verifier = sha256 toy_crypto (replicate 32 5)" "length (replicate 32 (5 :: 8 word)) = SHA256_BYTES"
    by (simp_all add: toy_verifier_def SHA256_BYTES_def)
  have db: "startup_database bob = lit ''postgres''" by (simp add: startup_database_def bob_def)
  show ?thesis
    using honest_login_completes[where user = "lit ''bob''" and nonce = "lit ''abc''" and ph = Idle and s = "()",
        OF toy_crypto_ok key _ _ _ _ _ up db login_lookup wire(1) wire(2)]
    by (simp del: lit_simps) (simp, blast)
qed

end
