(* ===== verification/Guc.thy ===== *)
theory Guc
  imports Rust_Text
begin

text \<open>
  \<open>guc.rs\<close>: the registered settings and their typed accessors; \<open>lib.rs\<close>: the start-up
  hook and the packed version number.  A setting that was never set is \<open>None\<close>.  The quoted \<open>Debug\<close> form of a
  string is a parameter, as in the startup handler.
\<close>

section \<open>Settings\<close>

datatype auth_source = PgHba | PgTransport

datatype execution_backend = Backend_Spi | Backend_Direct

definition em_dash :: bytes where "em_dash = [0xE2, 0x80, 0x94]"

definition decode_auth_source :: "(bytes \<Rightarrow> bytes) \<Rightarrow> bytes option \<Rightarrow> bytes + auth_source" where
  "decode_auth_source debug raw =
    (let s = (case raw of None \<Rightarrow> [] | Some c \<Rightarrow> c) in
     if s = lit ''pg_hba'' then Inr PgHba
     else if s = lit ''pg_transport'' then Inr PgTransport
     else if s = [] then Inl (lit ''pg_transport.auth_source is required but unset '' @ em_dash
       @ lit '' set it to 'pg_hba' or 'pg_transport' in postgresql.conf'')
     else Inl (lit ''invalid pg_transport.auth_source value '' @ debug s
       @ lit '' '' @ em_dash @ lit '' expected 'pg_hba' or 'pg_transport'' @ [0x27]))"

text \<open>\<open>validate_required\<close> ends the start of the server with the message; \<open>auth_source\<close> panics.\<close>

definition validate_required :: "(bytes \<Rightarrow> bytes) \<Rightarrow> bytes option \<Rightarrow> bytes option" where
  "validate_required debug raw = (case decode_auth_source debug raw of Inl msg \<Rightarrow> Some msg | Inr _ \<Rightarrow> None)"

definition auth_source_get :: "(bytes \<Rightarrow> bytes) \<Rightarrow> bytes option \<Rightarrow> auth_source option" where
  "auth_source_get debug raw = (case decode_auth_source debug raw of Inl _ \<Rightarrow> None | Inr a \<Rightarrow> Some a)"

text \<open>A signed setting read as an unsigned number.\<close>

definition max_backend_pool_size :: "32 word \<Rightarrow> nat" where
  "max_backend_pool_size raw = unat raw"

definition tls_files :: "bytes option \<Rightarrow> bytes option \<Rightarrow> bytes + (bytes \<times> bytes) option" where
  "tls_files cert_setting key_setting =
    (let cert = (case cert_setting of None \<Rightarrow> [] | Some c \<Rightarrow> c);
         key = (case key_setting of None \<Rightarrow> [] | Some k \<Rightarrow> k) in
     if cert = [] \<and> key = [] then Inr None
     else if cert \<noteq> [] \<and> key \<noteq> [] then Inr (Some (cert, key))
     else if cert = [] then Inl (lit ''pg_transport.tls_key_file is set but pg_transport.tls_cert_file is not'')
     else Inl (lit ''pg_transport.tls_cert_file is set but pg_transport.tls_key_file is not''))"

section \<open>Registration and start-up\<close>

datatype guc_context = Guc_Suset | Guc_Postmaster | Guc_Userset

datatype guc_def =
    Int_Guc string int int guc_context
  | String_Guc string guc_context
  | Enum_Guc string "string list" guc_context

definition guc_register :: "guc_def list" where
  "guc_register =
    [Int_Guc ''pg_transport.max_backend_pool_size'' 1 1024 Guc_Suset,
     String_Guc ''pg_transport.auth_source'' Guc_Postmaster,
     String_Guc ''pg_transport.tls_cert_file'' Guc_Postmaster,
     String_Guc ''pg_transport.tls_key_file'' Guc_Postmaster,
     Enum_Guc ''pg_transport.execution_backend'' [''spi'', ''direct''] Guc_Userset]"

text \<open>
  \<open>_PG_init\<close>: what it does in order.  \<open>Init_Fatal\<close> ends the process.  \<open>raw\<close> is the
  setting of \<open>auth_source\<close> once the settings are registered.
\<close>

datatype init_effect =
    Init_Fatal bytes | Init_Define guc_def | Init_Crypto_Provider | Init_Register_Frontend

definition pg_init :: "(bytes \<Rightarrow> bytes) \<Rightarrow> bool \<Rightarrow> bytes option \<Rightarrow> init_effect list" where
  "pg_init debug in_spl raw =
    (if \<not> in_spl then [Init_Fatal (lit ''pg_transport must be in shared_preload_libraries'')]
     else map Init_Define guc_register
       @ (case validate_required debug raw of
            Some msg \<Rightarrow> [Init_Fatal msg]
          | None \<Rightarrow> [Init_Crypto_Provider, Init_Register_Frontend]))"

text \<open>The frontend only ever starts with a valid source of authentication.\<close>

lemma frontend_registered_iff:
  "Init_Register_Frontend \<in> set (pg_init debug in_spl raw) \<longleftrightarrow>
     in_spl \<and> raw \<in> {Some (lit ''pg_hba''), Some (lit ''pg_transport'')}"
proof -
  have "[] = lit s \<longleftrightarrow> s = []" for s by (auto simp: lit_def)
  then show ?thesis
    by (cases raw) (auto simp: pg_init_def validate_required_def decode_auth_source_def Let_def simp del: lit_simps)
qed

section \<open>The packed version\<close>

text \<open>\<open>None\<close> is the failed assertion, or the overflow that stops the compilation.\<close>

fun parse_u16_from :: "nat \<Rightarrow> bytes \<Rightarrow> nat option" where
  "parse_u16_from acc [] = Some acc"
| "parse_u16_from acc (b # bs) =
    (if \<not> is_digit b then None
     else let acc' = acc * 10 + digit_val b in if acc' < 0x10000 then parse_u16_from acc' bs else None)"

definition parse_u16 :: "bytes \<Rightarrow> nat option" where
  "parse_u16 s = parse_u16_from 0 s"

definition extension_version :: "nat \<Rightarrow> nat \<Rightarrow> nat \<Rightarrow> int" where
  "extension_version major minor patch = int major * 10000 + int minor * 100 + int patch"

lemma validated_auth_source: "validate_required debug raw = None \<longleftrightarrow> auth_source_get debug raw \<noteq> None"
  by (simp add: validate_required_def auth_source_get_def split: sum.split)

lemma foldl_digits_mono: "acc \<le> foldl (\<lambda>a b. 10 * a + digit_val b) acc s"
proof (induction s arbitrary: acc)
  case (Cons b s)
  have "acc \<le> 10 * acc + digit_val b" by simp
  also have "\<dots> \<le> foldl (\<lambda>a b. 10 * a + digit_val b) (10 * acc + digit_val b) s" by (rule Cons.IH)
  finally show ?case by simp
qed simp

lemma parse_u16_from_show:
  "list_all is_digit s \<Longrightarrow> foldl (\<lambda>a b. 10 * a + digit_val b) acc s < 0x10000 \<Longrightarrow>
    parse_u16_from acc s = Some (foldl (\<lambda>a b. 10 * a + digit_val b) acc s)"
proof (induction s arbitrary: acc)
  case (Cons b s)
  have "acc * 10 + digit_val b < 0x10000" using foldl_digits_mono[of "10 * acc + digit_val b" s] Cons.prems by (simp add: mult.commute)
  then show ?case using Cons by (simp add: Let_def mult.commute)
qed simp

lemma parse_u16_show: "n < 0x10000 \<Longrightarrow> parse_u16 (show_nat n) = Some n"
  using parse_u16_from_show[of "show_nat n" 0] show_nat_digits[of n] digits_val_show[of n]
  by (simp add: parse_u16_def digits_val_def)

end
