(* ===== verification/Extended.thy ===== *)
theory Extended
  imports Extended_Spi Extended_Direct Startup Guc
begin

text \<open>
  \<open>backend/extended/mod.rs\<close> and \<open>wire/extended.rs\<close>: the entry points of the extended
  query protocol, which choose the backend, and the callbacks of the wire library.  The
  last section is the dispatch of simple queries in \<open>wire/pgwire_v3.rs\<close>.
\<close>

section \<open>Transaction control as a plan\<close>

definition xact_control_execute ::
  "(pg_call, 's) pg_env \<Rightarrow> xact_cmd \<Rightarrow> bytes option list \<Rightarrow> ('s, response) pg_result" where
  "xact_control_execute pg cmd params =
    (if params \<noteq> []
     then ret (Inl (generic_error (lit ''pg_transport extended'')
       (lit ''transaction-control statement takes no parameters; got '' @ show_nat (length params))))
     else handle_xact_control_one pg cmd)"

section \<open>Parse and Execute\<close>

definition plan_execute ::
  "(pg_call, 's) pg_env \<Rightarrow> prepared_plan \<Rightarrow> bytes option list \<Rightarrow> format \<Rightarrow> format \<Rightarrow> 64 word
     \<Rightarrow> ('s, response) pg_result" where
  "plan_execute pg plan params pf rf max_rows =
    (case plan of
       Spi_Backend b \<Rightarrow> spi_execute_impl pg b params pf rf max_rows
     | Direct_Backend b \<Rightarrow> direct_execute_impl pg b params pf rf max_rows
     | Xact_Control cmd \<Rightarrow> xact_control_execute pg cmd params)"

text \<open>\<open>PreparedStatement::execute\<close>; a NUL in the stored text panics.\<close>

definition statement_execute ::
  "(pg_call, 's) pg_env \<Rightarrow> prepared_statement \<Rightarrow> bytes option list \<Rightarrow> format \<Rightarrow> format \<Rightarrow> 64 word
     \<Rightarrow> ('s, response) pg_result" where
  "statement_execute pg st params pf rf max_rows =
    (if 0 \<in> set (ps_sql st) then panic (Panic_String (lit ''prepared SQL is parser-validated NUL-free''))
     else query_guards pg (ps_sql st) (plan_execute pg (ps_plan st) params pf rf max_rows))"

definition prepare ::
  "(pg_call, 's) pg_env \<Rightarrow> libs \<Rightarrow> execution_backend \<Rightarrow> bytes \<Rightarrow> nat option list \<Rightarrow> ('s, prepared_statement) pg_result" where
  "prepare pg lib backend sql hints =
    (if 0 \<in> set sql then ret (Inl (nul_error (lit ''pg_transport'')))
     else query_guards pg sql
       (case backend of
          Backend_Spi \<Rightarrow> spi_prepare pg lib sql hints
        | Backend_Direct \<Rightarrow> direct_prepare pg lib sql hints))"

section \<open>The callbacks\<close>

record portal =
  po_statement :: prepared_statement
  po_parameters :: "bytes option list"
  po_parameter_format :: format
  po_result_column_format :: format

definition parse_sql ::
  "(pg_call, 's) pg_env \<Rightarrow> libs \<Rightarrow> execution_backend \<Rightarrow> bytes \<Rightarrow> nat option list \<Rightarrow> ('s, prepared_statement) pg_result" where
  "parse_sql pg lib backend sql types = try_prog (prepare pg lib backend sql types) (\<lambda>st. ret (Inr st))"

definition get_parameter_types :: "prepared_statement \<Rightarrow> nat list" where
  "get_parameter_types st = ps_param_types st"

definition get_result_schema :: "prepared_statement \<Rightarrow> format option \<Rightarrow> field_info list" where
  "get_result_schema st column_format = ps_result_schema st"

definition do_query :: "(pg_call, 's) pg_env \<Rightarrow> portal \<Rightarrow> 64 word \<Rightarrow> ('s, response) pg_result" where
  "do_query pg p max_rows =
    statement_execute pg (po_statement p) (po_parameters p) (po_parameter_format p) (po_result_column_format p) max_rows"

definition do_describe_statement :: "prepared_statement \<Rightarrow> nat list \<times> field_info list" where
  "do_describe_statement st = (ps_param_types st, ps_result_schema st)"

definition do_describe_portal :: "portal \<Rightarrow> field_info list" where
  "do_describe_portal p = ps_result_schema (po_statement p)"

section \<open>Simple queries\<close>

definition do_simple_query ::
  "(pg_call, 's) pg_env \<Rightarrow> libs \<Rightarrow> execution_backend \<Rightarrow> bytes \<Rightarrow> ('s, response list) pg_result" where
  "do_simple_query pg lib backend query =
    (case backend of
       Backend_Spi \<Rightarrow> execute_simple_query pg lib query
     | Backend_Direct \<Rightarrow> execute_simple_query_direct pg lib query)"

section \<open>Both keep the transaction protocol\<close>

lemma prepare_safe: "tx_safe (prepare pg lib backend sql hints) (tx_idle True)"
  unfolding prepare_def
  using spi_prepare_safe direct_prepare_safe
  by (auto simp: tx_safe_def intro!: keeps_ret query_guards_tx split: execution_backend.split)

lemma execute_safe: "tx_safe (statement_execute pg st params pf rf max_rows) (tx_idle True)"
proof -
  have "tx_safe (plan_execute pg (ps_plan st) params pf rf max_rows) (tx_idle True)"
    using spi_execute_safe direct_execute_safe handle_xact_control_one_safe
    by (auto simp: plan_execute_def xact_control_execute_def tx_safe_def intro: keeps_ret split: prepared_plan.split)
  then show ?thesis
    by (auto simp: statement_execute_def tx_safe_def intro: keeps_panic query_guards_tx)
qed

end
