(* ===== verification/Extended_Status.thy ===== *)
theory Extended_Status
  imports Block_Status Extended
begin

text \<open>
  The status machine of the extended query protocol, and a client's whole session on both
  protocols and both backends.  Parse and Execute open their bracket without asking whether
  the block is aborted: what that admits is part of the specification.
\<close>

section \<open>The bracket of the direct backend\<close>

lemma served_step_snapshot: "snapshot_call c \<Longrightarrow> served_step b (c, r) = Some b' \<Longrightarrow> b' = b"
  by (cases c) (auto simp: snapshot_call_def served_step_def split: outcome.splits)

lemma serves_with_xact:
  assumes "within snapshot_call body"
  shows "serves (with_xact pg True body) (resting st) (ends_in (\<lambda>ok. bracket_status ok st))"
proof -
  have close: "serves (then_prog (xact_close pg True) (ret x)) (command_open st) (ends_in (\<lambda>ok. bracket_status ok st))" for x
    using serves_close by (simp add: xact_close_def)
  have body: "serves body a (\<lambda>r b. b = a)" for a by (rule tracks_within[OF assms served_step_snapshot])
  have tail: "serves (bind_prog (catch_unwind body) (\<lambda>outcome. case outcome of
          Inr (Inr value) \<Rightarrow> then_prog (xact_close pg True) (ret (Inr value))
        | Inr (Inl err) \<Rightarrow> then_prog (xact_close pg True) (ret (Inl err))
        | Inl payload \<Rightarrow> then_prog (calls pg [Tx AbortCurrentTransaction]) (ret (Inl (panic_to_pgwire payload)))))
      (command_open st) (ends_in (\<lambda>ok. bracket_status ok st))"
    by (rule tracks_caught, rule tracks_conseq[OF body])
      (auto split: outcome.split sum.split intro!: close serves_bracket_abort)
  show ?thesis
    unfolding with_xact_def by (cases st) (use tail in \<open>auto intro!: tracks_intros\<close>)
qed

section \<open>Parse and Execute\<close>

lemma serves_unless_refused:
  "serves m (resting st) (ends_in (\<lambda>ok. bracket_status ok st)) \<Longrightarrow>
    serves (if refuse then ret (Inl e) else m) (resting st) (ends_in (\<lambda>ok. bracket_status ok st))"
  by (cases st) (auto intro!: tracks_ret)

lemma serves_guards:
  "serves m b (ends_in S) \<Longrightarrow> serves (query_guards pg sql m) b (ends_in S)"
  by (rule tracks_query_guards) (auto simp: served_step_still)

lemma serves_prepare: "serves (prepare pg lib backend sql hints) (resting st) (ends_in (\<lambda>ok. bracket_status ok st))"
proof -
  have "serves (spi_prepare pg lib sql hints) (resting st) (ends_in (\<lambda>ok. bracket_status ok st))"
    unfolding spi_prepare_def by (intro serves_unless_refused serves_with_spi spi_prepare_body_worker)
  moreover have "serves (direct_prepare pg lib sql hints) (resting st) (ends_in (\<lambda>ok. bracket_status ok st))"
    unfolding direct_prepare_def by (intro serves_unless_refused serves_with_xact direct_prepare_body_within)
  ultimately show ?thesis
    unfolding prepare_def by (intro serves_unless_refused serves_guards) (auto split: execution_backend.split)
qed

text \<open>Execute by the kind of plan; refused parameters leave the session where it was.\<close>

definition execute_status :: "prepared_plan \<Rightarrow> bool \<Rightarrow> xact_status \<Rightarrow> xact_status set" where
  "execute_status plan done st =
    (case plan of
       Xact_Control cmd \<Rightarrow> control_status cmd done st \<union> (if done then {} else {st})
     | _ \<Rightarrow> bracket_status done st)"

lemma serves_execute:
  "serves (statement_execute pg stmt params pf rf max_rows) (resting st) (ends_in (\<lambda>ok. execute_status (ps_plan stmt) ok st))"
proof -
  have "serves (spi_execute_impl pg b params pf rf max_rows) (resting st) (ends_in (\<lambda>ok. bracket_status ok st))" for b
    unfolding spi_execute_impl_def by (intro serves_unless_refused serves_with_spi spi_execute_body_worker)
  moreover have "serves (direct_execute_impl pg b params pf rf max_rows) (resting st) (ends_in (\<lambda>ok. bracket_status ok st))" for b
    unfolding direct_execute_impl_def by (intro serves_unless_refused serves_with_xact direct_execute_body_within)
  moreover have "serves (xact_control_execute pg cmd params) (resting st)
      (ends_in (\<lambda>ok. control_status cmd ok st \<union> (if ok then {} else {st})))" for cmd
    unfolding xact_control_execute_def
    by (auto intro!: tracks_ret tracks_conseq[OF serves_xact_control] elim!: ends_in_mono)
  ultimately have "serves (plan_execute pg plan params pf rf max_rows) (resting st)
      (ends_in (\<lambda>ok. execute_status plan ok st))" for plan
    unfolding plan_execute_def execute_status_def by (cases plan) simp_all
  then show ?thesis
    unfolding statement_execute_def by (auto intro!: serves_guards tracks_panic)
qed

section \<open>A response needs its statement run\<close>

text \<open>
  A program that is stopped at the events \<open>E\<close> never returns a response: whenever it does
  return one, one of them happened.
\<close>

abbreviation stopped_at :: "(pg_call event \<Rightarrow> bool) \<Rightarrow> unit \<Rightarrow> pg_call event \<Rightarrow> unit option" where
  "stopped_at E \<equiv> without E (\<lambda>a e. Some ())"

abbreviation needs_event :: "(pg_call event \<Rightarrow> bool) \<Rightarrow> (pg_call, 's, 'e + 'a) prog \<Rightarrow> bool" where
  "needs_event E m \<equiv> tracks (stopped_at E) m () (\<lambda>r b. \<forall>x. r \<noteq> Val (Inr x))"

lemma tracks_any: "tracks step m a (\<lambda>r b. True)"
  by (simp add: tracks_def)

lemma needs_ret: "needs_event E (ret (Inl e))"
  by (rule tracks_ret) simp

lemma needs_bind: "(\<And>x. needs_event E (k x)) \<Longrightarrow> needs_event E (bind_prog m k)"
  by (rule tracks_bind, rule tracks_conseq[OF tracks_any]) (auto split: outcome.split)

lemma needs_then: "needs_event E k \<Longrightarrow> needs_event E (then_prog m k)"
  unfolding then_prog_def by (rule needs_bind)

lemma needs_try: "(\<And>x. needs_event E (k x)) \<Longrightarrow> needs_event E (try_prog m k)"
  by (rule tracks_try, rule tracks_conseq[OF tracks_any]) (auto split: outcome.split sum.split)

lemmas needs_intros = needs_ret needs_bind needs_then needs_try

lemma needs_after:
  assumes "needs_event E m" "\<And>e. needs_event E (k (Inl e))"
  shows "needs_event E (bind_prog m k)"
proof (rule tracks_bind, rule tracks_conseq[OF assms(1)])
  fix r :: "('b + 'c) outcome" and b assume "\<forall>x. r \<noteq> Val (Inr x)"
  then show "case r of Val x \<Rightarrow> tracks (stopped_at E) (k x) b (\<lambda>r b. \<forall>x. r \<noteq> Val (Inr x)) | Unwind p \<Rightarrow> \<forall>x. Unwind p \<noteq> Val (Inr x)"
    using assms(2) by (cases r; cases "case r of Val y \<Rightarrow> y") auto
qed

lemma needs_call: "(\<And>v. E (c, Val v)) \<Longrightarrow> needs_event E (bind_prog (call pg c) k)"
  by (rule tracks_call_bind) (auto simp: without_def)

lemma needs_guard: "needs_event E m \<Longrightarrow> needs_event E (with_guard d m)"
  by (rule tracks_guard, erule tracks_conseq, rule tracks_conseq[OF tracks_any]) (auto split: outcome.splits)

lemma needs_query_guards: "needs_event E m \<Longrightarrow> needs_event E (query_guards pg sql m)"
  unfolding query_guards_def debug_query_guard_def statement_timeout_guard_def by (intro needs_bind needs_guard)

lemma needs_caught:
  assumes "needs_event E m" "\<And>p. needs_event E (k (Inl p))" "\<And>e. needs_event E (k (Inr (Inl e)))"
  shows "needs_event E (bind_prog (catch_unwind m) k)"
proof (rule tracks_caught, rule tracks_conseq[OF assms(1)])
  fix r :: "('b + 'c) outcome" and b assume "\<forall>x. r \<noteq> Val (Inr x)"
  then show "case r of Val x \<Rightarrow> tracks (stopped_at E) (k (Inr x)) b (\<lambda>r b. \<forall>x. r \<noteq> Val (Inr x))
      | Unwind p \<Rightarrow> tracks (stopped_at E) (k (Inl p)) b (\<lambda>r b. \<forall>x. r \<noteq> Val (Inr x))"
    using assms(2,3) by (cases r; cases "case r of Val y \<Rightarrow> y") auto
qed

lemma needs_with_spi:
  assumes "needs_event E body"
  shows "needs_event E (with_spi pg body)"
proof -
  have ran: "needs_event E (bind_prog body (\<lambda>body_result.
        bind_prog (call pg (Spi SPI_finish)) (\<lambda>frc.
          if as_int frc \<noteq> SPI_OK_FINISH
          then bind_prog (rc_error pg (lit ''SPI_finish'') (as_int frc))
                 (\<lambda>e. ret (case body_result of Inl be \<Rightarrow> Inl be | Inr _ \<Rightarrow> Inl e))
          else ret body_result)))"
    by (rule needs_after[OF assms]) (auto intro!: needs_intros simp del: lit_simps)
  have "needs_event E (spi_session pg body)"
    unfolding spi_session_def by (rule needs_bind) (use ran in \<open>auto intro!: needs_bind[where k = "\<lambda>e. ret (Inl e)"] needs_ret simp del: lit_simps\<close>)
  then show ?thesis
    unfolding with_spi_def by (intro needs_then needs_caught) (auto intro!: needs_intros)
qed

lemma needs_with_xact: "needs_event E body \<Longrightarrow> needs_event E (with_xact pg snapshot body)"
  unfolding with_xact_def by (intro needs_then needs_caught) (auto intro!: needs_intros)

text \<open>The event that runs a plan; transaction control has none.\<close>

definition runs_plan :: "prepared_plan \<Rightarrow> pg_call \<Rightarrow> bool" where
  "runs_plan plan c =
    (case plan of
       Spi_Backend b \<Rightarrow> (\<exists>values nulls n. c = Spi (SPI_execute_plan (sb_plan b) values nulls False n))
     | Direct_Backend b \<Rightarrow> (\<exists>portal n. c = Exec (PortalRun portal n True))
     | Xact_Control cmd \<Rightarrow> True)"

lemma spi_execute_needs: "needs_event (\<lambda>e. runs_plan (Spi_Backend b) (fst e)) (spi_execute_impl pg b params pf rf max_rows)"
  unfolding spi_execute_impl_def spi_execute_body_def
  by (auto intro!: needs_intros needs_with_spi needs_call simp: runs_plan_def split: prod.split simp del: lit_simps)

abbreviation never_without :: "(pg_call event \<Rightarrow> bool) \<Rightarrow> (pg_call, 's, 'r) prog \<Rightarrow> bool" where
  "never_without E m \<equiv> tracks (stopped_at E) m () (\<lambda>r b. \<forall>x. r \<noteq> Val x)"

lemma never_bind: "(\<And>x. never_without E (k x)) \<Longrightarrow> never_without E (bind_prog m k)"
  by (rule tracks_bind, rule tracks_conseq[OF tracks_any]) (auto split: outcome.split)

lemma never_then: "never_without E k \<Longrightarrow> never_without E (then_prog m k)"
  unfolding then_prog_def by (rule never_bind)

lemma never_call: "(\<And>v. E (c, Val v)) \<Longrightarrow> never_without E (bind_prog (call pg c) k)"
  by (rule tracks_call_bind) (auto simp: without_def)

lemma needs_after_never: "never_without E m \<Longrightarrow> needs_event E (bind_prog m k)"
  by (rule tracks_bind, erule tracks_conseq) (auto split: outcome.split)

lemma direct_execute_needs: "needs_event (\<lambda>e. runs_plan (Direct_Backend b) (fst e)) (direct_execute_impl pg b params pf rf max_rows)"
proof -
  have portal: "never_without (\<lambda>e. runs_plan (Direct_Backend b) (fst e)) (direct_execute_portal pg b ps rf max_rows plan portal)" for ps plan portal
    unfolding direct_execute_portal_def Let_def
    by (intro never_bind never_then never_call) (simp add: runs_plan_def)
  show ?thesis
    unfolding direct_execute_impl_def direct_execute_body_def with_cached_plan_def with_anonymous_portal_def index_panic_def
    by (auto intro!: needs_intros needs_with_xact needs_guard tracks_panic needs_after_never[OF portal]
        split: prod.split option.split simp del: lit_simps)
qed

lemma execute_runs_plan:
  assumes "statement_execute pg stmt params pf rf max_rows s = (Val (Inr resp), t, s')"
    and "\<forall>cmd. ps_plan stmt \<noteq> Xact_Control cmd"
  shows "\<exists>e \<in> set t. runs_plan (ps_plan stmt) (fst e)"
proof (rule ccontr)
  let ?E = "\<lambda>e. runs_plan (ps_plan stmt) (fst e)"
  assume none: "\<not> (\<exists>e \<in> set t. ?E e)"
  have "needs_event ?E (plan_execute pg (ps_plan stmt) params pf rf max_rows)"
    using assms(2) spi_execute_needs direct_execute_needs by (cases "ps_plan stmt") (auto simp: plan_execute_def)
  then have needs: "needs_event ?E (statement_execute pg stmt params pf rf max_rows)"
    unfolding statement_execute_def by (auto intro!: needs_query_guards tracks_panic)
  have "run_events (\<lambda>a e. Some ()) () t' = Some ()" for t' :: "pg_call event list" by (induction t') auto
  then have "run_events (stopped_at ?E) () t = Some ()" by (rule run_without) (use none in auto)
  then show False using tracksD[OF needs assms(1)] by simp
qed

end
