(* ===== verification/Session_Status.thy ===== *)
theory Session_Status
  imports Direct_Status Extended_Status Slot
begin

text \<open>
  A client's session from the first query to its end, and the clients of one slot one after
  the other.  The wire library delivers the messages; which ones, in which order, and which
  statement it hands back for a portal is left open.
\<close>

section \<open>The requests of a client\<close>

text \<open>
  The messages that reach the server through the callbacks.  A simple query carries the
  parser's answer for its text; the backend is the setting at the time.
\<close>

datatype request =
    Simple_Request execution_backend bytes pg_value
  | Parse_Request execution_backend bytes "nat option list"
  | Execute_Request portal "64 word"

definition query_status :: "execution_backend \<Rightarrow> bytes \<Rightarrow> pg_value \<Rightarrow> bool \<Rightarrow> xact_status \<Rightarrow> xact_status set" where
  "query_status backend query parsed done st =
    (case backend of
       Backend_Spi \<Rightarrow> (case parsed_spi query parsed of None \<Rightarrow> {} | Some stmts \<Rightarrow> dispatch_status stmts done st)
     | Backend_Direct \<Rightarrow> (case parsed_direct query parsed of None \<Rightarrow> {}
         | Some stmts \<Rightarrow> direct_statuses (map snd (non_empty_statements stmts)) done st))"

text \<open>Where a request may take the session; a refused query leaves it where it was.\<close>

definition request_status :: "request \<Rightarrow> bool \<Rightarrow> xact_status \<Rightarrow> xact_status set" where
  "request_status req done st =
    (case req of
       Simple_Request backend query parsed \<Rightarrow> query_status backend query parsed done st \<union> (if done then {} else {st})
     | Parse_Request backend sql hints \<Rightarrow> bracket_status done st
     | Execute_Request p max_rows \<Rightarrow> execute_status (ps_plan (po_statement p)) done st)"

definition session_statuses :: "(request \<times> bool) list \<Rightarrow> xact_status \<Rightarrow> xact_status set" where
  "session_statuses h st = foldl (\<lambda>S (req, done). \<Union>(request_status req done ` S)) {st} h"

lemma session_statuses_simps [simp]:
  "session_statuses [] st = {st}"
  "session_statuses (h @ [(req, done)]) st = \<Union>(request_status req done ` session_statuses h st)"
  by (simp_all add: session_statuses_def)

text \<open>
  The requests that were answered, with their results, and the block the server is in: each
  from a state of the environment of its own, with documented answers in between.
\<close>

inductive client_session ::
  "(pg_call, 's) pg_env \<Rightarrow> libs \<Rightarrow> tblock \<Rightarrow> (request \<times> bool) list \<Rightarrow> tblock \<Rightarrow> bool" for pg lib b0 where
  session_opened: "client_session pg lib b0 [] b0"
| session_spi: "client_session pg lib b0 h b \<Longrightarrow>
    do_simple_query pg lib Backend_Spi query s = (Val x, t, s') \<Longrightarrow> run_events block_step b t = Some b' \<Longrightarrow>
    \<forall>v. (Fn (Raw_parser query), Val v) \<in> set t \<longrightarrow> v = parsed \<Longrightarrow>
    client_session pg lib b0 (h @ [(Simple_Request Backend_Spi query parsed, is_ok x)]) b'"
| session_direct: "client_session pg lib b0 h b \<Longrightarrow>
    do_simple_query pg lib Backend_Direct query s = (Val x, t, s') \<Longrightarrow> run_events portal_step (b, node) t = Some (b', node') \<Longrightarrow>
    \<forall>v. (Fn (Raw_parser query), Val v) \<in> set t \<longrightarrow> v = parsed \<Longrightarrow>
    client_session pg lib b0 (h @ [(Simple_Request Backend_Direct query parsed, is_ok x)]) b'"
| session_parse: "client_session pg lib b0 h b \<Longrightarrow>
    parse_sql pg lib backend sql hints s = (Val y, t, s') \<Longrightarrow> run_events served_step b t = Some b' \<Longrightarrow>
    client_session pg lib b0 (h @ [(Parse_Request backend sql hints, is_ok y)]) b'"
| session_execute: "client_session pg lib b0 h b \<Longrightarrow>
    do_query pg p max_rows s = (Val z, t, s') \<Longrightarrow> run_events served_step b t = Some b' \<Longrightarrow>
    client_session pg lib b0 (h @ [(Execute_Request p max_rows, is_ok z)]) b'"

section \<open>One request\<close>

lemma serves_parse_sql: "serves (parse_sql pg lib backend sql hints) (resting st) (ends_in (\<lambda>ok. bracket_status ok st))"
  unfolding parse_sql_def
  by (rule tracks_try, rule tracks_conseq[OF serves_prepare]) (auto split: outcome.split sum.split intro!: tracks_ret)

lemma ends_in_resting: "ends_in S (Val x) b \<Longrightarrow> \<exists>st \<in> S (is_ok x). b = resting st"
  by (cases x) auto

lemma ends_in_Val: "ends_in S (Val x) b \<longleftrightarrow> b \<in> resting ` S (is_ok x)"
  by (cases x) auto

lemma request_answered:
  "do_simple_query pg lib Backend_Spi query s = (Val x, t, s') \<Longrightarrow> run_events block_step (resting st) t = Some b \<Longrightarrow>
    \<forall>v. (Fn (Raw_parser query), Val v) \<in> set t \<longrightarrow> v = parsed \<Longrightarrow>
    b \<in> resting ` request_status (Simple_Request Backend_Spi query parsed) (is_ok x) st"
  "do_simple_query pg lib Backend_Direct query s = (Val x, t, s') \<Longrightarrow> run_events portal_step (resting st, node) t = Some (b, node') \<Longrightarrow>
    \<forall>v. (Fn (Raw_parser query), Val v) \<in> set t \<longrightarrow> v = parsed \<Longrightarrow>
    b \<in> resting ` request_status (Simple_Request Backend_Direct query parsed) (is_ok x) st"
  "parse_sql pg lib backend sql hints s = (Val y, t, s') \<Longrightarrow> run_events served_step (resting st) t = Some b \<Longrightarrow>
    b \<in> resting ` request_status (Parse_Request backend sql hints) (is_ok y) st"
  "do_query pg p max_rows s = (Val z, t, s') \<Longrightarrow> run_events served_step (resting st) t = Some b \<Longrightarrow>
    b \<in> resting ` request_status (Execute_Request p max_rows) (is_ok z) st"
  using simple_query_ends[of pg lib query s "Val x" t s' st b parsed]
    direct_query_ends[of pg lib query s "Val x" t s' st node "(b, node')" parsed]
    tracksD[OF serves_parse_sql, of pg lib backend sql hints s "Val y" t s' st b]
    tracksD[OF serves_execute, of pg "po_statement p" "po_parameters p" "po_parameter_format p" "po_result_column_format p" max_rows
      s "Val z" t s' st b]
  by (auto simp: do_simple_query_def do_query_def request_status_def query_status_def refused_or_dispatched_def
      refused_or_ran_def ends_in_Val)

lemma session_statuses_snoc:
  "st1 \<in> session_statuses h st \<Longrightarrow> b \<in> resting ` request_status req done st1 \<Longrightarrow>
    b \<in> resting ` session_statuses (h @ [(req, done)]) st"
  by auto

lemma client_session_ends: "client_session pg lib b0 h b \<Longrightarrow> b0 = resting st \<Longrightarrow> b \<in> resting ` session_statuses h st"
proof (induction rule: client_session.induct)
  case (session_spi h b query s x t s' b' parsed)
  then obtain st1 where st1: "st1 \<in> session_statuses h st" "b = resting st1" by auto
  show ?case by (rule session_statuses_snoc[OF st1(1) request_answered(1)]) (use session_spi st1 in auto)
next
  case (session_direct h b query s x t s' node b' node' parsed)
  then obtain st1 where st1: "st1 \<in> session_statuses h st" "b = resting st1" by auto
  show ?case by (rule session_statuses_snoc[OF st1(1) request_answered(2)]) (use session_direct st1 in auto)
next
  case (session_parse h b backend sql hints s y t s' b')
  then obtain st1 where st1: "st1 \<in> session_statuses h st" "b = resting st1" by auto
  show ?case by (rule session_statuses_snoc[OF st1(1) request_answered(3)]) (use session_parse st1 in auto)
next
  case (session_execute h b p max_rows s z t s' b')
  then obtain st1 where st1: "st1 \<in> session_statuses h st" "b = resting st1" by auto
  show ?case by (rule session_statuses_snoc[OF st1(1) request_answered(4)]) (use session_execute st1 in auto)
qed simp

section \<open>The clients of a slot\<close>

text \<open>What the server documents of the three calls of the reset: the first ends whatever block there is.\<close>

fun reset_block :: "tblock \<Rightarrow> reset_call \<Rightarrow> tblock" where
  "reset_block b AbortOutOfAnyTransaction = TBLOCK_DEFAULT"
| "reset_block b DropAllPreparedStatements = b"
| "reset_block b ResetAllOptions = b"

text \<open>
  The sessions a slot has served, and the block it is in when it waits for the next client.  A client
  may leave after any request; a reset that raises ends the slot.
\<close>

inductive slot_serves :: "(pg_call, 's) pg_env \<Rightarrow> libs \<Rightarrow> (request \<times> bool) list list \<Rightarrow> tblock \<Rightarrow> bool" for pg lib where
  slot_booted: "slot_serves pg lib [] TBLOCK_DEFAULT"
| slot_served: "slot_serves pg lib hs b \<Longrightarrow> client_session pg lib b h b' \<Longrightarrow>
    reset_per_handoff_state answers = (made, True) \<Longrightarrow> slot_serves pg lib (hs @ [h]) (foldl reset_block b' made)"

lemma reset_ends_block: "reset_per_handoff_state answers = (made, True) \<Longrightarrow> foldl reset_block b made = TBLOCK_DEFAULT"
  by (auto simp: reset_per_handoff_state_def split_def Let_def split: if_splits)

lemma slot_serves_idle:
  "slot_serves pg lib hs b \<Longrightarrow> b = TBLOCK_DEFAULT \<and> (\<forall>h \<in> set hs. session_statuses h Status_Idle \<noteq> {})"
proof (induction rule: slot_serves.induct)
  case (slot_served hs b h b' answers made)
  then have "b' \<in> resting ` session_statuses h Status_Idle" by (intro client_session_ends) auto
  then show ?case using slot_served reset_ends_block by fastforce
qed simp

section \<open>A server and a session\<close>

text \<open>
  A server that answers as documented.  It parses every simple query as \<open>BEGIN\<close>; the plan
  with the number 9 raises when it is executed, every other plan succeeds without rows.
\<close>

definition session_answer :: "tblock \<Rightarrow> pg_call \<Rightarrow> pg_value" where
  "session_answer b c =
    (case c of
       Tx d \<Rightarrow> block_answer b d
     | Fn d \<Rightarrow> (case d of Raw_parser q \<Rightarrow> begin_parsed | _ \<Rightarrow> V_Unit)
     | Spi d \<Rightarrow> (case d of SPI_connect \<Rightarrow> V_Int SPI_OK_CONNECT | SPI_finish \<Rightarrow> V_Int SPI_OK_FINISH
         | SPI_execute_plan p vs ns ro n \<Rightarrow> V_Int 4 | _ \<Rightarrow> V_Unit)
     | _ \<Rightarrow> V_Unit)"

definition session_raises :: "pg_call \<Rightarrow> bool" where
  "session_raises c = (case c of Spi d \<Rightarrow> (case d of SPI_execute_plan p vs ns ro n \<Rightarrow> p = 9 | _ \<Rightarrow> False) | _ \<Rightarrow> False)"

definition session_server :: "(pg_call, tblock) pg_env" where
  "session_server c b =
    (if session_raises c then (Unwind (Caught_Postgres demo_report), b)
     else case served_step b (c, Val (session_answer b c)) of
       Some b' \<Rightarrow> (Val (session_answer b c), b') | None \<Rightarrow> (Unwind Panic_Other, b))"

definition plan_portal :: "nat \<Rightarrow> portal" where
  "plan_portal n = \<lparr>po_statement = \<lparr>ps_sql = lit ''CALL p()'', ps_param_types = [], ps_result_schema = [],
       ps_plan = Spi_Backend \<lparr>sb_plan = n, sb_param_oids = [], sb_column_oids = [], sb_base_schema = []\<rparr>\<rparr>,
     po_parameters = [], po_parameter_format = unified_text, po_result_column_format = unified_text\<rparr>"

text \<open>\<open>BEGIN\<close>, an execution that raises, and one after it.\<close>

definition begin_run :: "(error_info + response list) outcome \<times> pg_call event list \<times> tblock" where
  "begin_run = do_simple_query session_server demo_libs Backend_Spi (lit ''BEGIN'') TBLOCK_DEFAULT"

definition raising_run :: "(error_info + response) outcome \<times> pg_call event list \<times> tblock" where
  "raising_run = do_query session_server (plan_portal 9) 0 TBLOCK_INPROGRESS"

definition failed_run :: "(error_info + response) outcome \<times> pg_call event list \<times> tblock" where
  "failed_run = do_query session_server (plan_portal 7) 0 TBLOCK_ABORT"

lemma session_runs:
  "fst begin_run = Val (Inr [Execution (lit ''BEGIN'') None])"
  "run_events block_step TBLOCK_DEFAULT (fst (snd begin_run)) = Some TBLOCK_INPROGRESS"
  "case fst raising_run of Val (Inl e) \<Rightarrow> True | _ \<Rightarrow> False"
  "run_events served_step TBLOCK_INPROGRESS (fst (snd raising_run)) = Some TBLOCK_ABORT"
  "fst failed_run = Val (Inr (Execution (lit ''OK'') (Some 0)))"
  "run_events served_step TBLOCK_ABORT (fst (snd failed_run)) = Some TBLOCK_ABORT"
  by code_simp+

lemma begin_run_parsed: "\<forall>v. (Fn (Raw_parser (lit ''BEGIN'')), Val v) \<in> set (fst (snd begin_run)) \<longrightarrow> v = begin_parsed"
proof -
  have "list_all (\<lambda>(c, r). case c of Fn f \<Rightarrow> (case f of Raw_parser q \<Rightarrow> r = Val begin_parsed | _ \<Rightarrow> True) | _ \<Rightarrow> True)
      (fst (snd begin_run))"
    by code_simp
  then show ?thesis by (fastforce simp: list_all_iff)
qed

definition begin_request :: request where
  "begin_request = Simple_Request Backend_Spi (lit ''BEGIN'') begin_parsed"

definition demo_history :: "(request \<times> bool) list" where
  "demo_history = [(begin_request, True), (Execute_Request (plan_portal 9) 0, False), (Execute_Request (plan_portal 7) 0, True)]"

lemma run_parts: "fst x = Val r \<Longrightarrow> x = (Val r, fst (snd x), snd (snd x))"
  by (cases x) simp

lemma failed_run_result:
  "do_query session_server (plan_portal 7) 0 TBLOCK_ABORT
     = (Val (Inr (Execution (lit ''OK'') (Some 0))), fst (snd failed_run), snd (snd failed_run))"
  using run_parts[OF session_runs(5)] by (simp add: failed_run_def)

lemma demo_session: "client_session session_server demo_libs TBLOCK_DEFAULT demo_history TBLOCK_ABORT"
proof -
  let ?S = "client_session session_server demo_libs TBLOCK_DEFAULT"
  have begun: "do_simple_query session_server demo_libs Backend_Spi (lit ''BEGIN'') TBLOCK_DEFAULT
      = (Val (Inr [Execution (lit ''BEGIN'') None]), fst (snd begin_run), snd (snd begin_run))"
    using run_parts[OF session_runs(1)] by (simp add: begin_run_def)
  have "?S ([] @ [(begin_request, is_ok (Inr [Execution (lit ''BEGIN'') None] :: error_info + response list))]) TBLOCK_INPROGRESS"
    unfolding begin_request_def by (rule session_spi[OF session_opened begun session_runs(2) begin_run_parsed])
  then have one: "?S [(begin_request, True)] TBLOCK_INPROGRESS" by simp
  obtain e where "fst raising_run = Val (Inl e)" using session_runs(3) by (auto split: outcome.splits sum.splits)
  then have raised: "do_query session_server (plan_portal 9) 0 TBLOCK_INPROGRESS = (Val (Inl e), fst (snd raising_run), snd (snd raising_run))"
    using run_parts by (metis raising_run_def)
  have two: "?S ([(begin_request, True)] @ [(Execute_Request (plan_portal 9) 0, is_ok (Inl e :: error_info + response))]) TBLOCK_ABORT"
    by (rule session_execute[OF one raised session_runs(4)])
  have "?S (([(begin_request, True)] @ [(Execute_Request (plan_portal 9) 0, is_ok (Inl e :: error_info + response))])
      @ [(Execute_Request (plan_portal 7) 0, is_ok (Inr (Execution (lit ''OK'') (Some 0)) :: error_info + response))]) TBLOCK_ABORT"
    by (rule session_execute[OF two failed_run_result session_runs(6)])
  then show ?thesis by (simp add: demo_history_def)
qed

section \<open>What a client can rely on\<close>







end
