(* ===== verification/Backend_Rows.thy ===== *)
theory Backend_Rows
  imports Spi_Bridge Simple_Direct
begin

text \<open>
  The two backends of a simple query against each other: \<open>backend/spi_bridge.rs\<close> reads the
  rows out of the tuple table of SPI after the statement, \<open>backend/simple_direct.rs\<close> takes
  them from the executor one by one.  On a server that shows both the same result they send
  the same columns and the same bytes.
\<close>

section \<open>Outcomes that do not depend on the state\<close>

definition settled :: "(pg_call, 's, 'r) prog \<Rightarrow> 'r outcome \<Rightarrow> bool" where
  "settled m r \<longleftrightarrow> (\<forall>s. fst (m s) = r)"

lemma settled_ret [simp, intro]: "settled (ret x) (Val x)"
  by (simp add: settled_def ret_def)

lemma settled_bind_Val: "settled m (Val x) \<Longrightarrow> settled (k x) r \<Longrightarrow> settled (bind_prog m k) r"
  unfolding settled_def bind_prog_def by (auto split: prod.splits outcome.splits) (metis fst_conv outcome.inject(1) outcome.distinct(1))+

lemma settled_bind_Unwind: "settled m (Unwind p) \<Longrightarrow> settled (bind_prog m k) (Unwind p)"
  unfolding settled_def bind_prog_def by (auto split: prod.splits outcome.splits) (metis fst_conv outcome.inject(2) outcome.distinct(1))+

lemma settled_unique: "settled m r \<Longrightarrow> m s = (r', t, s') \<Longrightarrow> r' = r"
  unfolding settled_def by (metis fst_conv)

lemma settled_call: "(\<And>s. fst (pg c s) = r) \<Longrightarrow> settled (call pg c) r"
  by (auto simp: settled_def call_def split: prod.split) (metis fst_conv)

text \<open>Two programs with one and the same outcome, whatever the states they start in.\<close>

definition agree :: "(pg_call, 's, 'r) prog \<Rightarrow> (pg_call, 's, 'r) prog \<Rightarrow> bool" where
  "agree m m' \<longleftrightarrow> (\<exists>r. settled m r \<and> settled m' r)"

lemma agree_ret [simp, intro]: "agree (ret x) (ret x)"
  unfolding agree_def by blast

lemma agree_bind:
  assumes "agree m m'" "\<And>x. agree (k x) (k' x)"
  shows "agree (bind_prog m k) (bind_prog m' k')"
proof -
  obtain r where r: "settled m r" "settled m' r" using assms(1) unfolding agree_def by blast
  show ?thesis
  proof (cases r)
    case (Val x)
    obtain q where "settled (k x) q" "settled (k' x) q" using assms(2) unfolding agree_def by blast
    then show ?thesis using r Val unfolding agree_def by (blast intro: settled_bind_Val)
  next
    case (Unwind p)
    then show ?thesis using r unfolding agree_def by (blast intro: settled_bind_Unwind)
  qed
qed

lemma agree_eq: "agree m m' \<Longrightarrow> m s = (r, t, s1) \<Longrightarrow> m' s' = (r', t', s1') \<Longrightarrow> r = r'"
  unfolding agree_def by (metis settled_unique)

lemma bind_assoc: "bind_prog (bind_prog m k) h = bind_prog m (\<lambda>x. bind_prog (k x) h)"
  by (rule ext) (auto simp: bind_prog_def split: prod.splits outcome.splits)

lemma ret_bind: "bind_prog (ret x) k = k x"
  by (rule ext) (auto simp: bind_prog_def ret_def split: prod.splits)

lemma agree_bind_left: "settled m (Val x) \<Longrightarrow> agree (k x) m' \<Longrightarrow> agree (bind_prog m k) m'"
  unfolding agree_def by (blast intro: settled_bind_Val)

section \<open>Rows\<close>

text \<open>The calls that show a result: cursors, descriptors, cells, output functions.\<close>

definition shows_result :: "pg_call \<Rightarrow> bool" where
  "shows_result c =
    (case c of
       Spi d \<Rightarrow> (case d of Tuptable_tupdesc \<Rightarrow> True | SPI_processed \<Rightarrow> True | SPI_getbinval row col \<Rightarrow> True | _ \<Rightarrow> False)
     | Exec d \<Rightarrow> (case d of Portal_tupDesc p \<Rightarrow> True | PortalRun p n top_level \<Rightarrow> True | _ \<Rightarrow> False)
     | Fn d \<Rightarrow> (case d of OutputFunctionCall f v \<Rightarrow> True | SendFunctionCall f v \<Rightarrow> True
         | GetTypeOutputInfo oid \<Rightarrow> True | GetTypeBinaryOutputInfo oid \<Rightarrow> True | Fmgr_info f \<Rightarrow> True
         | GetPortalByName name \<Rightarrow> True | Portal_cursorOptions p \<Rightarrow> True | _ \<Rightarrow> False)
     | Mem d \<Rightarrow> (case d of Pfree p \<Rightarrow> True | _ \<Rightarrow> False)
     | _ \<Rightarrow> False)"

lemma shows_result_simps [simp]:
  "shows_result (Spi Tuptable_tupdesc)" "shows_result (Spi SPI_processed)" "shows_result (Spi (SPI_getbinval row col))"
  "shows_result (Exec (Portal_tupDesc p))" "shows_result (Exec (PortalRun p n top_level))"
  "shows_result (Fn (OutputFunctionCall f v))" "shows_result (Fn (SendFunctionCall f v))"
  "shows_result (Fn (GetTypeOutputInfo oid))" "shows_result (Fn (GetTypeBinaryOutputInfo oid))"
  "shows_result (Fn (Fmgr_info f))" "shows_result (Fn (GetPortalByName name))" "shows_result (Fn (Portal_cursorOptions p))"
  "shows_result (Mem (Pfree p))"
  by (simp_all add: shows_result_def)

text \<open>
  The server shows one result: the answers of these calls depend on the call only, both
  descriptors are \<open>attrs\<close>, and the tuple table holds the rows that the portal delivers.
\<close>

definition cell_datum :: "bool \<times> nat \<Rightarrow> nat option" where
  "cell_datum = (\<lambda>(is_null, datum). if is_null then None else Some datum)"

definition one_result ::
  "(pg_call, 's) pg_env \<Rightarrow> attribute list \<Rightarrow> slot_row list \<Rightarrow> bool" where
  "one_result pg attrs slots \<longleftrightarrow>
    (\<exists>ans. (\<forall>c s. shows_result c \<longrightarrow> fst (pg c s) = ans c)
      \<and> ans (Spi Tuptable_tupdesc) = Val (V_Desc (Some attrs))
      \<and> (\<forall>portal. ans (Exec (Portal_tupDesc portal)) = Val (V_Desc (Some attrs))
           \<and> ans (Exec (PortalRun portal i64_MAX True)) = Val (V_Rows slots))
      \<and> ans (Spi SPI_processed) = Val (V_Int (int (length slots)))
      \<and> (\<forall>row < length slots. length (slots ! row) = length attrs
           \<and> (\<forall>col < length attrs. ans (Spi (SPI_getbinval row (col + 1))) = Val (V_Ptr (cell_datum (slots ! row ! col))))))"

lemma one_result_calls:
  assumes "one_result pg attrs slots"
  shows "shows_result c \<Longrightarrow> agree (call pg c) (call pg c)"
    and "settled (call pg (Spi Tuptable_tupdesc)) (Val (V_Desc (Some attrs)))"
    and "settled (call pg (Exec (Portal_tupDesc portal))) (Val (V_Desc (Some attrs)))"
    and "settled (call pg (Exec (PortalRun portal i64_MAX True))) (Val (V_Rows slots))"
    and "row < length slots \<Longrightarrow> col < length attrs \<Longrightarrow>
      settled (call pg (Spi (SPI_getbinval row (col + 1)))) (Val (V_Ptr (cell_datum (slots ! row ! col))))"
    and "row < length slots \<Longrightarrow> length (slots ! row) = length attrs"
    and "settled (call pg (Spi SPI_processed)) (Val (V_Int (int (length slots))))"
proof -
  from assms obtain ans where ans: "\<forall>c s. shows_result c \<longrightarrow> fst (pg c s) = ans c"
    and rest: "ans (Spi Tuptable_tupdesc) = Val (V_Desc (Some attrs))" "ans (Exec (Portal_tupDesc portal)) = Val (V_Desc (Some attrs))"
      "ans (Exec (PortalRun portal i64_MAX True)) = Val (V_Rows slots)" "ans (Spi SPI_processed) = Val (V_Int (int (length slots)))"
      "\<forall>row < length slots. length (slots ! row) = length attrs
         \<and> (\<forall>col < length attrs. ans (Spi (SPI_getbinval row (col + 1))) = Val (V_Ptr (cell_datum (slots ! row ! col))))"
    unfolding one_result_def by blast
  have call: "settled (call pg c) (ans c)" if "shows_result c" for c using ans that by (simp add: settled_call)
  show "shows_result c \<Longrightarrow> agree (call pg c) (call pg c)" unfolding agree_def using call by blast
  show "settled (call pg (Spi Tuptable_tupdesc)) (Val (V_Desc (Some attrs)))"
    "settled (call pg (Exec (Portal_tupDesc portal))) (Val (V_Desc (Some attrs)))"
    "settled (call pg (Exec (PortalRun portal i64_MAX True))) (Val (V_Rows slots))"
    "settled (call pg (Spi SPI_processed)) (Val (V_Int (int (length slots))))"
    using call rest(1-4) by (metis shows_result_simps)+
  show "row < length slots \<Longrightarrow> col < length attrs \<Longrightarrow>
      settled (call pg (Spi (SPI_getbinval row (col + 1)))) (Val (V_Ptr (cell_datum (slots ! row ! col))))"
    using call[of "Spi (SPI_getbinval row (col + 1))"] rest(5) by simp
  show "row < length slots \<Longrightarrow> length (slots ! row) = length attrs" using rest(5) by simp
qed

lemma agree_encode:
  assumes "one_result pg attrs slots"
  shows "agree (encode_into pg enc datum buf) (encode_into pg enc datum buf)"
  unfolding encode_into_def then_prog_def calls.simps output_call_def
  by (intro agree_bind agree_ret one_result_calls(1)[OF assms]) (auto split: column_encoder.split)

lemma settled_ncols:
  assumes "one_result pg attrs slots"
  shows "settled (tuples_ncols pg) (Val (length attrs))"
  unfolding tuples_ncols_def
  by (rule settled_bind_Val[OF one_result_calls(2)[OF assms]]) (simp add: settled_def ret_def)

lemma settled_cell:
  assumes "one_result pg attrs slots" "row < length slots" "col < length attrs" "st_rows t = length slots"
  shows "settled (tuples_cell pg t row col) (Val (cell_datum (slots ! row ! col)))"
  unfolding tuples_cell_def
  by (rule settled_bind_Val[OF settled_ncols[OF assms(1)]])
    (use assms(2-) in \<open>auto intro!: settled_bind_Val[OF one_result_calls(5)[OF assms(1), of row col, simplified]]\<close>)

lemma agree_row:
  assumes one: "one_result pg attrs slots" and "row < length slots" "st_rows t = length slots"
    and "k + length encs = length attrs"
  shows "agree (spi_row pg t row (enumerate k encs) buf) (receive_columns pg (zip encs (drop k (slots ! row))) buf)"
  using assms(4)
proof (induction encs arbitrary: k buf)
  case (Cons enc encs)
  let ?slot = "slots ! row"
  have k: "k < length ?slot" "k < length attrs" using Cons.prems one_result_calls(6)[OF one assms(2)] by auto
  obtain is_null datum where cell: "?slot ! k = (is_null, datum)" by (cases "?slot ! k")
  have split: "drop k ?slot = (is_null, datum) # drop (Suc k) ?slot" using k(1) cell by (simp add: Cons_nth_drop_Suc[symmetric])
  have rest: "agree (spi_row pg t row (enumerate (Suc k) encs) b) (receive_columns pg (zip encs (drop (Suc k) ?slot)) b)" for b
    using Cons by (intro Cons.IH) simp
  have "agree (case cell_datum (?slot ! k) of
        None \<Rightarrow> spi_row pg t row (enumerate (Suc k) encs) (buf @ encode_field None)
      | Some d \<Rightarrow> bind_prog (encode_into pg enc d buf) (spi_row pg t row (enumerate (Suc k) encs)))
    (receive_columns pg (zip (enc # encs) (drop k ?slot)) buf)"
    using rest by (auto simp: split cell cell_datum_def intro!: agree_bind agree_encode[OF one])
  then show ?case
    by (auto intro!: agree_bind_left[OF settled_cell[OF one assms(2) k(2) assms(3)]])
qed simp

lemma agree_rows_from:
  assumes one: "one_result pg attrs slots" and "st_rows t = length slots" "length encs = length attrs"
    and "slots = before @ rest"
  shows "agree
    (bind_prog (collect (map (\<lambda>row. bind_prog (spi_row pg t row (enumerate 0 encs) [])
        (\<lambda>buf. ret \<lparr>dr_data = buf, dr_field_count = of_nat (length attrs)\<rparr>)) [length before..<length slots])) (\<lambda>xs. ret (acc @ xs)))
    (receive_rows pg encs (length attrs) rest acc)"
  using assms(4)
proof (induction rest arbitrary: before acc)
  case Nil
  then show ?case by (simp add: ret_bind agree_ret)
next
  case (Cons slot rest)
  let ?n = "of_nat (length attrs) :: 16 word"
  let ?f = "\<lambda>row. bind_prog (spi_row pg t row (enumerate 0 encs) []) (\<lambda>buf. ret \<lparr>dr_data = buf, dr_field_count = ?n\<rparr>)"
  let ?row = "length before"
  have row: "?row < length slots" "slots ! ?row = slot" using Cons.prems by simp_all
  have len: "length slot = length attrs" using one_result_calls(6)[OF one row(1)] row(2) by simp
  have upt: "[?row..<length slots] = ?row # [length (before @ [slot])..<length slots]"
    using row(1) by (simp add: upt_conv_Cons)
  have one_row: "agree (spi_row pg t ?row (enumerate 0 encs) []) (receive_columns pg (zip encs slot) [])"
    using agree_row[OF one row(1) assms(2), of 0 encs "[]"] assms(3) row(2) by simp
  have rest: "agree (bind_prog (collect (map ?f [length (before @ [slot])..<length slots])) (\<lambda>xs. ret (acc @ x # xs)))
      (receive_rows pg encs (length attrs) rest (acc @ [x]))" for x
    using Cons.IH[of "before @ [slot]" "acc @ [x]"] Cons.prems by simp
  show ?case
    unfolding upt list.map collect.simps receive_rows.simps wire_receive_slot_def
    using len rest by (auto simp: bind_assoc ret_bind intro!: agree_bind one_row)
qed

lemma agree_rows:
  assumes "one_result pg attrs slots" "st_rows t = length slots" "length encs = length attrs"
  shows "agree (spi_rows pg t encs (length attrs)) (receive_rows pg encs (length attrs) slots [])"
proof -
  have "bind_prog m ret = m" for m :: "(pg_call, 'a, data_row list) prog"
    by (rule ext) (auto simp: bind_prog_def ret_def split: prod.splits outcome.splits)
  then show ?thesis
    using agree_rows_from[OF assms, of "[]" slots "[]"] by (simp add: spi_rows_def assms(2))
qed

section \<open>Schemas\<close>

lemma agree_collect: "(\<And>m. m \<in> set ms \<Longrightarrow> agree m m) \<Longrightarrow> agree (collect ms) (collect ms)"
  by (induction ms) (auto intro!: agree_bind)

lemma agree_encoder:
  assumes "one_result pg attrs slots"
  shows "agree (column_encoder_for_column pg oid fmt) (column_encoder_for_column pg oid fmt)"
  unfolding column_encoder_for_column_def type_output_for_type_def type_send_for_type_def
  by (cases fmt) (auto intro!: agree_bind one_result_calls(1)[OF assms])

lemma agree_schema:
  assumes "one_result pg attrs slots"
  shows "agree (schema_and_encoders_uniform pg lib td fmt) (schema_and_encoders_uniform pg lib td fmt)"
  unfolding schema_and_encoders_uniform_def
  by (intro agree_bind agree_ret agree_collect) (auto intro: agree_encoder[OF assms])

definition c_string_name :: "raw_stmt \<Rightarrow> bool" where
  "c_string_name rs \<longleftrightarrow> (case rs_node rs of N_Fetch move (Some name) \<Rightarrow> 0 \<notin> set name | _ \<Rightarrow> True)"

lemma agree_format:
  assumes "one_result pg attrs slots" "c_string_name rs"
  shows "agree (fetch_format pg (extract_fetch_portalname rs)) (fetch_result_format pg rs)"
proof -
  have cut: "0 \<notin> set name \<Longrightarrow> takeWhile (\<lambda>b. b \<noteq> 0) name = name" for name :: bytes
    by (induction name) auto
  have portal: "agree (portal_format pg name) (portal_format pg name)" for name
    unfolding portal_format_def
    by (auto intro!: agree_bind one_result_calls(1)[OF assms(1)] split: option.split)
  show ?thesis
    unfolding fetch_format_def fetch_result_format_def extract_fetch_portalname_def
    using assms(2) by (auto simp: c_string_name_def cut intro: portal split: raw_node.split option.split)
qed

section \<open>What a path returns\<close>

text \<open>All results of \<open>m\<close> satisfy \<open>P\<close>, whatever the server does.\<close>

definition yields :: "(pg_call, 's, 'r) prog \<Rightarrow> ('r \<Rightarrow> bool) \<Rightarrow> bool" where
  "yields m P \<longleftrightarrow> (\<forall>s x t s'. m s = (Val x, t, s') \<longrightarrow> P x)"

lemma yieldsD: "yields m P \<Longrightarrow> m s = (Val x, t, s') \<Longrightarrow> P x"
  unfolding yields_def by blast

lemma yields_any: "yields m (\<lambda>x. True)"
  by (simp add: yields_def)

lemma yields_ret: "P x \<Longrightarrow> yields (ret x) P"
  by (simp add: yields_def ret_def)

lemma yields_bind: "yields m P \<Longrightarrow> (\<And>x. P x \<Longrightarrow> yields (k x) Q) \<Longrightarrow> yields (bind_prog m k) Q"
  unfolding yields_def bind_prog_def by (fastforce split: prod.splits outcome.splits)

lemma yields_then: "(\<And>x. yields k Q) \<Longrightarrow> yields (then_prog m k) Q"
  unfolding then_prog_def by (rule yields_bind[OF yields_any])

lemma yields_settled: "settled m r \<Longrightarrow> yields m (\<lambda>x. r = Val x)"
  by (auto simp: yields_def settled_def) (metis fst_conv)

lemma yields_agree: "agree m m' \<Longrightarrow> yields m (\<lambda>x. settled m' (Val x))"
  by (auto simp: agree_def yields_def settled_def) (metis fst_conv)

lemma yields_guard: "yields m P \<Longrightarrow> yields (with_guard d m) P"
  unfolding yields_def with_guard_def by (auto split: prod.splits outcome.splits)

lemma yields_mono: "yields m P \<Longrightarrow> (\<And>x. P x \<Longrightarrow> Q x) \<Longrightarrow> yields m Q"
  unfolding yields_def by blast

lemma yields_collect: "yields (collect ms) (\<lambda>xs. length xs = length ms)"
proof (induction ms)
  case (Cons m ms)
  show ?case unfolding collect.simps
    by (rule yields_bind[OF yields_any], rule yields_bind[OF Cons.IH]) (simp add: yields_ret)
qed (simp add: yields_ret)

lemma yields_schema:
  "yields (schema_and_encoders_uniform pg lib td fmt) (\<lambda>(schema, encs). length schema = length td \<and> length encs = length td)"
  unfolding schema_and_encoders_uniform_def
  by (rule yields_bind[OF yields_collect]) (simp add: yields_ret)

section \<open>The two paths\<close>

text \<open>The outcomes both paths share: format, schema with encoders, rows.\<close>

definition shared ::
  "(pg_call, 's) pg_env \<Rightarrow> libs \<Rightarrow> raw_stmt \<Rightarrow> attribute list \<Rightarrow> slot_row list \<Rightarrow> field_info list \<Rightarrow> data_row list \<Rightarrow> bool" where
  "shared pg lib rs attrs slots schema rows \<longleftrightarrow>
    (\<exists>fmt encs. settled (fetch_result_format pg rs) (Val fmt)
      \<and> settled (schema_and_encoders_uniform pg lib attrs fmt) (Val (schema, encs))
      \<and> settled (receive_rows pg encs (length attrs) slots []) (Val rows))"

lemma settled_fun: "settled m r \<Longrightarrow> settled m r' \<Longrightarrow> r = r'"
  by (simp add: settled_def)

lemma shared_unique:
  assumes "shared pg lib rs attrs slots schema rows" "shared pg lib rs attrs slots schema' rows'"
  shows "schema = schema' \<and> rows = rows'"
  using assms unfolding shared_def
  by (metis (no_types, lifting) outcome.inject(1) prod.inject settled_fun)

lemma yields_both: "yields m P \<Longrightarrow> yields m Q \<Longrightarrow> yields m (\<lambda>x. P x \<and> Q x)"
  unfolding yields_def by blast

text \<open>What is settled so far once the schema is known.\<close>

lemma schema_yields:
  assumes "one_result pg attrs slots"
  shows "yields (schema_and_encoders_uniform pg lib attrs fmt) (\<lambda>x. settled (schema_and_encoders_uniform pg lib attrs fmt) (Val x)
    \<and> length (fst x) = length attrs \<and> length (snd x) = length attrs)"
  by (rule yields_mono[OF yields_both[OF yields_agree[OF agree_schema[OF assms]] yields_schema]]) auto

definition direct_ok ::
  "(pg_call, 's) pg_env \<Rightarrow> libs \<Rightarrow> raw_stmt \<Rightarrow> attribute list \<Rightarrow> slot_row list
     \<Rightarrow> field_info list \<times> data_row list \<times> int \<times> nat \<Rightarrow> bool" where
  "direct_ok pg lib rs attrs slots x \<longleftrightarrow>
    shared pg lib rs attrs slots (fst x) (fst (snd x)) \<and> length (fst x) = length attrs"

lemma direct_yields:
  assumes one: "one_result pg attrs slots" and "c_string_name rs"
  shows "yields (direct_portal_run pg lib rs portal) (direct_ok pg lib rs attrs slots)"
proof -
  let ?P = "direct_ok pg lib rs attrs slots"
  have "agree (fetch_result_format pg rs) (fetch_result_format pg rs)"
    using agree_format[OF assms] by (auto simp: agree_def)
  note fmt = yields_agree[OF this]
    and desc = yields_settled[OF one_result_calls(3)[OF one, of portal]]
    and slots = yields_settled[OF one_result_calls(4)[OF one, of portal]]
  have rows: "yields (bind_prog (receive_rows pg encs (length schema) slots []) (\<lambda>data_rows.
      bind_prog (call pg (Exec Qc_commandTag)) (\<lambda>tag. bind_prog (call pg (Exec Qc_nprocessed)) (\<lambda>n.
        ret (schema, data_rows, as_int tag, nat (as_int n)))))) ?P"
    if "settled (fetch_result_format pg rs) (Val fmt)" "length schema = length attrs" "length encs = length attrs"
      "settled (schema_and_encoders_uniform pg lib attrs fmt) (Val (schema, encs))" for fmt schema encs
  proof -
    have "agree (spi_rows pg \<lparr>st_table = 0, st_rows = length slots\<rparr> encs (length attrs))
        (receive_rows pg encs (length attrs) slots [])" by (rule agree_rows[OF one]) (simp_all add: that)
    then have self: "agree (receive_rows pg encs (length attrs) slots []) (receive_rows pg encs (length attrs) slots [])"
      by (auto simp: agree_def)
    show ?thesis unfolding that(2)
      by (rule yields_bind[OF yields_agree[OF self]], (rule yields_bind[OF yields_any])+, rule yields_ret)
        (use that in \<open>auto simp: shared_def direct_ok_def\<close>)
  qed
  have schema: "yields (bind_prog (schema_and_encoders_uniform pg lib attrs fmt) (\<lambda>(schema, encoders).
            then_prog (calls pg [Exec InitializeQueryCompletion])
              (bind_prog (call pg (Exec (PortalRun portal i64_MAX True))) (\<lambda>slots.
                bind_prog (receive_rows pg encoders (length schema) (as_rows slots) []) (\<lambda>data_rows.
                  bind_prog (call pg (Exec Qc_commandTag)) (\<lambda>tag.
                    bind_prog (call pg (Exec Qc_nprocessed)) (\<lambda>n.
                      ret (schema, data_rows, as_int tag, nat (as_int n))))))))) ?P"
    if "settled (fetch_result_format pg rs) (Val fmt)" for fmt
    by (rule yields_bind[OF schema_yields[OF one]])
      (use rows[OF that] in \<open>auto intro!: yields_then yields_bind[OF slots]\<close>)
  show ?thesis
    unfolding direct_portal_run_def
    by (intro yields_then yields_bind[OF fmt] yields_bind[OF desc]) (use schema in auto)
qed

lemma spi_result_yields:
  assumes one: "one_result pg attrs slots" and "st_rows t = length slots" "settled (fetch_result_format pg rs) (Val fmt)"
  shows "yields (spi_result_set pg lib fmt t)
    (\<lambda>x. \<exists>schema rows. x = Inr [Query schema rows None] \<and> shared pg lib rs attrs slots schema rows)"
proof -
  note ncols = yields_settled[OF settled_ncols[OF one]] and desc = yields_settled[OF one_result_calls(2)[OF one]]
  have rows: "yields (bind_prog (spi_rows pg t encs (length attrs)) (\<lambda>rows. ret (Inr [Query schema rows None])))
      (\<lambda>x. \<exists>schema rows. x = Inr [Query schema rows None] \<and> shared pg lib rs attrs slots schema rows)"
    if "length encs = length attrs" "settled (schema_and_encoders_uniform pg lib attrs fmt) (Val (schema, encs))" for schema encs
    by (rule yields_bind[OF yields_agree[OF agree_rows[OF one assms(2) that(1)]]])
      (use assms(3) that in \<open>auto simp: shared_def intro!: yields_ret\<close>)
  show ?thesis
    unfolding spi_result_set_def
    by (intro yields_bind[OF ncols] yields_bind[OF desc])
      (use rows in \<open>auto intro!: yields_bind[OF schema_yields[OF one]]\<close>)
qed

lemma run_via_spi_yields:
  assumes one: "one_result pg attrs slots" and "c_string_name rs"
  shows "yields (run_via_spi pg lib query (extract_fetch_portalname rs))
    (\<lambda>x. \<forall>schema rows tag. x = Inr [Query schema rows tag] \<longrightarrow> attrs \<noteq> [] \<and> shared pg lib rs attrs slots schema rows)"
proof -
  let ?P = "\<lambda>x. \<forall>schema rows tag. x = Inr [Query schema rows tag] \<longrightarrow> attrs \<noteq> [] \<and> shared pg lib rs attrs slots schema rows"
  note fmt = yields_agree[OF agree_format[OF assms]]
    and ncols = yields_settled[OF settled_ncols[OF one]]
    and processed = yields_settled[OF one_result_calls(7)[OF one]]
  have ok: "yields (execution_ok pg) ?P"
    unfolding execution_ok_def processed_rows_without_table_def
    by (rule yields_bind[OF yields_any]) (simp add: yields_ret)
  have current: "yields (spi_tuples_current pg) (\<lambda>x. case x of None \<Rightarrow> True | Some t \<Rightarrow> st_rows t = length slots)"
    unfolding spi_tuples_current_def
    by (rule yields_bind[OF yields_any]) (auto split: option.split intro!: yields_ret yields_bind[OF processed])
  have set: "yields (spi_result_set pg lib fmt t) ?P"
    if "settled (fetch_result_format pg rs) (Val fmt)" "st_rows t = length slots" "attrs \<noteq> []" for fmt t
    by (rule yields_mono[OF spi_result_yields[OF one that(2,1)]]) (use that in auto)
  have after: "yields (bind_prog (spi_tuples_current pg) (\<lambda>tuples. case tuples of
             None \<Rightarrow> execution_ok pg
           | Some t \<Rightarrow> bind_prog (tuples_ncols pg) (\<lambda>ncols.
               if ncols > 0 then spi_result_set pg lib fmt t else execution_ok pg))) ?P"
    if "settled (fetch_result_format pg rs) (Val fmt)" for fmt
    by (rule yields_bind[OF current]) (use ok set[OF that] in \<open>auto split: option.split intro!: yields_bind[OF ncols]\<close>)
  have rc: "yields (bind_prog (rc_error pg api rc) (\<lambda>e. ret (Inl e))) ?P" for api rc
    by (rule yields_bind[OF yields_any]) (simp add: yields_ret)
  show ?thesis
  proof (cases "0 \<in> set query")
    case False
    then show ?thesis
      unfolding run_via_spi_def
      by (simp del: lit_simps, intro yields_bind[OF fmt] yields_then yields_bind[OF yields_any])
        (use rc after in \<open>auto simp del: lit_simps\<close>)
  qed (simp add: run_via_spi_def yields_ret)
qed

lemma run_one_direct_yields:
  assumes one: "one_result pg attrs slots" and "c_string_name rs"
  shows "yields (run_one_direct pg lib rs sql ctx)
    (\<lambda>x. \<forall>resp. x = Inr resp \<longrightarrow> attrs \<noteq> [] \<longrightarrow>
       (\<exists>schema rows tag. resp = Query schema rows (Some tag) \<and> shared pg lib rs attrs slots schema rows))"
proof -
  let ?P = "\<lambda>x. \<forall>resp. x = Inr resp \<longrightarrow> attrs \<noteq> [] \<longrightarrow>
       (\<exists>schema rows tag. resp = Query schema rows (Some tag) \<and> shared pg lib rs attrs slots schema rows)"
  let ?S = "direct_ok pg lib rs attrs slots"
  have response: "yields (direct_response pg x) ?P" if "?S x" for x
    using that unfolding direct_response_def direct_ok_def
    by (auto intro!: yields_bind[OF yields_any] yields_ret split: prod.split)
  have portal: "yields (with_anonymous_portal pg (\<lambda>portal.
                  then_prog (calls pg [Exec (PortalDefineQuery portal sql tag plan_list None), Mem (MemoryContextSwitchTo prev)])
                    (direct_portal_run pg lib rs portal))) ?S" for tag plan_list prev
    unfolding with_anonymous_portal_def index_panic_def
    by (rule yields_bind[OF yields_any])
      (auto intro!: yields_bind[OF yields_any] yields_guard yields_then direct_yields[OF assms]
        split: option.split simp: yields_def[of "panic p" for p] panic_def simp del: lit_simps)
  show ?thesis
    unfolding run_one_direct_def
    by (rule yields_then, rule yields_bind[OF yields_any], rule yields_bind[OF yields_any],
        rule yields_bind[OF yields_any], rule yields_bind[OF yields_any]) (rule yields_bind[OF portal response])
qed

section \<open>A server with one result\<close>

text \<open>One text column, two rows, the second of them NULL.\<close>

definition demo_attrs :: "attribute list" where
  "demo_attrs = [(lit ''a'', 25)]"

definition demo_slots :: "slot_row list" where
  "demo_slots = [[(False, 7)], [(True, 0)]]"

definition rows_answer :: "pg_call \<Rightarrow> pg_value" where
  "rows_answer c =
    (case c of
       Spi d \<Rightarrow> (case d of Tuptable_tupdesc \<Rightarrow> V_Desc (Some demo_attrs) | SPI_tuptable \<Rightarrow> V_Ptr (Some 1)
         | SPI_processed \<Rightarrow> V_Int 2 | SPI_getbinval row col \<Rightarrow> V_Ptr (if row = 0 then Some 7 else None) | _ \<Rightarrow> V_Int 5)
     | Exec d \<Rightarrow> (case d of Portal_tupDesc p \<Rightarrow> V_Desc (Some demo_attrs) | PortalRun p n top_level \<Rightarrow> V_Rows demo_slots
         | GetCommandTagName tag \<Rightarrow> V_Str (Some (lit ''SELECT'')) | _ \<Rightarrow> V_Int 5)
     | Fn d \<Rightarrow> (case d of OutputFunctionCall f v \<Rightarrow> V_Bytes (lit ''42'') | _ \<Rightarrow> V_Int 5)
     | _ \<Rightarrow> V_Int 5)"

definition rows_server :: "(pg_call, unit) pg_env" where
  "rows_server c s = (Val (rows_answer c), ())"

definition demo_select :: raw_stmt where
  "demo_select = \<lparr>rs_node = N_Other 1, rs_location = 0, rs_len = 0\<rparr>"

lemma rows_server_one_result: "one_result rows_server demo_attrs demo_slots"
  unfolding one_result_def
  by (rule exI[of _ "\<lambda>c. Val (rows_answer c)"])
    (auto simp: rows_server_def rows_answer_def demo_attrs_def demo_slots_def cell_datum_def less_Suc_eq)

definition demo_libs_text :: libs where
  "demo_libs_text = \<lparr>known_type = (\<lambda>oid. oid = 25), panic_report = (\<lambda>p. \<lparr>rp_level = [], rp_code = [], rp_message = []\<rparr>)\<rparr>"

definition demo_schema :: "field_info list" where
  "demo_schema = [\<lparr>fi_name = lit ''a'', fi_type = 25, fi_format = Fmt_Text\<rparr>]"

definition demo_rows :: "data_row list" where
  "demo_rows = [\<lparr>dr_data = encode_field (Some (lit ''42'')), dr_field_count = 1\<rparr>, \<lparr>dr_data = encode_field None, dr_field_count = 1\<rparr>]"

lemma demo_spi_run:
  "fst (run_via_spi rows_server demo_libs_text (lit ''SELECT'') (extract_fetch_portalname demo_select) ())
    = Val (Inr [Query demo_schema demo_rows None])"
  by (simp add: run_via_spi_def fetch_format_def extract_fetch_portalname_def demo_select_def report_ids_reset_def
      bind_prog_def then_prog_def calls.simps call_def ret_def rows_server_def rows_answer_def spi_tuples_current_def tuples_ncols_def
      spi_result_set_def schema_and_encoders_uniform_def column_encoder_for_column_def type_output_for_type_def column_type_def
      type_from_oid_def spi_rows_def tuples_cell_def encode_into_def output_call_def field_bytes_def demo_attrs_def
      demo_libs_text_def demo_schema_def demo_rows_def as_handle_def upt_conv_Cons)

lemma demo_direct_run:
  "fst (run_one_direct rows_server demo_libs_text demo_select (lit ''SELECT'') 3 ())
    = Val (Inr (Query demo_schema demo_rows (Some (lit ''SELECT''))))"
  by (simp add: run_one_direct_def report_ids_reset_def demo_select_def
      bind_prog_def then_prog_def calls.simps call_def ret_def rows_server_def rows_answer_def with_anonymous_portal_def portal_name_eq
      direct_portal_run_def fetch_result_format_def with_guard_def
      schema_and_encoders_uniform_def column_encoder_for_column_def type_output_for_type_def column_type_def
      type_from_oid_def wire_receive_slot_def encode_into_def output_call_def field_bytes_def demo_attrs_def demo_slots_def
      demo_libs_text_def demo_schema_def demo_rows_def as_handle_def direct_response_def command_tag_name_def)

section \<open>The equivalence\<close>

text \<open>C38. The two backends send the same result: on a server that shows one and the same result
  to both (the answers of the calls that show it depend on the call only, the tuple table holds
  the rows that the portal delivers), when the SPI path returns a result set and the direct path
  returns, both have the same column descriptions and the same rows, byte by byte; only the direct
  path adds the command tag.\<close>

theorem backends_send_same_rows:
  assumes "one_result pg attrs slots" and "c_string_name rs"
    and "run_via_spi pg lib query (extract_fetch_portalname rs) s = (Val (Inr [Query schema rows tag]), t, s1)"
    and "run_one_direct pg lib rs sql ctx s' = (Val (Inr resp), t', s1')"
  shows "\<exists>tag'. resp = Query schema rows (Some tag')"
proof -
  have spi: "attrs \<noteq> []" "shared pg lib rs attrs slots schema rows"
    using yieldsD[OF run_via_spi_yields[OF assms(1,2)] assms(3)] by auto
  then obtain schema' rows' tag' where "resp = Query schema' rows' (Some tag')" "shared pg lib rs attrs slots schema' rows'"
    using yieldsD[OF run_one_direct_yields[OF assms(1,2)] assms(4)] by auto
  then show ?thesis using shared_unique[OF spi(2)] by blast
qed

theorem backends_send_same_rows_witness:
  "\<exists>tag'. fst (run_one_direct rows_server demo_libs_text demo_select (lit ''SELECT'') 3 ()) = Val (Inr (Query demo_schema demo_rows (Some tag')))"
proof -
  obtain t s1 where spi: "run_via_spi rows_server demo_libs_text (lit ''SELECT'') (extract_fetch_portalname demo_select) ()
      = (Val (Inr [Query demo_schema demo_rows None]), t, s1)" using demo_spi_run by (metis prod.collapse)
  obtain t' s1' where direct: "run_one_direct rows_server demo_libs_text demo_select (lit ''SELECT'') 3 ()
      = (Val (Inr (Query demo_schema demo_rows (Some (lit ''SELECT'')))), t', s1')" using demo_direct_run by (metis prod.collapse)
  show ?thesis
    using backends_send_same_rows[OF rows_server_one_result _ spi direct] direct by (auto simp: c_string_name_def demo_select_def)
qed

end
