(* ===== verification/Extended_Props.thy ===== *)
theory Extended_Props
  imports Extended Spi_Props
begin

text \<open>
  What the extended query protocol promises: the protocol of transaction commands, the
  shape of prepared statements, the schema of their results; and the check it lacks.
\<close>

section \<open>What a piece can return\<close>

definition returns :: "('c, 's, 'a) prog \<Rightarrow> ('a \<Rightarrow> bool) \<Rightarrow> bool" where
  "returns m P \<longleftrightarrow> (\<forall>s x t s'. m s = (Val x, t, s') \<longrightarrow> P x)"

lemma returnsD: "returns m P \<Longrightarrow> m s = (Val x, t, s') \<Longrightarrow> P x"
  unfolding returns_def by blast

lemma returns_mono: "returns m P \<Longrightarrow> (\<And>x. P x \<Longrightarrow> Q x) \<Longrightarrow> returns m Q"
  unfolding returns_def by blast

lemma returns_any: "returns m (\<lambda>x. True)"
  by (simp add: returns_def)

lemma returns_ret: "P x \<Longrightarrow> returns (ret x) P"
  by (simp add: returns_def ret_def)

lemma returns_bind: "returns m P \<Longrightarrow> (\<And>x. P x \<Longrightarrow> returns (k x) Q) \<Longrightarrow> returns (bind_prog m k) Q"
  unfolding returns_def bind_prog_def by (auto split: prod.splits outcome.splits) blast

lemma returns_bind_any: "(\<And>x. returns (k x) Q) \<Longrightarrow> returns (bind_prog m k) Q"
  by (rule returns_bind[OF returns_any])

lemma returns_then: "returns k Q \<Longrightarrow> returns (then_prog m k) Q"
  unfolding then_prog_def by (rule returns_bind_any)

text \<open>The value of a result, when it is one.\<close>

definition ok_value :: "('a \<Rightarrow> bool) \<Rightarrow> 'e + 'a \<Rightarrow> bool" where
  "ok_value P r = (case r of Inl e \<Rightarrow> True | Inr x \<Rightarrow> P x)"

lemma ok_value_simps [simp]: "ok_value P (Inl e)" "ok_value P (Inr x) \<longleftrightarrow> P x"
  by (simp_all add: ok_value_def)

lemma returns_try:
  assumes "returns m (ok_value P)" "\<And>x. P x \<Longrightarrow> returns (k x) (ok_value Q)"
  shows "returns (try_prog m k) (ok_value Q)"
  unfolding try_prog_def
  by (rule returns_bind[OF assms(1)]) (auto split: sum.split intro: assms(2) returns_ret)

lemma returns_owned: "returns m P \<Longrightarrow> returns (owned d m) P"
  unfolding returns_def owned_def by (auto split: prod.splits outcome.splits)

lemma returns_guard: "returns m P \<Longrightarrow> returns (with_guard d m) P"
  unfolding returns_def with_guard_def by (auto split: prod.splits outcome.splits)

lemma returns_catch:
  "returns m P \<Longrightarrow> returns (catch_unwind m) (\<lambda>r. case r of Inl p \<Rightarrow> True | Inr x \<Rightarrow> P x)"
  unfolding returns_def catch_unwind_def by (auto split: prod.splits outcome.splits)

lemma returns_collect: "returns (collect ms) (\<lambda>xs. length xs = length ms)"
proof (induction ms)
  case (Cons m ms)
  show ?case unfolding collect.simps
    by (rule returns_bind_any, rule returns_bind[OF Cons.IH]) (simp add: returns_ret)
qed (simp add: returns_ret)

lemma returns_guards: "returns m P \<Longrightarrow> returns (query_guards pg sql m) P"
  unfolding query_guards_def debug_query_guard_def statement_timeout_guard_def
  by (intro returns_bind_any returns_guard)

lemma returns_with_spi:
  assumes "returns body (ok_value P)"
  shows "returns (with_spi pg body) (ok_value P)"
proof -
  have "returns (bind_prog body (\<lambda>body_result.
        bind_prog (call pg (Spi SPI_finish)) (\<lambda>frc.
          if as_int frc \<noteq> SPI_OK_FINISH
          then bind_prog (rc_error pg (lit ''SPI_finish'') (as_int frc))
                 (\<lambda>e. ret (case body_result of Inl be \<Rightarrow> Inl be | Inr _ \<Rightarrow> Inl e))
          else ret body_result))) (ok_value P)"
    by (rule returns_bind[OF assms])
      (auto intro!: returns_bind_any returns_ret split: sum.split simp del: lit_simps)
  then have session: "returns (spi_session pg body) (ok_value P)"
    unfolding spi_session_def by (auto intro!: returns_bind_any returns_ret simp del: lit_simps)
  show ?thesis
    unfolding with_spi_def
    by (rule returns_then, rule returns_bind[OF returns_catch[OF session]])
      (auto intro!: returns_then returns_ret split: sum.splits)
qed

lemma returns_with_xact:
  assumes "returns body (ok_value P)"
  shows "returns (with_xact pg needs body) (ok_value P)"
  unfolding with_xact_def
  by (rule returns_then, rule returns_bind[OF returns_catch[OF assms]])
    (auto intro!: returns_then returns_ret split: sum.splits)

section \<open>Prepared statements are well formed\<close>

text \<open>
  The stored text has no NUL; the schema is in text format and is the one of the plan,
  whose column OIDs are the types of the schema; there is a parameter OID for every
  parameter type.
\<close>

definition plan_shape :: "field_info list \<Rightarrow> nat list \<Rightarrow> nat list \<Rightarrow> field_info list \<Rightarrow> nat list \<Rightarrow> bool" where
  "plan_shape base columns params schema types \<longleftrightarrow>
     base = schema \<and> columns = map fi_type schema \<and> length params = length types"

definition statement_ok :: "prepared_statement \<Rightarrow> bool" where
  "statement_ok st \<longleftrightarrow> list_all (\<lambda>fi. fi_format fi = Fmt_Text) (ps_result_schema st) \<and>
    (case ps_plan st of
       Spi_Backend b \<Rightarrow> plan_shape (sb_base_schema b) (sb_column_oids b) (sb_param_oids b) (ps_result_schema st) (ps_param_types st)
     | Direct_Backend b \<Rightarrow> plan_shape (db_base_schema b) (db_column_oids b) (db_param_oids b) (ps_result_schema st) (ps_param_types st)
     | Xact_Control cmd \<Rightarrow> ps_result_schema st = [] \<and> ps_param_types st = [])"

definition plan_of :: "execution_backend \<Rightarrow> prepared_plan \<Rightarrow> bool" where
  "plan_of backend plan = (case plan of
      Spi_Backend b \<Rightarrow> backend = Backend_Spi | Direct_Backend b \<Rightarrow> backend = Backend_Direct | Xact_Control cmd \<Rightarrow> True)"

lemma text_schema_text [simp]: "list_all (\<lambda>fi. fi_format fi = Fmt_Text) (text_schema lib cols)"
  by (auto simp: text_schema_def list_all_iff)

lemma xact_statement_ok [simp]: "statement_ok (xact_statement sql cmd)" "plan_of b (ps_plan (xact_statement sql cmd))"
    "ps_sql (xact_statement sql cmd) = sql"
  by (simp_all add: statement_ok_def xact_statement_def plan_of_def)

abbreviation prepared_for :: "execution_backend \<Rightarrow> bytes \<Rightarrow> prepared_statement \<Rightarrow> bool" where
  "prepared_for backend sql st \<equiv> statement_ok st \<and> ps_sql st = sql \<and> plan_of backend (ps_plan st)"

lemma spi_statement_returns: "returns (spi_statement pg lib sql plan) (prepared_for Backend_Spi sql)"
  unfolding spi_statement_def
  by (rule returns_bind_any, rule returns_bind[OF returns_collect], rule returns_bind[OF returns_collect], rule returns_bind_any)
    (simp add: Let_def returns_ret statement_ok_def plan_shape_def plan_of_def)

lemma spi_prepare_returns: "returns (spi_prepare pg lib sql hints) (ok_value (prepared_for Backend_Spi sql))"
proof -
  have "returns (keep_plan pg raw) (ok_value (\<lambda>x. True))" for raw
    by (rule returns_mono[OF returns_any]) (simp add: ok_value_def split: sum.split)
  then have plan: "returns (spi_prepare_plan pg lib sql oids) (ok_value (prepared_for Backend_Spi sql))" for oids
    unfolding spi_prepare_plan_def
    by (auto intro!: returns_bind_any[of "\<lambda>x. F x" for F] returns_ret returns_try returns_owned
        returns_bind[OF spi_statement_returns] split: option.split simp del: lit_simps)
  show ?thesis
    unfolding spi_prepare_def spi_prepare_body_def
    by (auto intro!: returns_ret returns_with_spi returns_bind_any[of "\<lambda>(a, b). F a b" for F] plan
        split: option.split prod.split simp del: lit_simps)
qed

lemma direct_statement_returns: "returns (direct_statement pg lib sql tag src trees ctx oids) (prepared_for Backend_Direct sql)"
proof -
  have "returns (result_schema_from_source pg lib src) (list_all (\<lambda>fi. fi_format fi = Fmt_Text))"
    unfolding result_schema_from_source_def
    by (auto intro!: returns_bind_any returns_ret split: option.split)
  then show ?thesis
    unfolding direct_statement_def
    by (intro returns_then returns_bind[OF \<open>returns _ _\<close>] returns_bind_any)
      (simp add: returns_ret statement_ok_def plan_shape_def plan_of_def)
qed

lemma direct_prepare_returns: "returns (direct_prepare pg lib sql hints) (ok_value (prepared_for Backend_Direct sql))"
proof -
  have plan: "returns (direct_prepare_plan pg lib sql hints rs) (ok_value (prepared_for Backend_Direct sql))" for rs
    unfolding direct_prepare_plan_def
    by (auto intro!: returns_bind_any[of "\<lambda>x. F x" for F] returns_ret returns_owned
        returns_bind[OF direct_statement_returns] split: option.split prod.split simp del: lit_simps)
  show ?thesis
    unfolding direct_prepare_def direct_prepare_body_def
    by (auto intro!: returns_ret returns_with_xact returns_bind_any[of "\<lambda>x. F x" for F] plan
        split: option.split list.split simp del: lit_simps)
qed

lemma prepare_returns: "returns (prepare pg lib backend sql hints) (ok_value (\<lambda>st. 0 \<notin> set sql \<and> prepared_for backend sql st))"
proof -
  have "returns (spi_prepare pg lib sql hints) (ok_value (\<lambda>st. 0 \<notin> set sql \<and> prepared_for Backend_Spi sql st))"
      "returns (direct_prepare pg lib sql hints) (ok_value (\<lambda>st. 0 \<notin> set sql \<and> prepared_for Backend_Direct sql st))" if "0 \<notin> set sql"
    using that by (auto intro: returns_mono[OF spi_prepare_returns] returns_mono[OF direct_prepare_returns]
        simp: ok_value_def split: sum.splits)
  then show ?thesis
    unfolding prepare_def
    by (auto intro!: returns_ret returns_guards split: execution_backend.split)
qed

section \<open>The result of an execution\<close>

definition response_fits :: "format \<Rightarrow> field_info list \<Rightarrow> response \<Rightarrow> bool" where
  "response_fits rf base r = (case r of
      Execution tag n \<Rightarrow> True
    | Query schema rows tag \<Rightarrow> base \<noteq> [] \<and> schema = response_schema rf base \<and> tag \<noteq> None
        \<and> list_all (\<lambda>row. dr_field_count row = of_nat (length base)) rows)"

lemma returns_collect_all: "(\<And>m. m \<in> set ms \<Longrightarrow> returns m P) \<Longrightarrow> returns (collect ms) (list_all P)"
proof (induction ms)
  case (Cons m ms)
  have ms: "returns (collect ms) (list_all P)" by (rule Cons.IH) (simp add: Cons.prems)
  have m: "returns m P" by (rule Cons.prems) simp
  show ?case unfolding collect.simps
    by (rule returns_bind[OF m], rule returns_bind[OF ms]) (simp add: returns_ret)
qed (simp add: returns_ret)

lemma spi_rows_returns: "returns (spi_rows pg t encoders ncols) (list_all (\<lambda>row. dr_field_count row = of_nat ncols))"
  unfolding spi_rows_def by (rule returns_collect_all) (auto intro!: returns_bind_any returns_ret)

lemma receive_rows_returns:
  "list_all (\<lambda>row. dr_field_count row = of_nat ncols) rows \<Longrightarrow>
    returns (receive_rows pg encoders ncols slots rows) (list_all (\<lambda>row. dr_field_count row = of_nat ncols))"
proof (induction slots arbitrary: rows)
  case (Cons slot slots)
  have "returns (wire_receive_slot pg encoders ncols rows slot) (list_all (\<lambda>row. dr_field_count row = of_nat ncols))"
    unfolding wire_receive_slot_def using Cons.prems by (auto intro!: returns_bind_any returns_ret)
  then show ?case by (auto intro!: returns_bind[OF \<open>returns _ _\<close>] Cons.IH)
qed (simp add: returns_ret)

lemma spi_execute_returns: "returns (spi_execute_impl pg b params pf rf max_rows) (ok_value (response_fits rf (sb_base_schema b)))"
proof -
  have rows: "returns (spi_result_rows pg b rf tag t) (\<lambda>r. sb_base_schema b \<noteq> [] \<longrightarrow> response_fits rf (sb_base_schema b) r)" for tag t
    unfolding spi_result_rows_def Let_def
    by (rule returns_bind_any, rule returns_bind[OF spi_rows_returns]) (simp add: returns_ret response_fits_def)
  have "returns (spi_decode_parameters pg params oids binary) (ok_value (\<lambda>x. True))" for oids binary
    by (rule returns_mono[OF returns_any]) (simp add: ok_value_def split: sum.split)
  then have "returns (spi_execute_body pg b params pf rf max_rows) (ok_value (response_fits rf (sb_base_schema b)))"
    unfolding spi_execute_body_def
    by (auto intro!: returns_try[where P = "\<lambda>x. True"] returns_bind_any[of "\<lambda>x. F x" for F] returns_ret returns_bind[OF rows]
        simp: response_fits_def split: option.split prod.split if_splits simp del: lit_simps)
  then show ?thesis
    unfolding spi_execute_impl_def by (auto intro!: returns_ret returns_with_spi)
qed

lemma direct_execute_returns: "returns (direct_execute_impl pg b params pf rf max_rows) (ok_value (response_fits rf (db_base_schema b)))"
proof -
  have portal: "returns (direct_execute_portal pg b pl rf max_rows plan portal) (response_fits rf (db_base_schema b))" for pl plan portal
    unfolding direct_execute_portal_def Let_def
    by (rule returns_bind_any, rule returns_then, rule returns_bind_any, rule returns_then, rule returns_bind_any,
        rule returns_then, rule returns_bind_any, rule returns_bind[OF receive_rows_returns])
      (auto simp: response_fits_def intro!: returns_bind_any returns_ret)
  have "returns (direct_decode_parameters pg params oids binary) (ok_value (\<lambda>x. True))" for oids binary
    by (rule returns_mono[OF returns_any]) (simp add: ok_value_def split: sum.split)
  moreover have "returns index_panic P" for P :: "error_info + response \<Rightarrow> bool"
    by (simp add: returns_def index_panic_def panic_def)
  ultimately have "returns (direct_execute_body pg b params pf rf max_rows) (ok_value (response_fits rf (db_base_schema b)))"
    unfolding direct_execute_body_def with_cached_plan_def with_anonymous_portal_def
    by (auto intro!: returns_try[where P = "\<lambda>x. True"] returns_bind_any[of "\<lambda>x. F x" for F] returns_ret returns_guard
        returns_bind[OF portal] split: option.split prod.split)
  then show ?thesis
    unfolding direct_execute_impl_def by (auto intro!: returns_ret returns_with_xact)
qed

lemma execute_returns:
  assumes "statement_ok st"
  shows "returns (statement_execute pg st params pf rf max_rows) (ok_value (response_fits rf (ps_result_schema st)))"
proof -
  have control: "returns (handle_xact_control_one pg cmd) (ok_value (response_fits rf base))" for cmd base
    unfolding handle_xact_control_one_def
    by (rule returns_bind_any, rule returns_bind_any)
      (auto intro!: returns_then returns_ret simp: response_fits_def split: sum.split)
  have "returns (plan_execute pg (ps_plan st) params pf rf max_rows) (ok_value (response_fits rf (ps_result_schema st)))"
  proof (cases "ps_plan st")
    case (Spi_Backend b)
    then have "sb_base_schema b = ps_result_schema st" using assms by (simp add: statement_ok_def plan_shape_def)
    then show ?thesis using spi_execute_returns[of pg b params pf rf max_rows] by (simp add: Spi_Backend plan_execute_def)
  next
    case (Direct_Backend b)
    then have "db_base_schema b = ps_result_schema st" using assms by (simp add: statement_ok_def plan_shape_def)
    then show ?thesis using direct_execute_returns[of pg b params pf rf max_rows] by (simp add: Direct_Backend plan_execute_def)
  next
    case (Xact_Control cmd)
    then show ?thesis using control
      by (simp add: plan_execute_def xact_control_execute_def returns_ret del: lit_simps)
  qed
  moreover have "returns (panic p) P" for p and P :: "error_info + response \<Rightarrow> bool" by (simp add: returns_def panic_def)
  ultimately show ?thesis
    unfolding statement_execute_def by (auto intro!: returns_guards)
qed

section \<open>The snapshot that is taken unchecked\<close>

text \<open>Whether a snapshot has been asked for.\<close>

definition snapshot_step :: "bool \<Rightarrow> pg_call event \<Rightarrow> bool option" where
  "snapshot_step b e = Some (b \<or> fst e = Tx GetTransactionSnapshot)"

lemma run_snapshot: "run_events snapshot_step b t = Some (b \<or> Tx GetTransactionSnapshot \<in> fst ` set t)"
  by (induction t arbitrary: b) (auto simp: snapshot_step_def)

lemma snapshot_taken: "(\<And>r. Q r True) \<Longrightarrow> keeps snapshot_step m True Q"
  by (auto simp: keeps_def run_snapshot)

text \<open>The calls around a query and at the start of a command answer.\<close>

fun starting_call :: "pg_call \<Rightarrow> bool" where
  "starting_call (Obs c) = True"
| "starting_call (Tx c) = (c = SetCurrentStatementStartTimestamp \<or> c = StartTransactionCommand)"
| "starting_call _ = False"

definition starts :: "(pg_call, 's) pg_env \<Rightarrow> bool" where
  "starts pg \<longleftrightarrow> (\<forall>c s. starting_call c \<longrightarrow> (\<exists>v. fst (pg c s) = Val v))"

lemma starting_bind:
  assumes "starts pg" "starting_call c" "\<And>v. keeps snapshot_step (k v) False Q"
  shows "keeps snapshot_step (bind_prog (call pg c) k) False Q"
proof (rule keeps_bind, rule keeps_call_env)
  fix s
  obtain v where v: "fst (pg c s) = Val v" using assms(1,2) unfolding starts_def by blast
  have "c \<noteq> Tx GetTransactionSnapshot" using assms(2) by auto
  then show "\<exists>b. snapshot_step False (c, fst (pg c s)) = Some b \<and> (case fst (pg c s) of
      Val v \<Rightarrow> keeps snapshot_step (k v) b Q | Unwind p \<Rightarrow> Q (Unwind p) b)"
    using assms(3) by (simp add: v snapshot_step_def ex_bool_eq)
qed

lemma starting_then:
  assumes "starts pg" "list_all starting_call cs" "keeps snapshot_step k False Q"
  shows "keeps snapshot_step (then_prog (calls pg cs) k) False Q"
proof -
  have "keeps snapshot_step (calls pg cs) False (\<lambda>r b. r = Val () \<and> b = False)"
    using assms(2)
    by (induction cs) (auto simp: then_prog_def calls.simps intro!: keeps_ret starting_bind[OF assms(1)])
  then show ?thesis by (rule keeps_then[OF keeps_conseq]) (use assms(3) in auto)
qed

lemma snapshot_guards:
  assumes "starts pg" "keeps snapshot_step body False (\<lambda>r b. b)"
  shows "keeps snapshot_step (query_guards pg sql body) False (\<lambda>r b. b)"
proof -
  have guard: "keeps snapshot_step (with_guard d m) False (\<lambda>r b. b)" if "keeps snapshot_step m False (\<lambda>r b. b)"
    for d and m :: "(pg_call, 'a, 'b) prog"
    by (rule keeps_guard, rule keeps_conseq[OF that]) (auto intro!: snapshot_taken)
  have timer: "keeps snapshot_step (statement_timeout_guard pg body) False (\<lambda>r b. b)"
    unfolding statement_timeout_guard_def timeout_install_def
  proof (rule keeps_bind, rule starting_bind[OF assms(1)], simp, goal_cases)
    case (1 ms)
    have "keeps snapshot_step (bind_prog (call pg (Obs (Get_timeout_active STATEMENT_TIMEOUT))) (\<lambda>active.
        if as_bool active then ret False
        else then_prog (calls pg [Obs (Enable_timeout_after STATEMENT_TIMEOUT (as_int ms))]) (ret True))) False
        (\<lambda>r b. case r of Val x \<Rightarrow> keeps snapshot_step (with_guard (timeout_drop pg x) body) b (\<lambda>r b. b) | Unwind p \<Rightarrow> b)"
      by (rule starting_bind[OF assms(1)]) (auto intro!: keeps_ret starting_then[OF assms(1)] guard assms(2))
    then show ?case by (auto intro!: keeps_ret guard assms(2))
  qed
  show ?thesis
    unfolding query_guards_def debug_query_guard_def debug_query_install_def
    by (rule keeps_bind, rule starting_bind[OF assms(1)])
      (auto intro!: starting_then[OF assms(1)] keeps_ret guard timer)
qed

lemma snapshot_next:
  assumes "starts pg"
  shows "keeps snapshot_step (then_prog (calls pg (Tx SetCurrentStatementStartTimestamp # Tx StartTransactionCommand
      # Tx GetTransactionSnapshot # cs)) k) False (\<lambda>r b. b)"
proof -
  have "keeps snapshot_step (calls pg (Tx GetTransactionSnapshot # cs)) False (\<lambda>r b. b)"
    by (rule keeps_calls_Cons) (auto simp: snapshot_step_def intro!: snapshot_taken split: outcome.split)
  then have "keeps snapshot_step (calls pg (Tx SetCurrentStatementStartTimestamp # Tx StartTransactionCommand
      # Tx GetTransactionSnapshot # cs)) False (\<lambda>r b. b)"
    unfolding calls.simps(2)[of pg "Tx SetCurrentStatementStartTimestamp"] calls.simps(2)[of pg "Tx StartTransactionCommand"] then_prog_def
    by (intro starting_bind[OF assms]) simp_all
  then show ?thesis by (rule keeps_then[OF keeps_conseq]) (auto intro!: snapshot_taken split: outcome.split)
qed

fun no_check :: "pg_call \<Rightarrow> bool" where
  "no_check (Tx c) = (c \<noteq> IsAbortedTransactionBlockState)"
| "no_check _ = True"

lemma worker_no_check: "worker_call c \<Longrightarrow> no_check c"
  by (cases c) auto

lemma snapshot_no_check: "snapshot_call c \<Longrightarrow> no_check c"
  by (cases c) (auto simp: snapshot_call_def)

lemma prepare_no_check: "within no_check (prepare pg lib backend sql hints)"
proof -
  have rc: "within no_check (rc_error pg api rc)" for api rc
    by (rule within_mono[OF spi_workers(1) worker_no_check])
  have "within no_check (spi_session pg (spi_prepare_body pg lib sql hints))"
    unfolding spi_session_def
    by (auto intro!: within_intros rc within_mono[OF spi_prepare_body_worker worker_no_check] simp del: lit_simps)
  then have "within no_check (spi_prepare pg lib sql hints)"
    unfolding spi_prepare_def with_spi_def by (auto intro!: within_intros split: sum.split)
  moreover have "within no_check (direct_prepare pg lib sql hints)"
    unfolding direct_prepare_def with_xact_def xact_close_def
    by (auto intro!: within_intros within_mono[OF direct_prepare_body_within snapshot_no_check] split: sum.split)
  ultimately show ?thesis
    unfolding prepare_def by (auto intro!: within_ret guards_within split: execution_backend.split)
qed

lemma prepare_takes_snapshot:
  assumes "starts pg" "0 \<notin> set sql"
  shows "keeps snapshot_step (prepare pg lib backend sql hints) False (\<lambda>r b. b)"
  unfolding prepare_def spi_prepare_def direct_prepare_def with_spi_def with_xact_def
  using assms by (auto intro!: snapshot_guards snapshot_next split: execution_backend.split)

section \<open>Properties\<close>



text \<open>C37. The result of an execution fits the statement: when \<open>do_query\<close> of a portal on a
  well-formed statement answers rows, each has as many fields as the description of the portal has columns,
  the schema that goes with them has the names and types of that description, and its
  formats are the ones of the Bind message, while the description says text for every column.
\<close>

theorem portal_result_fits_description:
  assumes "statement_ok (po_statement p)"
    and "do_query pg p max_rows s = (Val (Inr (Query schema rows tag)), t, s')"
  shows "map fi_name schema = map fi_name (do_describe_portal p)
    \<and> map fi_type schema = map fi_type (do_describe_portal p)
    \<and> map fi_format (do_describe_portal p) = replicate (length schema) Fmt_Text
    \<and> map fi_format schema = (if is_unified_text (po_result_column_format p) then replicate (length schema) Fmt_Text
        else map (format_for (po_result_column_format p)) [0..<length schema])
    \<and> list_all (\<lambda>row. dr_field_count row = of_nat (length schema)) rows"
proof -
  let ?base = "ps_result_schema (po_statement p)" and ?f = "po_result_column_format p"
  have "response_fits ?f ?base (Query schema rows tag)"
    using returnsD[OF execute_returns[OF assms(1)] assms(2)[unfolded do_query_def]] by simp
  then have sch: "schema = response_schema ?f ?base" and rows: "list_all (\<lambda>row. dr_field_count row = of_nat (length ?base)) rows"
    by (auto simp: response_fits_def)
  have "map fi_format ?base = replicate (length ?base) Fmt_Text"
    using assms(1) by (auto simp: statement_ok_def list_all_iff intro: map_replicate_const[THEN trans[rotated]])
  then show ?thesis
    using rows by (auto simp: sch response_schema_def do_describe_portal_def column_formats_def
        zip_map_fst_snd intro!: nth_equalityI)
qed

text \<open>Parse never asks whether the transaction block is aborted, on either backend and for
  every statement, also \<open>ROLLBACK\<close>; and as soon as the calls before it answer, it asks for
  a transaction snapshot, which the simple-query path rules out in an aborted block because
  the server fails there.
\<close>

theorem parse_takes_snapshot_unchecked:
  assumes "starts pg" and "0 \<notin> set sql" and "prepare pg lib backend sql hints s = (r, t, s')"
  shows "Tx GetTransactionSnapshot \<in> fst ` set t \<and> Tx IsAbortedTransactionBlockState \<notin> fst ` set t"
  using keepsD[OF prepare_takes_snapshot[OF assms(1,2)] assms(3)] withinD[OF prepare_no_check assms(3)]
  by (force simp: run_snapshot)

section \<open>One statement, as an example\<close>

text \<open>A server on which \<open>SELECT\<close> has one parameter and one column, of a type with OID 16400.\<close>

fun select_answer :: "pg_call \<Rightarrow> pg_value" where
  "select_answer (Fn (Pg_parse_query q)) = V_Stmts (Some [Some \<lparr>rs_node = N_Other 1, rs_location = 0, rs_len = 0\<rparr>])"
| "select_answer (Exec (Analyze_varparams r q)) = V_Params (Some 3) [0]"
| "select_answer (Plan (CachedPlanSource_resultDesc p)) = V_Desc (Some [(lit ''mood'', 16400)])"
| "select_answer (Exec (PortalRun p n b)) = V_Rows [[(True, 0)]]"
| "select_answer (Exec NEXT_ID_fetch_add) = V_Int 0"
| "select_answer c = V_Ptr (Some 7)"

definition select_pg :: "(pg_call, unit) pg_env" where
  "select_pg c s = (Val (select_answer c), ())"

definition select_statement :: prepared_statement where
  "select_statement = \<lparr>ps_sql = lit ''SELECT'', ps_param_types = [25],
     ps_result_schema = [\<lparr>fi_name = lit ''mood'', fi_type = 25, fi_format = Fmt_Text\<rparr>],
     ps_plan = Direct_Backend \<lparr>db_source = 7, db_param_oids = [25], db_column_oids = [25], db_command_tag = 0,
       db_tag_name = lit ''OK'', db_tag_display_rowcount = False,
       db_base_schema = [\<lparr>fi_name = lit ''mood'', fi_type = 25, fi_format = Fmt_Text\<rparr>]\<rparr>\<rparr>"

definition binary_portal :: portal where
  "binary_portal = \<lparr>po_statement = select_statement, po_parameters = [None], po_parameter_format = unified_text,
     po_result_column_format = \<lparr>is_unified_text = False, format_for = (\<lambda>i. Fmt_Binary), is_binary = (\<lambda>i. True)\<rparr>\<rparr>"

lemmas run_eval = query_guards_def debug_query_guard_def debug_query_install_def debug_query_drop_def
  statement_timeout_guard_def timeout_install_def timeout_drop_def with_guard_def with_xact_def xact_close_def
  catch_unwind_def owned_def bind_prog_def then_prog_def try_prog_def calls.simps call_def ret_def as_handle_def

lemma select_prepared:
  "\<exists>t. prepare select_pg demo_libs Backend_Direct (lit ''SELECT'') [] () = (Val (Inr select_statement), t, ())"
  by (simp add: prepare_def direct_prepare_def direct_prepare_body_def direct_prepare_plan_def classify_raw_stmt_def
      analyze_in_query_context_def analyze_params_def cached_plan_source_create_def direct_statement_def
      cached_plan_source_complete_def cached_plan_source_save_def result_schema_from_source_def
      cached_plan_source_result_desc_def command_tag_name_def text_schema_def column_type_def type_from_oid_def
      param_type_def resolve_oid_or_text_def TEXTOID_def demo_libs_def select_pg_def select_statement_def run_eval)


lemma select_executed:
  "\<exists>t. do_query select_pg binary_portal 0 () = (Val (Inr (Query
      [\<lparr>fi_name = lit ''mood'', fi_type = 25, fi_format = Fmt_Binary\<rparr>]
      [\<lparr>dr_data = put_i32 NULL_LEN, dr_field_count = 1\<rparr>] (Some (lit ''OK'')))), t, ())"
proof -
  have name: "portal_name 0 = Some (lit ''pgxport_'' @ show_nat 0 @ replicate (24 - length (show_nat 0)) 0)"
    by (simp add: portal_name_eq)
  show ?thesis
  by (simp add: do_query_def binary_portal_def statement_execute_def plan_execute_def select_statement_def
      direct_execute_impl_def direct_execute_body_def direct_decode_parameters_def decode_all_def decode_parameter_def
      param_list_build_def with_cached_plan_def with_anonymous_portal_def name direct_execute_portal_def
      column_encoders_def column_encoder_for_column_def type_send_for_type_def column_formats_def portal_count_def
      wire_receive_slot_def encode_field_def response_schema_def unified_text_def param_is_binary_def
      select_pg_def run_eval)
qed

theorem portal_result_fits_description_witness:
  "map fi_format (do_describe_portal binary_portal) = [Fmt_Text]
   \<and> (\<exists>schema rows tag t. do_query select_pg binary_portal 0 () = (Val (Inr (Query schema rows tag)), t, ())
      \<and> map fi_format schema = [Fmt_Binary])"
proof -
  have ok: "statement_ok (po_statement binary_portal)"
    by (simp add: statement_ok_def plan_shape_def binary_portal_def select_statement_def)
  obtain t where run: "do_query select_pg binary_portal 0 () = (Val (Inr (Query
      [\<lparr>fi_name = lit ''mood'', fi_type = 25, fi_format = Fmt_Binary\<rparr>]
      [\<lparr>dr_data = put_i32 NULL_LEN, dr_field_count = 1\<rparr>] (Some (lit ''OK'')))), t, ())"
    using select_executed by blast
  from portal_result_fits_description[OF ok run] run show ?thesis by auto
qed

theorem parse_takes_snapshot_unchecked_witness:
  "\<exists>r t s'. prepare demo_pg demo_libs Backend_Spi (lit ''ROLLBACK'') [] () = (r, t, s')
     \<and> Tx GetTransactionSnapshot \<in> fst ` set t \<and> Tx IsAbortedTransactionBlockState \<notin> fst ` set t"
proof -
  obtain r t s' where run: "prepare demo_pg demo_libs Backend_Spi (lit ''ROLLBACK'') [] () = (r, t, s')"
    by (metis prod_cases3)
  have start: "starts demo_pg"
    unfolding starts_def demo_pg_def
  proof (intro allI impI)
    fix c :: pg_call and s :: unit assume "starting_call c"
    then show "\<exists>v. fst (demo_answer c, ()) = Val v" by (cases c) auto
  qed
  show ?thesis using parse_takes_snapshot_unchecked[OF start _ run] run by auto
qed

end
