(* ===== verification/Tuplestore.thy ===== *)
theory Tuplestore
  imports Pg_Monad
begin

text \<open>
  \<open>backend/tuplestore.rs\<close>: the owners of a tuple store and of a receiver that writes into
  one.  An owner is a scope: what it allocated is released when the scope ends, on a return
  and on an unwind.
\<close>

section \<open>The owners\<close>

text \<open>
  The server functions of the two owners; \<open>RDestroy_field\<close> reads the callback of a receiver.
  \<open>Use_store\<close> stands for any call that works on a store, a receiver or neither.
\<close>

datatype store_call =
    Tuplestore_begin_heap bool bool int | Tuplestore_end nat
  | CreateDestReceiver_DestTuplestore
  | SetTuplestoreDestReceiverParams "nat option" "nat option" nat bool "nat option"
  | RDestroy_field nat | RDestroy nat nat
  | Use_store nat

definition tuplestore_drop :: "(store_call, 's) pg_env \<Rightarrow> nat option \<Rightarrow> (store_call, 's, unit) prog" where
  "tuplestore_drop pg raw = (case raw of None \<Rightarrow> ret () | Some p \<Rightarrow> calls pg [Tuplestore_end p])"

definition with_tuplestore ::
  "(store_call, 's) pg_env \<Rightarrow> bool \<Rightarrow> bool \<Rightarrow> int \<Rightarrow> (nat option \<Rightarrow> (store_call, 's, 'r) prog) \<Rightarrow> (store_call, 's, 'r) prog" where
  "with_tuplestore pg random_access inter_xact max_kbytes body =
    bind_prog (call pg (Tuplestore_begin_heap random_access inter_xact max_kbytes)) (\<lambda>raw.
      with_guard (tuplestore_drop pg (as_ptr raw)) (body (as_ptr raw)))"

definition receiver_drop :: "(store_call, 's) pg_env \<Rightarrow> nat option \<Rightarrow> (store_call, 's, unit) prog" where
  "receiver_drop pg raw =
    (case raw of None \<Rightarrow> ret ()
     | Some r \<Rightarrow> bind_prog (call pg (RDestroy_field r)) (\<lambda>f. case as_ptr f of
         None \<Rightarrow> ret ()
       | Some destroy \<Rightarrow> calls pg [RDestroy destroy r]))"

text \<open>The receiver is owned only once it is bound to its store.\<close>

definition with_tuplestore_receiver ::
  "(store_call, 's) pg_env \<Rightarrow> nat option \<Rightarrow> nat \<Rightarrow> bool \<Rightarrow> nat option \<Rightarrow> (nat option \<Rightarrow> (store_call, 's, 'r) prog)
     \<Rightarrow> (store_call, 's, 'r) prog" where
  "with_tuplestore_receiver pg tuplestore t_context detoast target_tupdesc body =
    bind_prog (call pg CreateDestReceiver_DestTuplestore) (\<lambda>raw.
      then_prog (calls pg [SetTuplestoreDestReceiverParams (as_ptr raw) tuplestore t_context detoast target_tupdesc])
        (with_guard (receiver_drop pg (as_ptr raw)) (body (as_ptr raw))))"

text \<open>The order the module asks for: the receiver's scope inside that of its store.\<close>

definition receiver_lifecycle ::
  "(store_call, 's) pg_env \<Rightarrow> nat \<Rightarrow> (nat option \<Rightarrow> nat option \<Rightarrow> (store_call, 's, 'r) prog) \<Rightarrow> (store_call, 's, 'r) prog" where
  "receiver_lifecycle pg t_context body =
    with_tuplestore pg False False 1024 (\<lambda>store.
      with_tuplestore_receiver pg store t_context False None (body store))"

section \<open>Nothing outlives what it refers to\<close>

text \<open>
  The live store and the live receiver.  A receiver may be made and bound only while its
  store lives; a store is freed only when no receiver is bound to it any more.  A receiver
  whose binding raises was never owned and stays in its memory context: \<open>Orphan\<close>.  One
  without a destroy callback has nothing to free.
\<close>

datatype receiver_life = No_Receiver | Unbound nat | Bound nat | Orphan

record lives =
  live_store :: "nat option"
  live_receiver :: receiver_life

fun store_next :: "lives \<Rightarrow> store_call \<Rightarrow> pg_value outcome \<Rightarrow> lives option" where
  "store_next a (Tuplestore_begin_heap ra ix kb) r =
    (if live_store a = None then Some (case r of Val v \<Rightarrow> a\<lparr>live_store := as_ptr v\<rparr> | Unwind p \<Rightarrow> a) else None)"
| "store_next a (Tuplestore_end p) r =
    (if live_store a = Some p \<and> (\<forall>q. live_receiver a \<noteq> Bound q) then Some (a\<lparr>live_store := None\<rparr>) else None)"
| "store_next a CreateDestReceiver_DestTuplestore r =
    (if live_receiver a = No_Receiver
     then Some (case r of Val v \<Rightarrow> a\<lparr>live_receiver := (case as_ptr v of None \<Rightarrow> No_Receiver | Some q \<Rightarrow> Unbound q)\<rparr> | Unwind p \<Rightarrow> a)
     else None)"
| "store_next a (SetTuplestoreDestReceiverParams q store c d td) r =
    (if store = live_store a then (case (q, live_receiver a) of
        (Some q, Unbound q') \<Rightarrow> if q = q' then Some (a\<lparr>live_receiver := (case r of Val v \<Rightarrow> Bound q | Unwind p \<Rightarrow> Orphan)\<rparr>) else None
      | (None, No_Receiver) \<Rightarrow> Some a
      | _ \<Rightarrow> None)
     else None)"
| "store_next a (RDestroy_field q) r =
    (if live_receiver a = Bound q
     then Some (case r of Val (V_Ptr (Some f)) \<Rightarrow> a | _ \<Rightarrow> a\<lparr>live_receiver := No_Receiver\<rparr>) else None)"
| "store_next a (RDestroy f q) r =
    (if live_receiver a = Bound q then Some (a\<lparr>live_receiver := No_Receiver\<rparr>) else None)"
| "store_next a (Use_store n) r = Some a"

definition store_step :: "lives \<Rightarrow> store_call event \<Rightarrow> lives option" where
  "store_step a e = store_next a (fst e) (snd e)"

lemma store_step_simps [simp]: "store_step a (c, r) = store_next a c r"
  by (simp add: store_step_def)

definition lives_none :: lives where
  "lives_none = \<lparr>live_store = None, live_receiver = No_Receiver\<rparr>"

lemma use_still: "within (\<lambda>c. \<exists>n. c = Use_store n) m \<Longrightarrow> keeps store_step m a (\<lambda>r b. b = a)"
  by (erule keeps_within) auto

text \<open>The receiver's scope inside a live store: it ends with no receiver bound.\<close>

lemma receiver_scope:
  assumes "\<And>r. within (\<lambda>c. \<exists>n. c = Use_store n) (body r)"
  shows "keeps store_step (with_tuplestore_receiver pg store t_context detoast desc body)
      \<lparr>live_store = store, live_receiver = No_Receiver\<rparr>
    (\<lambda>r b. live_store b = store \<and> live_receiver b \<in> {No_Receiver, Orphan})"
proof -
  let ?Q = "\<lambda>r b. live_store b = store \<and> live_receiver b \<in> {No_Receiver, Orphan}"
  let ?bound = "\<lambda>raw. \<lparr>live_store = store, live_receiver = (case raw of None \<Rightarrow> No_Receiver | Some q \<Rightarrow> Bound q)\<rparr>"
  have dropped: "keeps store_step (receiver_drop pg raw) (?bound raw) ?Q" for raw
    unfolding receiver_drop_def
    by (cases raw) (auto intro!: keeps_ret keeps_bind keeps_call keeps_calls_Cons keeps_calls_Nil
        split: outcome.split pg_value.split option.split)
  have scope: "keeps store_step (with_guard (receiver_drop pg raw) (body raw)) (?bound raw) ?Q" for raw
    by (rule keeps_guard, rule keeps_conseq[OF use_still[OF assms]]) (auto intro: keeps_conseq[OF dropped])
  have bind: "keeps store_step (then_prog (calls pg [SetTuplestoreDestReceiverParams raw store t_context detoast desc])
      (with_guard (receiver_drop pg raw) (body raw)))
      \<lparr>live_store = store, live_receiver = (case raw of None \<Rightarrow> No_Receiver | Some q \<Rightarrow> Unbound q)\<rparr> ?Q" for raw
    using scope[of raw]
    by (cases raw) (auto intro!: keeps_then keeps_calls_Cons keeps_calls_Nil split: outcome.split)
  show ?thesis
    unfolding with_tuplestore_receiver_def
    by (rule keeps_bind, rule keeps_call) (use bind in \<open>auto split: outcome.split option.split\<close>)
qed

text \<open>
  On every exit the receiver is destroyed before its store is freed, the store is freed
  exactly once, and neither is used by its release after it is gone.
\<close>

lemma receiver_lifecycle_keeps_order:
  assumes "\<And>st r. within (\<lambda>c. \<exists>n. c = Use_store n) (body st r)"
  shows "case receiver_lifecycle pg t_context body s of (r, t, s') \<Rightarrow>
    \<exists>b. run_events store_step lives_none t = Some b \<and> live_store b = None \<and> live_receiver b \<in> {No_Receiver, Orphan}"
proof (rule keeps_run)
  let ?Q = "\<lambda>r b. live_store b = None \<and> live_receiver b \<in> {No_Receiver, Orphan}"
  let ?body = "\<lambda>store. with_tuplestore_receiver pg store t_context False None (body store)"
  have dropped: "keeps store_step (tuplestore_drop pg store) b ?Q"
    if "live_store b = store" "live_receiver b \<in> {No_Receiver, Orphan}" for b store
    unfolding tuplestore_drop_def using that
    by (cases store) (auto intro!: keeps_ret keeps_calls_Cons keeps_calls_Nil split: outcome.split)
  have scope: "keeps store_step (with_guard (tuplestore_drop pg store) (?body store))
      \<lparr>live_store = store, live_receiver = No_Receiver\<rparr> ?Q" for store
    by (rule keeps_guard, rule keeps_conseq[OF receiver_scope[OF assms]]) (auto intro: keeps_conseq[OF dropped])
  show "keeps store_step (receiver_lifecycle pg t_context body) lives_none ?Q"
    unfolding receiver_lifecycle_def with_tuplestore_def lives_none_def
    by (rule keeps_bind, rule keeps_call) (use scope in \<open>auto split: outcome.split\<close>)
qed

end
