(* ===== verification/Tls.thy ===== *)
theory Tls
  imports Guc
begin

text \<open>
  \<open>wire/tls.rs\<close>: the TLS acceptor a slot builds once at boot from the two configured
  files.  The file system, the PEM readers and the configuration builder of the TLS
  library are parameters; an error of the library is shown as text.
\<close>

section \<open>Building the acceptor\<close>

datatype 'k tls_error_kind = Invalid_Input | Invalid_File_Data | Io_Kind 'k

type_synonym 'k tls_error = "'k tls_error_kind \<times> bytes"

text \<open>What the code takes from outside; a reader yields one result per PEM item.\<close>

record ('f, 'c, 'key, 'acc, 'k) tls_lib =
  open_file :: "bytes \<Rightarrow> ('k \<times> bytes) + 'f"
  certs_of :: "'f \<Rightarrow> (bytes + 'c) list"
  pkcs8_keys_of :: "'f \<Rightarrow> (bytes + 'key) list"
  with_single_cert :: "'c list \<Rightarrow> 'key \<Rightarrow> bytes + 'acc"

text \<open>\<open>collect\<close> into a result: the first error, or all the items.\<close>

fun collect_results :: "('e + 'a) list \<Rightarrow> 'e + 'a list" where
  "collect_results [] = Inr []"
| "collect_results (Inl e # rs) = Inl e"
| "collect_results (Inr x # rs) = bind_result (collect_results rs) (\<lambda>xs. Inr (x # xs))"

definition map_error :: "('e \<Rightarrow> 'f) \<Rightarrow> 'e + 'a \<Rightarrow> 'f + 'a" where
  "map_error f r = (case r of Inl e \<Rightarrow> Inl (f e) | Inr x \<Rightarrow> Inr x)"

definition read_pem :: "('f, 'c, 'key, 'acc, 'k) tls_lib \<Rightarrow> ('f \<Rightarrow> (bytes + 'i) list) \<Rightarrow> bytes
      \<Rightarrow> 'k tls_error + 'i list" where
  "read_pem lib reader path =
    bind_result (map_error (\<lambda>(k, e). (Io_Kind k, lit ''opening '' @ path @ lit '': '' @ e)) (open_file lib path))
      (\<lambda>f. map_error (\<lambda>e. (Invalid_File_Data, lit ''parsing '' @ path @ lit '': '' @ e))
             (collect_results (reader f)))"

definition tls_build :: "('f, 'c, 'key, 'acc, 'k) tls_lib \<Rightarrow> bytes option \<Rightarrow> bytes option
      \<Rightarrow> 'k tls_error + 'acc option" where
  "tls_build lib cert_setting key_setting =
    (case tls_files cert_setting key_setting of
       Inl e \<Rightarrow> Inl (Invalid_Input, e)
     | Inr None \<Rightarrow> Inr None
     | Inr (Some (cert_path, key_path)) \<Rightarrow>
         bind_result (read_pem lib (certs_of lib) cert_path) (\<lambda>certs_vec.
         if certs_vec = [] then Inl (Invalid_File_Data, lit ''no certificates found in '' @ cert_path)
         else bind_result (read_pem lib (pkcs8_keys_of lib) key_path) (\<lambda>keys.
         if keys = [] then Inl (Invalid_File_Data, lit ''no PKCS#8 private keys found in '' @ key_path
           @ lit '' (only PKCS#8 is supported in v0; convert with `openssl pkey`)'')
         else bind_result (map_error (\<lambda>e. (Invalid_Input, lit ''rustls cert config: '' @ e))
                 (with_single_cert lib certs_vec (hd keys)))
           (\<lambda>acc. Inr (Some acc)))))"

section \<open>When a slot serves in the clear\<close>

lemma collect_results_Inr: "collect_results rs = Inr xs \<longleftrightarrow> rs = map Inr xs"
proof (induction rs arbitrary: xs)
  case (Cons r rs)
  then show ?case by (cases r; cases xs) (auto simp: bind_result_Inr_iff)
qed auto

lemma map_error_Inr [simp]: "map_error f r = Inr x \<longleftrightarrow> r = Inr x"
  by (cases r) (simp_all add: map_error_def)

lemma tls_files_cases:
  obtains (off) "tls_files c k = Inr None" "c \<in> {None, Some []}" "k \<in> {None, Some []}"
  | (on) cp kp where "tls_files c k = Inr (Some (cp, kp))" "c = Some cp" "k = Some kp" "cp \<noteq> []" "kp \<noteq> []"
  | (half) e where "tls_files c k = Inl e"
  by (cases c; cases k; cases "c = Some []"; cases "k = Some []") (auto simp: tls_files_def)

text \<open>
  TLS is off only when neither file is configured: a setting that is there is never
  ignored, whatever is wrong with its file.
\<close>

lemma tls_off_iff: "tls_build lib c k = Inr None \<longleftrightarrow> c \<in> {None, Some []} \<and> k \<in> {None, Some []}"
proof (cases rule: tls_files_cases[of c k])
  case on
  then show ?thesis by (auto simp: tls_build_def bind_result_Inr_iff split: if_splits)
next
  case half
  then show ?thesis by (cases c; cases k) (auto simp: tls_build_def tls_files_def split: if_splits)
qed (simp add: tls_build_def)

text \<open>An acceptor uses every certificate of the file and the first of its keys.\<close>

lemma tls_acceptor_parts:
  assumes "tls_build lib c k = Inr (Some acc)"
  obtains cp kp cf kf cs key keys where
    "c = Some cp" "k = Some kp" "open_file lib cp = Inr cf" "open_file lib kp = Inr kf"
    "certs_of lib cf = map Inr cs" "cs \<noteq> []" "pkcs8_keys_of lib kf = map Inr (key # keys)"
    "with_single_cert lib cs key = Inr acc"
proof (cases rule: tls_files_cases[of c k])
  case (on cp kp)
  then obtain cf kf cs keys where
    b: "open_file lib cp = Inr cf" "open_file lib kp = Inr kf" "collect_results (certs_of lib cf) = Inr cs"
    "cs \<noteq> []" "collect_results (pkcs8_keys_of lib kf) = Inr keys" "keys \<noteq> []"
    "with_single_cert lib cs (hd keys) = Inr acc"
    using assms by (auto simp: tls_build_def read_pem_def bind_result_Inr_iff split: if_splits)
  then show ?thesis using on by (intro that[of cp kp cf kf cs "hd keys" "tl keys"])
    (auto simp: collect_results_Inr)
qed (use assms in \<open>auto simp: tls_build_def\<close>)

end
