(* ===== verification/Slot_Main.thy ===== *)
theory Slot_Main
  imports Slot Tls Pool_Tasks
begin

text \<open>
  The entry point of a slot worker in \<open>backend/slot.rs\<close>, from the postmaster's call to the exit:
  the signal handlers, the database connection, and the run of the slot on the frontend's
  socket with the TLS acceptor of \<open>wire/tls.rs\<close>.
\<close>

section \<open>The boot of a slot\<close>

text \<open>
  The socket is the one the pool binds; the acceptor is built from the two settings.  Of an
  error only the message is used.
\<close>

definition tls_io_error :: "'k tls_error \<Rightarrow> io_error" where
  "tls_io_error e = (Other_Kind, map (\<lambda>b. char_of (unat b)) (snd e))"

definition slot_boot ::
  "('f, 'c, 'key, 'acc, 'k) tls_lib \<Rightarrow> bytes option \<Rightarrow> bytes option \<Rightarrow> boot_env \<Rightarrow> boot_env" where
  "slot_boot lib cert_setting key_setting env =
    env\<lparr>slot_path := frontend_socket_path,
        tls_result := (case tls_build lib cert_setting key_setting of Inl e \<Rightarrow> Inl (tls_io_error e) | Inr acceptor \<Rightarrow> Inr ())\<rparr>"

section \<open>The entry point\<close>

datatype slot_main_effect =
    Attach_Sighup_Sigterm
  | Connect_Worker_To_Spi "string option" "string option"
  | In_Slot slot_effect

text \<open>An exit with an error is only logged; a panic unwinds into the guard of the entry point.\<close>

definition pg_transport_slot_main ::
  "bool \<Rightarrow> ('f, 'c, 'key, 'acc, 'k) tls_lib \<Rightarrow> bytes option \<Rightarrow> bytes option \<Rightarrow> boot_env \<Rightarrow> turn_env list
     \<Rightarrow> slot_main_effect list \<times> slot_exit option" where
  "pg_transport_slot_main connects lib cert_setting key_setting env envs =
    (let start = [Attach_Sighup_Sigterm, Connect_Worker_To_Spi (Some ''postgres'') None]
     in if \<not> connects then (start, Some Exit_Panic)
        else let (fx, x) = run_slot (slot_boot lib cert_setting key_setting env) envs
             in (start @ map In_Slot fx, x))"

section \<open>What a slot is before it serves\<close>

lemma run_slot_serves:
  assumes "run_slot boot envs = (fx, x)" and "Sent_Ready \<in> set fx \<or> Wire_Run fd \<in> set fx"
  shows "slot_setup boot = Inr ()" "first_ready_result boot = Inr ()" "\<exists>fx'. fx = Sent_Ready # fx'"
  using assms by (auto simp: run_slot_def Let_def split: sum.splits prod.splits)

lemma slot_setup_tls: "slot_setup boot = Inr () \<Longrightarrow> \<exists>u. tls_result boot = Inr u"
  by (auto simp: slot_setup_def split: sum.splits)

lemma slot_boot_tls: "tls_result (slot_boot lib c k env) = Inr u \<longleftrightarrow> (\<exists>acceptor. tls_build lib c k = Inr acceptor)"
  by (auto simp: slot_boot_def split: sum.split)

text \<open>Before the first readiness byte the worker has its handlers, its database and its acceptor.\<close>

lemma ready_slot_is_set_up:
  assumes "pg_transport_slot_main connects lib c k env envs = (fx, x)"
    and "In_Slot Sent_Ready \<in> set fx \<or> In_Slot (Wire_Run fd) \<in> set fx"
  shows "(\<exists>fx'. fx = Attach_Sighup_Sigterm # Connect_Worker_To_Spi (Some ''postgres'') None # In_Slot Sent_Ready # fx')
    \<and> (\<exists>acceptor. tls_build lib c k = Inr acceptor)"
proof -
  obtain gx y where run: "run_slot (slot_boot lib c k env) envs = (gx, y)" by fastforce
  have fx: "fx = Attach_Sighup_Sigterm # Connect_Worker_To_Spi (Some ''postgres'') None # map In_Slot gx"
    using assms run by (auto simp: pg_transport_slot_main_def Let_def split: if_splits)
  then have "Sent_Ready \<in> set gx \<or> Wire_Run fd \<in> set gx" using assms(2) by auto
  from run_slot_serves[OF run this] show ?thesis
    using fx slot_setup_tls slot_boot_tls by fastforce
qed

text \<open>A slot serves its clients in the clear only when no TLS file is configured at all.\<close>

lemma clear_slot_has_no_tls_files:
  assumes "pg_transport_slot_main connects lib c k env envs = (fx, x)" and "In_Slot (Wire_Run fd) \<in> set fx"
    and "\<forall>acc. tls_build lib c k \<noteq> Inr (Some acc)"
  shows "c \<in> {None, Some []} \<and> k \<in> {None, Some []}"
proof -
  obtain acceptor where "tls_build lib c k = Inr acceptor" using ready_slot_is_set_up[OF assms(1), of fd] assms(2) by blast
  then have "tls_build lib c k = Inr None" using assms(3) by (cases acceptor) auto
  then show ?thesis by (simp add: tls_off_iff)
qed

end
