(* ===== verification/Bench.thy ===== *)
theory Bench
  imports Rust_Text
begin

text \<open>
  \<open>bench/src/main.rs\<close>: the load generator.  Durations are nanoseconds.  The server
  is environment: what a worker's connection, its \<open>SET\<close> and each round trip returned
  are arguments.  An error is the chain of its contexts, as the process prints it.
\<close>

section \<open>The workload\<close>

datatype backend_mode = Mode_Spi | Mode_Direct

record workload =
  iterations :: nat
  warmup :: nat
  connections :: nat
  user_name :: bytes
  db_name :: bytes
  csv_path :: "bytes option"
  exec_mode :: backend_mode

definition validate_workload :: "workload \<Rightarrow> bytes + unit" where
  "validate_workload w =
    (if iterations w = 0 then Inl (lit ''--iterations must be > 0'')
     else if connections w = 0 then Inl (lit ''--connections must be > 0'')
     else if connections w > iterations w then
       Inl (lit ''--connections ('' @ show_nat (connections w) @ lit '') > --iterations (''
         @ show_nat (iterations w) @ lit ''); each worker needs at least one query'')
     else Inr ())"

abbreviation COLON_BYTE :: "8 word" where "COLON_BYTE \<equiv> 0x3A"

text \<open>\<open>rsplit_once\<close>: at the last occurrence.\<close>

fun rsplit_once :: "8 word \<Rightarrow> bytes \<Rightarrow> (bytes \<times> bytes) option" where
  "rsplit_once d [] = None"
| "rsplit_once d (b # bs) =
    (case rsplit_once d bs of
       Some (l, r) \<Rightarrow> Some (b # l, r)
     | None \<Rightarrow> (if b = d then Some ([], bs) else None))"

definition libpq_conn_str :: "bytes \<Rightarrow> bytes \<Rightarrow> bytes \<Rightarrow> bytes" where
  "libpq_conn_str target user db =
    (let (host, port) = (case rsplit_once COLON_BYTE target of
           Some (h, p) \<Rightarrow> (h, p)
         | None \<Rightarrow> (target, lit ''5454''))
     in lit ''host='' @ host @ lit '' port='' @ port @ lit '' user='' @ user @ lit '' dbname='' @ db)"

section \<open>One worker\<close>

text \<open>
  A worker's run up to the barrier and, once the barrier has released it, its
  measured round trips; each round trip returned an error or its latency.
\<close>

definition set_execution_backend :: "backend_mode \<Rightarrow> bytes" where
  "set_execution_backend mode = lit ''SET pg_transport.execution_backend = '' @ [0x27]
     @ (case mode of Mode_Spi \<Rightarrow> lit ''spi'' | Mode_Direct \<Rightarrow> lit ''direct'') @ [0x27]"

record worker_env =
  w_connect :: "bytes + unit"
  w_query :: "bytes \<Rightarrow> bytes + unit"        \<comment> \<open>the answer to the \<open>SET\<close>\<close>
  w_warm :: "nat \<Rightarrow> bytes + unit"
  w_trip :: "nat \<Rightarrow> bytes + nat"
  w_panics :: bool                          \<comment> \<open>the task panicked while measuring\<close>

fun run_trips :: "bytes \<Rightarrow> (nat \<Rightarrow> bytes + 'a) \<Rightarrow> nat \<Rightarrow> nat \<Rightarrow> bytes + 'a list" where
  "run_trips ctx trip i 0 = Inr []"
| "run_trips ctx trip i (Suc n) =
    (case trip i of
       Inl e \<Rightarrow> Inl (ctx @ lit '': '' @ e)
     | Inr t \<Rightarrow> bind_result (run_trips ctx trip (i + 1) n) (\<lambda>ts. Inr (t # ts)))"

definition reach_barrier :: "bytes \<Rightarrow> nat \<Rightarrow> backend_mode \<Rightarrow> worker_env \<Rightarrow> bytes + unit" where
  "reach_barrier conn_str warm mode env =
    (case w_connect env of
       Inl e \<Rightarrow> Inl (lit ''connect: '' @ conn_str @ lit '': '' @ e)
     | Inr _ \<Rightarrow> (case w_query env (set_execution_backend mode) of
         Inl e \<Rightarrow> Inl (lit ''set pg_transport.execution_backend: '' @ e)
       | Inr _ \<Rightarrow> bind_result (run_trips (lit ''warmup query'') (w_warm env) 0 warm) (\<lambda>_. Inr ())))"

definition run_one_worker :: "bytes \<Rightarrow> nat \<Rightarrow> nat \<Rightarrow> backend_mode \<Rightarrow> worker_env \<Rightarrow> bytes + nat list" where
  "run_one_worker conn_str iters warm mode env =
    bind_result (reach_barrier conn_str warm mode env)
      (\<lambda>_. run_trips (lit ''measured query'') (w_trip env) 0 iters)"

section \<open>All workers\<close>

definition worker_iters :: "nat \<Rightarrow> nat \<Rightarrow> nat \<Rightarrow> nat" where
  "worker_iters iters conns worker_id =
    iters div conns + (if worker_id < iters mod conns then 1 else 0)"

text \<open>Joining the workers in order: \<open>None\<close> is a task that panicked.\<close>

fun join_workers :: "(bytes + nat list) option list \<Rightarrow> nat list \<Rightarrow> bytes option \<Rightarrow> bytes + nat list" where
  "join_workers [] samples first_err = (case first_err of Some e \<Rightarrow> Inl e | None \<Rightarrow> Inr samples)"
| "join_workers (Some (Inr ts) # hs) samples first_err = join_workers hs (samples @ ts) first_err"
| "join_workers (Some (Inl e) # hs) samples first_err =
    join_workers hs samples (case first_err of None \<Rightarrow> Some e | Some e' \<Rightarrow> Some e')"
| "join_workers (None # hs) samples first_err =
    join_workers hs samples (case first_err of None \<Rightarrow> Some (lit ''worker join: panic'') | Some e' \<Rightarrow> Some e')"

text \<open>
  The barrier counts the workers and the coordinator, so it opens only when every
  worker came to it; \<open>in_time\<close> says whether that happened within the 30 seconds.
\<close>

definition BARRIER_TIMEOUT_S :: nat where "BARRIER_TIMEOUT_S = 30"

definition barrier_error :: "nat \<Rightarrow> bytes" where
  "barrier_error conns = lit ''barrier timeout after '' @ show_nat BARRIER_TIMEOUT_S @ lit ''s: only some workers finished warmup. ''
     @ lit ''If `--connections` ('' @ show_nat conns @ lit '') > pg_transport.max_backend_pool_size, the ''
     @ lit ''extra connections saturate the pool and get TCP-reset on ''
     @ lit ''handoff timeout (autoscaler ceiling; see ''
     @ lit ''docs/design/deferred/slot-readiness.md '' @ [0xC2, 0xA7] @ lit ''5).''"

definition run_workload :: "bytes \<Rightarrow> workload \<Rightarrow> bool \<Rightarrow> (nat \<Rightarrow> worker_env)
      \<Rightarrow> bytes + nat list" where
  "run_workload conn_str w in_time envs =
    (let ids = [0..<connections w];
         run = (\<lambda>i. run_one_worker conn_str (worker_iters (iterations w) (connections w) i) (warmup w) (exec_mode w) (envs i))
     in if \<not> (in_time \<and> list_all (\<lambda>i. reach_barrier conn_str (warmup w) (exec_mode w) (envs i) = Inr ()) ids)
        then Inl (barrier_error (connections w))
        else join_workers (map (\<lambda>i. if w_panics (envs i) then None else Some (run i)) ids) [] None)"

section \<open>The summary\<close>

record summary =
  sm_n :: nat
  sm_wall :: nat
  sm_min :: nat
  sm_p50 :: nat
  sm_p95 :: nat
  sm_p99 :: nat
  sm_max :: nat
  sm_mean :: nat

definition percentile :: "nat list \<Rightarrow> nat \<Rightarrow> nat" where
  "percentile srt p = srt ! min ((p * length srt) div 100) (length srt - 1)"

text \<open>
  \<open>None\<close> is the failed assertion.  The mean is cut to 64 bits; the queries per second
  are a floating-point quotient of \<open>sm_n\<close> and \<open>sm_wall\<close> and left out.
\<close>

definition summarize :: "nat list \<Rightarrow> nat \<Rightarrow> summary option" where
  "summarize samples wall =
    (if samples = [] then None
     else let srt = sort samples; n = length srt
       in Some \<lparr>sm_n = n, sm_wall = wall, sm_min = srt ! 0, sm_p50 = percentile srt 50,
            sm_p95 = percentile srt 95, sm_p99 = percentile srt 99, sm_max = srt ! (n - 1),
            sm_mean = (sum_list samples div n) mod 2 ^ 64\<rparr>)"

text \<open>The lines of the CSV file, each ended by a newline.\<close>

fun csv_rows :: "bytes \<Rightarrow> nat \<Rightarrow> nat list \<Rightarrow> bytes" where
  "csv_rows label i [] = []"
| "csv_rows label i (d # ds) =
    label @ lit '','' @ show_nat i @ lit '','' @ show_nat d @ [0x0A] @ csv_rows label (i + 1) ds"

definition write_csv :: "(bytes \<times> nat list) list \<Rightarrow> bytes" where
  "write_csv runs = lit ''label,iter,latency_ns'' @ [0x0A]
     @ concat (map (\<lambda>(label, samples). csv_rows label 0 samples) runs)"

text \<open>
  What a run prints, and the file it writes if one was asked for.  \<open>run\<close> is
  \<open>run_workload\<close> against the server of a connection string, with the wall time it took.
\<close>

definition run_single :: "workload \<Rightarrow> bytes \<Rightarrow> bytes option \<Rightarrow> (bytes \<Rightarrow> bytes + nat list \<times> nat)
      \<Rightarrow> bytes + summary option \<times> (bytes \<times> bytes) option" where
  "run_single w target label run =
    bind_result (validate_workload w) (\<lambda>_.
    bind_result (run (libpq_conn_str target (user_name w) (db_name w))) (\<lambda>(samples, wall).
      let label = (case label of Some l \<Rightarrow> l | None \<Rightarrow> target)
      in Inr (summarize samples wall, map_option (\<lambda>path. (path, write_csv [(label, samples)])) (csv_path w))))"

text \<open>Both targets in turn, the baseline first; a failure of either names its target.\<close>

definition local_target :: "nat \<Rightarrow> bytes" where
  "local_target port = lit ''127.0.0.1:'' @ show_nat port"

definition run_compare :: "workload \<Rightarrow> nat \<Rightarrow> nat \<Rightarrow> (bytes \<Rightarrow> bytes + nat list \<times> nat)
      \<Rightarrow> bytes + (summary option \<times> summary option) \<times> (bytes \<times> bytes) option" where
  "run_compare w pt_port pg_port run =
    bind_result (validate_workload w) (\<lambda>_.
    let conn = (\<lambda>port. libpq_conn_str (local_target port) (user_name w) (db_name w)) in
    case run (conn pg_port) of Inl e \<Rightarrow> Inl (lit ''vanilla PG bench: '' @ e)
    | Inr (pg_samples, pg_wall) \<Rightarrow>
      (case run (conn pt_port) of Inl e \<Rightarrow> Inl (lit ''pg_transport bench: '' @ e)
       | Inr (pt_samples, pt_wall) \<Rightarrow>
          Inr ((summarize pg_samples pg_wall, summarize pt_samples pt_wall),
               map_option (\<lambda>path. (path, write_csv [(lit ''vanilla'', pg_samples), (lit ''pg_transport'', pt_samples)]))
                 (csv_path w))))"

text \<open>
  A row of the comparison: the two latencies, by how much the second is longer, and the
  quotient that is printed as their ratio (\<open>None\<close>: n/a).  The layout of the numbers is not
  modelled, nor the row of the queries per second.
\<close>

record compare_row =
  cr_label :: bytes
  cr_vanilla :: nat
  cr_transport :: nat
  cr_diff :: nat
  cr_ratio :: "(nat \<times> nat) option"

definition ratio :: "nat \<Rightarrow> nat \<Rightarrow> (nat \<times> nat) option" where
  "ratio a b = (if b = 0 then None else Some (a, b))"

definition compare_line :: "bytes \<Rightarrow> nat \<Rightarrow> nat \<Rightarrow> compare_row" where
  "compare_line label a b =
    \<lparr>cr_label = label, cr_vanilla = a, cr_transport = b, cr_diff = (if b > a then b - a else 0), cr_ratio = ratio b a\<rparr>"

definition print_compare :: "summary \<Rightarrow> summary \<Rightarrow> compare_row list" where
  "print_compare pg pt =
    [compare_line (lit ''min'') (sm_min pg) (sm_min pt), compare_line (lit ''p50'') (sm_p50 pg) (sm_p50 pt),
     compare_line (lit ''p95'') (sm_p95 pg) (sm_p95 pt), compare_line (lit ''p99'') (sm_p99 pg) (sm_p99 pt),
     compare_line (lit ''max'') (sm_max pg) (sm_max pt), compare_line (lit ''mean'') (sm_mean pg) (sm_mean pt)]"

text \<open>Without a summary there is no table: the assertion of \<open>summarize\<close> failed.\<close>

fun compared :: "summary option \<times> summary option \<Rightarrow> compare_row list option" where
  "compared (Some pg, Some pt) = Some (print_compare pg pt)"
| "compared _ = None"

text \<open>The command line: a single run against a target, or the comparison of two ports.\<close>

datatype cmd = Cmd_Run bytes "bytes option" workload | Cmd_Compare nat nat workload

datatype bench_output =
    Single_Output "summary option" "(bytes \<times> bytes) option"
  | Compare_Output "compare_row list option" "(bytes \<times> bytes) option"

definition bench_main :: "cmd \<Rightarrow> (workload \<Rightarrow> bytes \<Rightarrow> bytes + nat list \<times> nat) \<Rightarrow> bytes + bench_output" where
  "bench_main c run =
    (case c of
       Cmd_Run target label w \<Rightarrow>
         bind_result (run_single w target label (run w)) (\<lambda>(s, csv). Inr (Single_Output s csv))
     | Cmd_Compare pt_port pg_port w \<Rightarrow>
         bind_result (run_compare w pt_port pg_port (run w)) (\<lambda>(summaries, csv).
           Inr (Compare_Output (compared summaries) csv)))"

text \<open>The difference column never shows a speed-up: it is zero where the transport was faster.\<close>

lemma compare_line_faster: "b \<le> a \<Longrightarrow> cr_diff (compare_line label a b) = 0"
  by (simp add: compare_line_def)

text \<open>A comparison that prints has samples of both targets, so every row has a ratio unless a latency was 0.\<close>

lemma bench_compare_rows:
  assumes "bench_main (Cmd_Compare pt_port pg_port w) run = Inr (Compare_Output (Some rows) csv)"
  shows "map cr_label rows = [lit ''min'', lit ''p50'', lit ''p95'', lit ''p99'', lit ''max'', lit ''mean'']"
    and "\<forall>row \<in> set rows. cr_ratio row = None \<longleftrightarrow> cr_vanilla row = 0"
proof -
  obtain summaries where "compared summaries = Some rows"
    using assms by (auto simp: bench_main_def bind_result_Inr_iff)
  then obtain pg pt where "rows = print_compare pg pt" by (cases summaries rule: compared.cases) auto
  then show "map cr_label rows = [lit ''min'', lit ''p50'', lit ''p95'', lit ''p99'', lit ''max'', lit ''mean'']"
    and "\<forall>row \<in> set rows. cr_ratio row = None \<longleftrightarrow> cr_vanilla row = 0"
    by (simp_all add: print_compare_def compare_line_def ratio_def del: lit_simps)
qed

section \<open>The split of the work\<close>

lemma worker_iters_sum:
  assumes "0 < c"
  shows "(\<Sum>i<c. worker_iters n c i) = n"
proof -
  have "(\<Sum>i<c. if i < n mod c then 1 else 0 :: nat) = card {i. i < c \<and> i < n mod c}"
    by (simp add: sum.If_cases Collect_conj_eq lessThan_def)
  also have "{i. i < c \<and> i < n mod c} = {..<n mod c}"
    using mod_less_divisor[OF assms, of n] by auto
  finally show ?thesis by (simp add: worker_iters_def sum.distrib)
qed

text \<open>A validated workload gives every worker a measured query.\<close>

lemma worker_iters_pos:
  assumes "validate_workload w = Inr ()"
  shows "0 < worker_iters (iterations w) (connections w) i"
  using assms by (auto simp: validate_workload_def worker_iters_def div_greater_zero_iff split: if_splits)

lemma run_trips_length: "run_trips ctx trip i n = Inr ts \<Longrightarrow> length ts = n"
  by (induction n arbitrary: i ts) (auto simp: bind_result_Inr_iff split: sum.splits)

lemma join_workers_error: "join_workers hs ts (Some e) = Inl e"
proof (induction hs arbitrary: ts)
  case (Cons h hs) then show ?case by (cases h; cases "the h") auto
qed simp

lemma join_workers_Inr:
  "join_workers hs ts None = Inr us \<Longrightarrow> \<exists>tss. hs = map (\<lambda>t. Some (Inr t)) tss \<and> us = ts @ concat tss"
proof (induction hs arbitrary: ts)
  case (Cons h hs)
  then obtain t where h: "h = Some (Inr t)" and "join_workers hs (ts @ t) None = Inr us"
    by (cases h; cases "the h") (auto simp: join_workers_error)
  then obtain tss where "hs = map (\<lambda>t. Some (Inr t)) tss" "us = (ts @ t) @ concat tss"
    using Cons.IH by blast
  then show ?case using h by (intro exI[of _ "t # tss"]) simp
qed simp

lemma run_workload_samples:
  assumes "run_workload conn w in_time envs = Inr ts" "0 < connections w"
  shows "length ts = iterations w"
proof -
  let ?share = "worker_iters (iterations w) (connections w)"
  obtain tss where eq: "map (\<lambda>i. if w_panics (envs i) then None
        else Some (run_one_worker conn (?share i) (warmup w) (exec_mode w) (envs i))) [0..<connections w]
      = map (\<lambda>t. Some (Inr t)) tss" and ts: "ts = concat tss"
    using assms(1) by (auto simp: run_workload_def Let_def dest!: join_workers_Inr split: if_splits)
  have len: "length tss = connections w" using arg_cong[OF eq, of length] by simp
  have "length (tss ! i) = ?share i" if "i < connections w" for i
  proof -
    have "(if w_panics (envs i) then None else Some (run_one_worker conn (?share i) (warmup w) (exec_mode w) (envs i)))
        = Some (Inr (tss ! i))"
      using that len arg_cong[OF eq, of "\<lambda>l. l ! i"] by (simp cong: if_cong)
    then show ?thesis
      by (auto simp: run_one_worker_def bind_result_Inr_iff dest: run_trips_length split: if_splits)
  qed
  then have "map length tss = map ?share [0..<connections w]"
    using len by (intro nth_equalityI) simp_all
  then have "length ts = (\<Sum>i<connections w. ?share i)"
    by (simp add: ts length_concat interv_sum_list_conv_sum_set_nat atLeast0LessThan)
  then show ?thesis using worker_iters_sum[OF assms(2)] by simp
qed

text \<open>
  A worker that fails before the barrier keeps it shut: whatever its error was, the
  run reports the timeout and blames the size of the pool.
\<close>

lemma early_failure_reported_as_timeout:
  assumes "i < connections w" "reach_barrier conn (warmup w) (exec_mode w) (envs i) = Inl e"
  shows "run_workload conn w in_time envs = Inl (barrier_error (connections w))"
  using assms by (auto simp: run_workload_def Let_def list_all_iff)

section \<open>The order of the summary\<close>

lemma percentile_mono:
  assumes "p \<le> q" "ts \<noteq> []"
  shows "percentile (sort ts) p \<le> percentile (sort ts) q"
proof -
  have "p * length ts div 100 \<le> q * length ts div 100" using assms(1) by (intro div_le_mono mult_le_mono1)
  moreover have "0 < length ts" using assms(2) by simp
  ultimately show ?thesis unfolding percentile_def by (intro sorted_nth_mono) (auto simp: min_less_iff_disj)
qed

lemma percentile_ends:
  assumes "ts \<noteq> []"
  shows "percentile (sort ts) 0 = sort ts ! 0" "percentile (sort ts) 100 = sort ts ! (length ts - 1)"
  using assms by (simp_all add: percentile_def)

lemma percentile_mem:
  assumes "ts \<noteq> []"
  shows "percentile (sort ts) p \<in> set ts"
proof -
  have "percentile (sort ts) p \<in> set (sort ts)"
    unfolding percentile_def using assms by (intro nth_mem) (simp add: min.strict_coboundedI2)
  then show ?thesis by simp
qed

lemma summarize_Some:
  assumes "summarize ts wall = Some s"
  shows "ts \<noteq> []" "sm_min s = percentile (sort ts) 0" "sm_p50 s = percentile (sort ts) 50"
    "sm_p95 s = percentile (sort ts) 95" "sm_p99 s = percentile (sort ts) 99"
    "sm_max s = percentile (sort ts) 100"
  using assms percentile_ends[of ts] by (auto simp: summarize_def Let_def split: if_splits)

lemma summary_ordered:
  assumes "summarize ts wall = Some s"
  shows "sm_min s \<le> sm_p50 s" "sm_p50 s \<le> sm_p95 s" "sm_p95 s \<le> sm_p99 s" "sm_p99 s \<le> sm_max s"
  using summarize_Some(1)[OF assms] by (simp_all add: summarize_Some(2-)[OF assms] percentile_mono)

lemma summary_in_samples:
  assumes "summarize ts wall = Some s"
  shows "{sm_min s, sm_p50 s, sm_p95 s, sm_p99 s, sm_max s} \<subseteq> set ts"
  using summarize_Some(1)[OF assms] by (simp add: summarize_Some(2-)[OF assms] percentile_mem)

text \<open>
  The percentile counts its rank from zero: of 100 samples the 99th percentile is
  the largest one, where the nearest rank would take the one before it.
\<close>

lemma p99_of_100_is_max:
  assumes "summarize ts wall = Some s" "length ts = 100"
  shows "sm_p99 s = sm_max s"
  using assms by (auto simp: summarize_def Let_def percentile_def split: if_splits)

lemma rsplit_once_append: "d \<notin> set r \<Longrightarrow> rsplit_once d (l @ d # r) = Some (l, r)"
proof -
  assume r: "d \<notin> set r"
  have "rsplit_once d r = None" using r by (induction r) auto
  then show ?thesis by (induction l) auto
qed

lemma conn_str_host_port:
  "COLON_BYTE \<notin> set port \<Longrightarrow> libpq_conn_str (host @ COLON_BYTE # port) user db =
     lit ''host='' @ host @ lit '' port='' @ port @ lit '' user='' @ user @ lit '' dbname='' @ db"
  by (simp add: libpq_conn_str_def rsplit_once_append)

end
